(* ===== verification/Gimme_Prelude.thy ===== *)
theory Gimme_Prelude
  imports Main "HOL-Library.Sublist" "HOL-Library.Char_ord" "HOL-Library.List_Lexorder"
    "HOL-Library.Multiset" "HOL-Library.Word"
begin

text \<open>
  Shared vocabulary of the development: the collections of facts that the component proofs
  pass to the simplifier, and generic lemmas on lists, options, maps and prefixes of byte
  strings. A Go string is a sequence of bytes, here a \<^typ>\<open>string\<close> whose characters are
  the bytes; the order on strings is the bytewise lexicographic order of List_Lexorder, which
  is the order of Go's string comparison and of the keys of an S3 listing.
\<close>

named_theorems go_simps \<open>characteristic equations of the Go library functions\<close>
named_theorems handler_defs \<open>definitions of request handlers and service operations\<close>

type_synonym key = string
type_synonym bucket = string

subsection \<open>Prefixes\<close>

lemma prefix_append_iff [simp]: "prefix (p @ q) (p @ s) = prefix q s"
  by (induction p) auto

lemma prefix_drop_eq: "prefix p s \<Longrightarrow> p @ drop (length p) s = s"
  by (auto simp: prefix_def)

lemma prefix_sep_iff:
  assumes "c \<notin> set a" and "c \<notin> set b"
  shows "prefix (a @ [c]) (b @ c # s) \<longleftrightarrow> a = b"
proof -
  have "a = b" if "prefix (a @ [c]) (b @ c # s)" "c \<notin> set a" "c \<notin> set b" for a b
    using that
  proof (induction a arbitrary: b)
    case Nil
    then show ?case by (cases b) auto
  next
    case (Cons x a)
    then show ?case by (cases b) auto
  qed
  then show ?thesis using assms by auto
qed

lemma append_sep_eq_iff:
  assumes "c \<notin> set a" and "c \<notin> set b"
  shows "a @ c # s = b @ c # t \<longleftrightarrow> a = b \<and> s = t"
proof
  assume eq: "a @ c # s = b @ c # t"
  then have "b @ c # t = (a @ [c]) @ s" by simp
  then have "prefix (a @ [c]) (b @ c # t)" by (rule prefixI)
  then have "a = b" using prefix_sep_iff [OF assms] by (rule iffD1 [rotated])
  with eq show "a = b \<and> s = t" by simp
qed simp

lemma takeWhile_sep [simp]: "c \<notin> set a \<Longrightarrow> takeWhile (\<lambda>x. x \<noteq> c) (a @ c # s) = a"
  by (induction a) auto

lemma takeWhile_no_sep [simp]: "c \<notin> set a \<Longrightarrow> takeWhile (\<lambda>x. x \<noteq> c) a = a"
  by (induction a) auto

lemma not_in_takeWhile [simp]: "c \<notin> set (takeWhile (\<lambda>x. x \<noteq> c) s)"
  by (induction s) auto

lemma takeWhile_split:
  "c \<in> set s \<Longrightarrow> s = takeWhile (\<lambda>x. x \<noteq> c) s @ c # drop (Suc (length (takeWhile (\<lambda>x. x \<noteq> c) s))) s"
  by (induction s) auto

lemma hd_dropWhile_cases: "dropWhile P s = [] \<or> \<not> P (hd (dropWhile P s))"
  by (induction s) auto

text \<open>A longer string sorts after each of its proper prefixes.\<close>

lemma less_append_string [simp]: "s \<noteq> [] \<Longrightarrow> (a :: string) < a @ s"
  by (induction a) (auto simp: neq_Nil_conv)

subsection \<open>Maps\<close>

lemma map_of_filter_neq:
  "map_of (filter (\<lambda>p. fst p \<noteq> k) xs) k' = (if k' = k then None else map_of xs k')"
  by (induction xs) auto

lemma foldl_option_first:
  "foldl (\<lambda>e x. case e of None \<Rightarrow> f x | Some y \<Rightarrow> Some y) (Some a) xs = Some a"
  by (induction xs) auto

lemma fst_eq_pair: "fst x = a \<Longrightarrow> x = (a, snd x)"
  by (cases x) simp

lemma map_le_SomeI: "(\<And>k v. m k = Some v \<Longrightarrow> m' k = Some v) \<Longrightarrow> m \<subseteq>\<^sub>m m'"
  by (auto simp: map_le_def)

lemma map_le_SomeD: "m \<subseteq>\<^sub>m m' \<Longrightarrow> m k = Some v \<Longrightarrow> m' k = Some v"
  by (metis domI map_le_def)

end
