(* ===== verification/Gimme_GoLib.thy ===== *)
theory Gimme_GoLib
  imports Gimme_Prelude
begin

text \<open>
  The functions of Go's standard library (packages strings, path, path/filepath, slices) that
  the sources call, on byte strings. Separators and cut sets of the sources are single
  characters, so the separator argument is a \<^typ>\<open>char\<close>. Functions whose answer depends on
  tables of the host (mime types) are arguments of the definitions that use them.
\<close>

subsection \<open>Package strings\<close>

definition HasPrefix :: "string \<Rightarrow> string \<Rightarrow> bool" where
  "HasPrefix s p \<longleftrightarrow> prefix p s"

definition HasSuffix :: "string \<Rightarrow> string \<Rightarrow> bool" where
  "HasSuffix s p \<longleftrightarrow> suffix p s"

definition Contains :: "string \<Rightarrow> char \<Rightarrow> bool" where
  "Contains s c \<longleftrightarrow> c \<in> set s"

definition TrimPrefix :: "string \<Rightarrow> string \<Rightarrow> string" where
  "TrimPrefix s p = (if HasPrefix s p then drop (length p) s else s)"

definition CutSuffix :: "string \<Rightarrow> string \<Rightarrow> string \<times> bool" where
  "CutSuffix s p = (if HasSuffix s p then (take (length s - length p) s, True) else (s, False))"

definition TrimSuffix :: "string \<Rightarrow> string \<Rightarrow> string" where
  "TrimSuffix s p = fst (CutSuffix s p)"

definition Cut :: "string \<Rightarrow> char \<Rightarrow> string \<times> string \<times> bool" where
  "Cut s c =
     (if c \<in> set s
      then (takeWhile (\<lambda>x. x \<noteq> c) s, drop (Suc (length (takeWhile (\<lambda>x. x \<noteq> c) s))) s, True)
      else (s, '''', False))"

fun Split :: "string \<Rightarrow> char \<Rightarrow> string list" where
  "Split [] c = ['''']"
| "Split (x # s) c =
     (if x = c then '''' # Split s c
      else (case Split s c of [] \<Rightarrow> [[x]] | y # ys \<Rightarrow> (x # y) # ys))"

text \<open>\<open>strings.SplitN(s, sep, 2)\<close>, the only count the sources use.\<close>

definition SplitN2 :: "string \<Rightarrow> char \<Rightarrow> string list" where
  "SplitN2 s c = (case Cut s c of (before, after, found) \<Rightarrow>
     if found then [before, after] else [s])"

fun Join :: "string list \<Rightarrow> string \<Rightarrow> string" where
  "Join [] sep = ''''"
| "Join [x] sep = x"
| "Join (x # xs) sep = x @ sep @ Join xs sep"

definition TrimLeft :: "string \<Rightarrow> char \<Rightarrow> string" where
  "TrimLeft s c = dropWhile (\<lambda>x. x = c) s"

definition TrimRight :: "string \<Rightarrow> char \<Rightarrow> string" where
  "TrimRight s c = rev (dropWhile (\<lambda>x. x = c) (rev s))"

definition Trim :: "string \<Rightarrow> char \<Rightarrow> string" where
  "Trim s c = TrimRight (TrimLeft s c) c"

text \<open>
  Case mapping on the ASCII letters; the bytes of a multi-byte character are left as they are
  (the Unicode case tables are not modelled).
\<close>

definition lower_char :: "char \<Rightarrow> char" where
  "lower_char c = (if 65 \<le> (of_char c :: nat) \<and> (of_char c :: nat) \<le> 90
     then char_of ((of_char c :: nat) + 32) else c)"

definition upper_char :: "char \<Rightarrow> char" where
  "upper_char c = (if 97 \<le> (of_char c :: nat) \<and> (of_char c :: nat) \<le> 122
     then char_of ((of_char c :: nat) - 32) else c)"

definition ToLower :: "string \<Rightarrow> string" where
  "ToLower s = map lower_char s"

definition ToUpper :: "string \<Rightarrow> string" where
  "ToUpper s = map upper_char s"

definition EqualFold :: "string \<Rightarrow> string \<Rightarrow> bool" where
  "EqualFold s t \<longleftrightarrow> ToLower s = ToLower t"

text \<open>
  \<open>strings.TrimSpace\<close> removes the characters of \<open>unicode.IsSpace\<close>: six ASCII bytes
  and the UTF-8 encodings of the other white-space code points.
\<close>

definition space_runes :: "string list" where
  "space_runes =
     map (\<lambda>n. [char_of (n::nat)]) [9, 10, 11, 12, 13, 32] @
     map (map char_of) [[194, 133], [194, 160], [225, 154, 128::nat]] @
     map (\<lambda>n. map char_of [226, 128, n]) [128, 129, 130, 131, 132, 133, 134, 135, 136, 137, 138, 168, 169, 175::nat] @
     map (map char_of) [[226, 129, 159], [227, 128, 128::nat]]"

fun drop_spaces :: "string list \<Rightarrow> nat \<Rightarrow> string \<Rightarrow> string" where
  "drop_spaces rs 0 s = s"
| "drop_spaces rs (Suc n) s =
     (case find (\<lambda>r. prefix r s) rs of
        None \<Rightarrow> s
      | Some r \<Rightarrow> drop_spaces rs n (drop (length r) s))"

definition TrimSpace :: "string \<Rightarrow> string" where
  "TrimSpace s =
     (let l = drop_spaces space_runes (length s) s
      in rev (drop_spaces (map rev space_runes) (length l) (rev l)))"

subsection \<open>Packages path and path/filepath\<close>

text \<open>
  \<open>path.Clean\<close>: empty and \<open>.\<close> elements are dropped, \<open>..\<close> removes the
  element before it, a leading \<open>..\<close> of a relative path stays.
  The accumulator is the cleaned path so far, last element first.
\<close>

fun clean_elems :: "bool \<Rightarrow> string list \<Rightarrow> string list \<Rightarrow> string list" where
  "clean_elems rooted acc [] = rev acc"
| "clean_elems rooted acc (e # es) =
     (if e = '''' \<or> e = ''.'' then clean_elems rooted acc es
      else if e = ''..'' then
        (case acc of
           [] \<Rightarrow> clean_elems rooted (if rooted then [] else [''..'']) es
         | a # acc' \<Rightarrow> if a = ''..'' then clean_elems rooted (''..'' # acc) es
                     else clean_elems rooted acc' es)
      else clean_elems rooted (e # acc) es)"

definition path_Clean :: "string \<Rightarrow> string" where
  "path_Clean p =
     (let rooted = HasPrefix p ''/'';
          body = Join (clean_elems rooted [] (Split p (CHR ''/''))) ''/''
      in if rooted then ''/'' @ body else if body = '''' then ''.'' else body)"

definition path_Base :: "string \<Rightarrow> string" where
  "path_Base p =
     (if p = '''' then ''.''
      else let q = TrimRight p (CHR ''/'')
           in if q = '''' then ''/'' else last (Split q (CHR ''/'')))"

definition filepath_Ext :: "string \<Rightarrow> string" where
  "filepath_Ext p =
     (let b = last (Split p (CHR ''/''));
          e = takeWhile (\<lambda>x. x \<noteq> CHR ''.'') (rev b)
      in if CHR ''.'' \<in> set b then CHR ''.'' # rev e else '''')"

subsection \<open>Facts about these functions\<close>

lemma HasPrefix_append [simp]: "HasPrefix (p @ s) p"
  by (simp add: HasPrefix_def)

lemma HasPrefixD: "HasPrefix s p \<Longrightarrow> \<exists>t. s = p @ t"
  by (auto simp: HasPrefix_def prefix_def)

lemma TrimPrefix_append [simp]: "TrimPrefix (p @ s) p = s"
  by (simp add: TrimPrefix_def)

lemma HasSuffix_append [simp]: "HasSuffix (s @ p) p"
  by (simp add: HasSuffix_def suffix_def)

lemma CutSuffix_append [simp]: "CutSuffix (s @ p) p = (s, True)"
  by (simp add: CutSuffix_def)

lemma TrimSuffix_append [simp]: "TrimSuffix (s @ p) p = s"
  by (simp add: TrimSuffix_def)

lemma CutSuffix_True: "CutSuffix s p = (t, True) \<longleftrightarrow> s = t @ p"
  by (auto simp: CutSuffix_def HasSuffix_def suffix_def split: if_splits)

lemma Split_not_Nil [simp]: "Split s c \<noteq> []"
  by (induction s c rule: Split.induct) (auto split: list.splits)

lemma Split_no_sep: "c \<notin> set s \<Longrightarrow> Split s c = [s]"
  by (induction s c rule: Split.induct) auto

lemma Split_sep: "c \<notin> set a \<Longrightarrow> Split (a @ c # s) c = a # Split s c"
  by (induction a) (auto split: list.splits)

lemma Split_parts: "p \<in> set (Split s c) \<Longrightarrow> c \<notin> set p"
  by (induction s c arbitrary: p rule: Split.induct) (force split: list.splits if_splits)+

lemma Split_chars: "p \<in> set (Split s c) \<Longrightarrow> set p \<subseteq> set s"
  by (induction s c arbitrary: p rule: Split.induct) (force split: list.splits if_splits)+

lemma Join_Cons: "xs \<noteq> [] \<Longrightarrow> Join (x # xs) sep = x @ sep @ Join xs sep"
  by (cases xs) auto

text \<open>Splitting and joining with the same separator are inverse.\<close>

lemma Join_Split: "Join (Split s c) [c] = s"
proof (induction s c rule: Split.induct)
  case (2 x s c)
  show ?case
  proof (cases "Split s c")
    case (Cons y ys)
    with 2 show ?thesis by (cases ys) (auto simp: Join_Cons)
  qed simp
qed simp

lemma Split_Join:
  "xs \<noteq> [] \<Longrightarrow> (\<And>x. x \<in> set xs \<Longrightarrow> c \<notin> set x) \<Longrightarrow> Split (Join xs [c]) c = xs"
proof (induction xs "[c]" rule: Join.induct)
  case (2 x)
  then show ?case by (simp add: Split_no_sep)
next
  case (3 x y xs)
  then show ?case by (simp add: Split_sep)
qed simp

lemma length_Split: "length (Split s c) = Suc (count_list s c)"
  by (induction s c rule: Split.induct) (auto split: list.splits)

lemma Cut_found: "c \<notin> set a \<Longrightarrow> Cut (a @ c # s) c = (a, s, True)"
  by (simp add: Cut_def)

lemma Cut_not_found: "c \<notin> set s \<Longrightarrow> Cut s c = (s, '''', False)"
  by (simp add: Cut_def)

lemma Cut_True: "Cut s c = (a, b, True) \<longleftrightarrow> s = a @ c # b \<and> c \<notin> set a"
proof
  assume "Cut s c = (a, b, True)"
  then show "s = a @ c # b \<and> c \<notin> set a"
    using takeWhile_split [of c s] by (auto simp: Cut_def split: if_splits)
qed (simp add: Cut_found)

lemma Cut_False: "Cut s c = (a, b, False) \<longleftrightarrow> a = s \<and> b = '''' \<and> c \<notin> set s"
  by (auto simp: Cut_def split: if_splits)

lemma SplitN2_found: "c \<notin> set a \<Longrightarrow> SplitN2 (a @ c # s) c = [a, s]"
  by (simp add: SplitN2_def Cut_found)

lemma SplitN2_not_found: "c \<notin> set s \<Longrightarrow> SplitN2 s c = [s]"
  by (simp add: SplitN2_def Cut_not_found)

lemma hd_SplitN2: "hd (SplitN2 s c) = takeWhile (\<lambda>x. x \<noteq> c) s"
  by (auto simp: SplitN2_def Cut_def)

lemma hd_Split: "hd (Split s c) = takeWhile (\<lambda>x. x \<noteq> c) s"
  by (induction s c rule: Split.induct) (auto split: list.splits)

end
