(* ===== verification/Gimme_Errors.thy ===== *)
theory Gimme_Errors
  imports Gimme_GoLib
begin

text \<open>
  The business errors of internal/errors: a kind, the wrapped error and the HTTP status a
  controller answers with. Every error text the sources build with \<open>fmt.Errorf\<close> is a
  constructor of \<open>go_error\<close> that carries the formatted arguments; \<open>External\<close>
  stands for an error value handed over by code outside the repository. A function of the
  sources that returns \<open>*errors.GimmeError\<close> returns \<open>GimmeError option\<close> here
  (\<open>None\<close> is nil), or a sum with \<open>Inl\<close> the error when it also returns a value.
  \<open>remove_error\<close> is the storage manager's RemoveError, carrying the client's error
  instead of its text; the errors it is built from are a parameter, as it is part of
  \<open>go_error\<close> itself.
\<close>

datatype ErrorKindEnum =
    Unauthorized | InternalError | BadRequest | Conflict | PayloadTooLarge | NotImplemented
  | OtherKind string

datatype RemoveKindErrorEnum = Read | Delete

datatype 'e remove_error = RemoveError RemoveKindErrorEnum string "'e option"

text \<open>The problems that the validation of the configuration reports.\<close>

datatype config_problem =
    NotSet string
  | SecretTooShort nat
  | NotASize string string
  | NotPositive string int
  | Unsupported string string
  | RequiredFor string string string

datatype (plugins only: code size) go_error =
    External string
  | InvalidPackageName string
  | InvalidPackageVersion string
  | RequestTooLarge int
  | ReadingZip
  | TooManyEntries int int
  | ExpandsTooLarge "64 word" int
  | PackageExists string
  | UploadFailed go_error
  | UploadFailedNotRemoved go_error string
  | InvalidVersion
  | EmptyEntryName
  | AbsolutePath string
  | EscapesNamespace string
  | NoFiles
  | OpeningEntry string go_error
  | ReadingEntry string go_error
  | DuplicateKey string string string
  | SizeOutOfRange string "64 word"
  | UnexpectedSize string int "64 word"
  | OpenInputFailed
  | PutObjectFailed string
  | GetObjectFailed string
  | CreateBucketFailed string string
  | StorageUnreachable
  | BucketMissing string
  | RemovingObjects "go_error remove_error list"
  | SerializingCacheEntry go_error
  | StoringCacheEntry string go_error
  | DeletingCacheEntry string go_error
  | ScanningKeys string go_error
  | DeletingKeys string go_error
  | ContextDone
  | InvalidExpirationFormat
  | ExpirationNotInFuture
  | GeneratingToken
  | SavingToken
  | RandomBytesFailed go_error
  | DeriveKeyFailed go_error
  | LoadFailed string go_error
  | SaveFlushFailed go_error
  | MarshalFailed go_error
  | UnmarshalFailed go_error
  | EncryptFailed go_error
  | DecryptFailed go_error
  | InvalidKeySize
  | CiphertextTooShort
  | CreateTempFailed
  | WriteTempFailed
  | SyncTempFailed
  | CloseTempFailed
  | RenameFailed
  | SavingEntryFailed go_error
  | TokenAlreadyExpired
  | CreateTableFailed go_error
  | InvalidURL string
  | TokenNameRequired
  | TokenNameTooLong nat
  | FileRequired
  | InvalidFileType
  | InvalidSize string
  | SizeOverflow string
  | ConfigUnreadable
  | ConfigInvalid "config_problem list"
  | DiscoveryFailed string go_error

record GimmeError =
  Kind :: ErrorKindEnum
  Err :: "go_error option"

definition NewBusinessError :: "ErrorKindEnum \<Rightarrow> go_error \<Rightarrow> GimmeError" where
  "NewBusinessError kind err = \<lparr>Kind = kind, Err = Some err\<rparr>"

definition httpCodes :: "ErrorKindEnum \<rightharpoonup> nat" where
  "httpCodes kind = (case kind of
     BadRequest \<Rightarrow> Some 400
   | Conflict \<Rightarrow> Some 409
   | PayloadTooLarge \<Rightarrow> Some 413
   | InternalError \<Rightarrow> Some 500
   | Unauthorized \<Rightarrow> Some 401
   | NotImplemented \<Rightarrow> Some 501
   | OtherKind _ \<Rightarrow> None)"

definition GetHTTPCode :: "GimmeError \<Rightarrow> nat" where
  "GetHTTPCode e = (case httpCodes (Kind e) of Some code \<Rightarrow> code | None \<Rightarrow> 500)"

definition kind_name :: "ErrorKindEnum \<Rightarrow> string" where
  "kind_name k = (case k of
     Unauthorized \<Rightarrow> ''Unauthorized'' | InternalError \<Rightarrow> ''InternalError''
   | BadRequest \<Rightarrow> ''BadRequest'' | Conflict \<Rightarrow> ''Conflict''
   | PayloadTooLarge \<Rightarrow> ''PayloadTooLarge'' | NotImplemented \<Rightarrow> ''NotImplemented''
   | OtherKind s \<Rightarrow> s)"

text \<open>
  \<open>Error()\<close> falls back to the kind's name; the text of the wrapped error is the dynamic
  call \<open>e.Err.Error()\<close>, here the argument \<open>render\<close>.
\<close>

definition GimmeError_Error :: "(go_error \<Rightarrow> string) \<Rightarrow> GimmeError \<Rightarrow> string" where
  "GimmeError_Error render e = (case Err e of None \<Rightarrow> kind_name (Kind e) | Some err \<Rightarrow> render err)"

definition Unwrap :: "GimmeError \<Rightarrow> go_error option" where
  "Unwrap e = Err e"

lemma Kind_NewBusinessError [simp]: "Kind (NewBusinessError k e) = k"
  by (simp add: NewBusinessError_def)

lemma Err_NewBusinessError [simp]: "Err (NewBusinessError k e) = Some e"
  by (simp add: NewBusinessError_def)

lemma NewBusinessError_inject [simp]:
  "NewBusinessError k e = NewBusinessError k' e' \<longleftrightarrow> k = k' \<and> e = e'"
  by (auto simp: NewBusinessError_def)

lemma GetHTTPCode_NewBusinessError:
  "GetHTTPCode (NewBusinessError k e) = (case httpCodes k of Some code \<Rightarrow> code | None \<Rightarrow> 500)"
  by (simp add: GetHTTPCode_def)

end
