(* ===== verification/Gimme_Versions.thy ===== *)
theory Gimme_Versions
  imports Gimme_Errors
begin

text \<open>
  Version handling of internal/content/content-service.go: which stored version a request
  resolves to, which versions are pinned, and which cache prefixes a version belongs to.
  The package golang.org/x/mod/semver is outside the repository: it is the argument
  \<open>sv\<close>, and \<open>semver_laws\<close> states its documentation, the syntax
  \<open>vMAJOR[.MINOR[.PATCH[-PRERELEASE][+BUILD]]]\<close> and the behaviour of the accessors and
  of \<open>Sort\<close>.
\<close>

record semver_pkg =
  IsValid :: "string \<Rightarrow> bool"
  Prerelease :: "string \<Rightarrow> string"
  Major :: "string \<Rightarrow> string"
  MajorMinor :: "string \<Rightarrow> string"
  Compare :: "string \<Rightarrow> string \<Rightarrow> int"
  Sort :: "string list \<Rightarrow> string list"

definition is_digit :: "char \<Rightarrow> bool" where
  "is_digit c \<longleftrightarrow> CHR ''0'' \<le> c \<and> c \<le> CHR ''9''"

definition is_alpha :: "char \<Rightarrow> bool" where
  "is_alpha c \<longleftrightarrow> CHR ''A'' \<le> c \<and> c \<le> CHR ''Z'' \<or> CHR ''a'' \<le> c \<and> c \<le> CHR ''z''"

definition is_number :: "string \<Rightarrow> bool" where
  "is_number s \<longleftrightarrow> s \<noteq> '''' \<and> list_all is_digit s \<and> (hd s = CHR ''0'' \<longrightarrow> s = ''0'')"

definition tail_char :: "char \<Rightarrow> bool" where
  "tail_char c \<longleftrightarrow> is_digit c \<or> is_alpha c \<or> c = CHR ''.'' \<or> c = CHR ''-'' \<or> c = CHR ''+''"

text \<open>The suffix \<open>[-PRERELEASE][+BUILD]\<close>, allowed after three numbers only.\<close>

definition version_tail :: "string list \<Rightarrow> string \<Rightarrow> bool" where
  "version_tail nums t \<longleftrightarrow>
     t = '''' \<or> length nums = 3 \<and> (hd t = CHR ''-'' \<or> hd t = CHR ''+'') \<and> list_all tail_char t"

definition version_form :: "string list \<Rightarrow> string \<Rightarrow> bool" where
  "version_form nums t \<longleftrightarrow>
     nums \<noteq> [] \<and> length nums \<le> 3 \<and> list_all is_number nums \<and> version_tail nums t"

definition prerelease_part :: "string \<Rightarrow> string" where
  "prerelease_part t = (if HasPrefix t ''-'' then takeWhile (\<lambda>c. c \<noteq> CHR ''+'') t else '''')"

definition semver_laws :: "semver_pkg \<Rightarrow> bool" where
  "semver_laws sv \<longleftrightarrow>
     (\<forall>v. IsValid sv v \<longrightarrow> (\<exists>nums t. version_form nums t \<and> v = ''v'' @ Join nums ''.'' @ t)) \<and>
     (\<forall>nums t. version_form nums t \<longrightarrow> IsValid sv (''v'' @ Join nums ''.'' @ t) \<longrightarrow>
        Major sv (''v'' @ Join nums ''.'' @ t) = ''v'' @ hd nums \<and>
        (2 \<le> length nums \<longrightarrow>
          MajorMinor sv (''v'' @ Join nums ''.'' @ t) = ''v'' @ Join (take 2 nums) ''.'') \<and>
        Prerelease sv (''v'' @ Join nums ''.'' @ t) = prerelease_part t) \<and>
     (\<forall>vs. mset (Sort sv vs) = mset vs \<and> sorted_wrt (\<lambda>a b. Compare sv a b \<le> 0) (Sort sv vs)) \<and>
     (\<forall>a b. Compare sv a b \<le> 0 \<or> Compare sv b a \<le> 0) \<and>
     (\<forall>a b c. Compare sv a b \<le> 0 \<longrightarrow> Compare sv b c \<le> 0 \<longrightarrow> Compare sv a c \<le> 0)"

subsection \<open>The model\<close>

definition latestVersionAlias :: string where
  "latestVersionAlias = ''latest''"

text \<open>The pattern \<open>^[A-Za-z0-9._-]+$\<close>.\<close>

definition packageNamePattern :: "string \<Rightarrow> bool" where
  "packageNamePattern s \<longleftrightarrow>
     s \<noteq> '''' \<and> list_all (\<lambda>c. is_alpha c \<or> is_digit c \<or> c = CHR ''.'' \<or> c = CHR ''_'' \<or> c = CHR ''-'') s"

definition versionMatches :: "semver_pkg \<Rightarrow> string \<Rightarrow> string \<Rightarrow> bool" where
  "versionMatches sv candidateVersion requestedVersion =
     (let candidateSemver = ''v'' @ candidateVersion;
          parts = length (Split requestedVersion (CHR ''.''))
      in if \<not> IsValid sv candidateSemver then False
         else if requestedVersion = latestVersionAlias then Prerelease sv candidateSemver = ''''
         else if candidateVersion = requestedVersion then True
         else if 3 \<le> parts \<or> Prerelease sv candidateSemver \<noteq> '''' then False
         else if parts = 1 then Major sv candidateSemver = ''v'' @ requestedVersion
         else if parts = 2 then MajorMinor sv candidateSemver = ''v'' @ requestedVersion
         else False)"

definition version_base :: "string \<Rightarrow> string" where
  "version_base version = hd (SplitN2 (hd (SplitN2 version (CHR ''-''))) (CHR ''+''))"

definition isFullSemver :: "semver_pkg \<Rightarrow> string \<Rightarrow> bool" where
  "isFullSemver sv version \<longleftrightarrow>
     length (Split (version_base version) (CHR ''.'')) = 3 \<and> IsValid sv (''v'' @ version)"

definition IsPinnedVersion :: "semver_pkg \<Rightarrow> string \<Rightarrow> bool" where
  "IsPinnedVersion sv version \<longleftrightarrow>
     (if \<not> isFullSemver sv version then False else Prerelease sv (''v'' @ version) = '''')"

definition validatePackageIdentity :: "semver_pkg \<Rightarrow> string \<Rightarrow> string \<Rightarrow> go_error option" where
  "validatePackageIdentity sv name version =
     (if \<not> packageNamePattern name then Some (InvalidPackageName name)
      else if \<not> isFullSemver sv version then Some (InvalidPackageVersion version)
      else None)"

text \<open>
  The loops of \<open>resolveVersion\<close> and \<open>ListVersions\<close> over the prefixes that the
  storage listed; the listing itself is a call in the content service.
\<close>

definition candidate_of :: "string \<Rightarrow> string \<Rightarrow> string" where
  "candidate_of pkg commonPrefix = TrimSuffix (TrimPrefix commonPrefix (pkg @ ''@'')) ''/''"

definition resolve_from :: "semver_pkg \<Rightarrow> string \<Rightarrow> string \<Rightarrow> string list \<Rightarrow> string option" where
  "resolve_from sv pkg version commonPrefixes =
     (let versions = map (\<lambda>c. ''v'' @ c)
            (filter (\<lambda>c. versionMatches sv c version) (map (candidate_of pkg) commonPrefixes))
      in if versions = [] then None
         else Some (TrimPrefix (last (Sort sv versions)) ''v''))"

definition versions_from :: "semver_pkg \<Rightarrow> string \<Rightarrow> string list \<Rightarrow> string list" where
  "versions_from sv pkg commonPrefixes =
     (let versions = map (\<lambda>c. ''v'' @ c)
            (filter (isFullSemver sv) (map (candidate_of pkg) commonPrefixes))
      in map (\<lambda>v. TrimPrefix v ''v'') (rev (Sort sv versions)))"

definition mutableAliasPrefixes :: "string \<Rightarrow> string \<Rightarrow> string list" where
  "mutableAliasPrefixes pkg version =
     (let parts = Split (version_base version) (CHR ''.'')
      in (pkg @ ''@'' @ latestVersionAlias) #
         map (\<lambda>i. pkg @ ''@'' @ Join (take i parts) ''.'') [1..<length parts])"

subsection \<open>Consequences of the documented syntax\<close>

lemma semver_shape:
  assumes "semver_laws sv" and "IsValid sv (''v'' @ v)"
  obtains nums t where "version_form nums t" and "v = Join nums ''.'' @ t"
proof -
  from assms obtain nums t where "version_form nums t" "''v'' @ v = ''v'' @ Join nums ''.'' @ t"
    unfolding semver_laws_def by blast
  with that show thesis by simp
qed

lemma semver_parts:
  assumes "semver_laws sv" and "version_form nums t" and "IsValid sv (''v'' @ Join nums ''.'' @ t)"
  shows "Major sv (''v'' @ Join nums ''.'' @ t) = ''v'' @ hd nums"
    and "2 \<le> length nums \<Longrightarrow> MajorMinor sv (''v'' @ Join nums ''.'' @ t) = ''v'' @ Join (take 2 nums) ''.''"
    and "Prerelease sv (''v'' @ Join nums ''.'' @ t) = prerelease_part t"
  using assms unfolding semver_laws_def by blast+

lemma Sort_laws:
  assumes "semver_laws sv"
  shows "mset (Sort sv vs) = mset vs" and "sorted_wrt (\<lambda>a b. Compare sv a b \<le> 0) (Sort sv vs)"
  using assms unfolding semver_laws_def by blast+

lemma Compare_refl: "semver_laws sv \<Longrightarrow> Compare sv a a \<le> 0"
  unfolding semver_laws_def by blast

lemma set_Sort: "semver_laws sv \<Longrightarrow> set (Sort sv vs) = set vs"
  using Sort_laws(1) mset_eq_setD by blast

lemma number_chars:
  assumes "is_number n"
  shows "n \<noteq> ''''" and "CHR ''.'' \<notin> set n" and "CHR ''-'' \<notin> set n" and "CHR ''+'' \<notin> set n"
    and "CHR ''/'' \<notin> set n" and "CHR ''l'' \<notin> set n"
proof -
  have "\<not> is_digit (CHR ''.'')" "\<not> is_digit (CHR ''-'')" "\<not> is_digit (CHR ''+'')"
    "\<not> is_digit (CHR ''/'')" "\<not> is_digit (CHR ''l'')"
    by (simp_all add: is_digit_def less_eq_char_def)
  with assms show "n \<noteq> ''''" and "CHR ''.'' \<notin> set n" and "CHR ''-'' \<notin> set n"
    and "CHR ''+'' \<notin> set n" and "CHR ''/'' \<notin> set n" and "CHR ''l'' \<notin> set n"
    by (auto simp: is_number_def list_all_iff)
qed

lemma set_Join: "set (Join xs sep) \<subseteq> (\<Union>x\<in>set xs. set x) \<union> set sep"
  by (induction xs sep rule: Join.induct) auto

lemma core_chars:
  assumes "version_form nums t"
  shows "CHR ''-'' \<notin> set (Join nums ''.'')" and "CHR ''+'' \<notin> set (Join nums ''.'')"
    and "CHR ''/'' \<notin> set (Join nums ''.'')"
proof -
  have num: "\<And>n. n \<in> set nums \<Longrightarrow> is_number n"
    using assms by (simp add: version_form_def list_all_iff)
  show "CHR ''-'' \<notin> set (Join nums ''.'')" and "CHR ''+'' \<notin> set (Join nums ''.'')"
    and "CHR ''/'' \<notin> set (Join nums ''.'')"
    using set_Join [of nums "''.''"] num number_chars(3-5) by auto
qed

lemma Split_core: "version_form nums t \<Longrightarrow> Split (Join nums ''.'') (CHR ''.'') = nums"
  by (rule Split_Join) (auto simp: version_form_def list_all_iff dest: number_chars)

lemma version_base_form: "version_form nums t \<Longrightarrow> version_base (Join nums ''.'' @ t) = Join nums ''.''"
  using core_chars [of nums t]
  by (cases t) (auto simp: version_base_def hd_SplitN2 version_form_def version_tail_def
      takeWhile_append)

text \<open>A valid version holds no slash, so it never leaves its path segment.\<close>

lemma semver_no_slash:
  assumes "semver_laws sv" and "IsValid sv (''v'' @ v)"
  shows "CHR ''/'' \<notin> set v"
proof -
  obtain nums t where f: "version_form nums t" "v = Join nums ''.'' @ t"
    using semver_shape [OF assms] .
  have "\<not> tail_char (CHR ''/'')"
    by (simp add: tail_char_def is_digit_def is_alpha_def less_eq_char_def)
  then have "CHR ''/'' \<notin> set t"
    using f(1) by (auto simp: version_form_def version_tail_def list_all_iff)
  with f core_chars(3) show ?thesis by auto
qed

lemma isFullSemver_shape:
  assumes "semver_laws sv" and "isFullSemver sv v"
  obtains n1 n2 n3 t where "version_form [n1, n2, n3] t" and "v = Join [n1, n2, n3] ''.'' @ t"
    and "IsValid sv (''v'' @ v)"
proof -
  from assms(2) have val: "IsValid sv (''v'' @ v)" by (simp add: isFullSemver_def)
  obtain nums t where f: "version_form nums t" "v = Join nums ''.'' @ t"
    using semver_shape [OF assms(1) val] .
  with assms(2) have "length nums = 3"
    by (simp add: isFullSemver_def version_base_form Split_core)
  then obtain n1 n2 n3 where "nums = [n1, n2, n3]"
    by (auto simp: numeral_3_eq_3 length_Suc_conv)
  with f val that show thesis by blast
qed

lemma packageName_chars:
  assumes "packageNamePattern s"
  shows "CHR ''@'' \<notin> set s" and "CHR ''/'' \<notin> set s" and "s \<noteq> ''''"
proof -
  have "\<not> is_digit (CHR ''@'')" "\<not> is_digit (CHR ''/'')" "\<not> is_alpha (CHR ''@'')" "\<not> is_alpha (CHR ''/'')"
    by (simp_all add: is_digit_def is_alpha_def less_eq_char_def)
  with assms show "CHR ''@'' \<notin> set s" and "CHR ''/'' \<notin> set s" and "s \<noteq> ''''"
    by (auto simp: packageNamePattern_def list_all_iff)
qed

lemma validatePackageIdentity_None:
  "validatePackageIdentity sv name version = None \<longleftrightarrow>
     packageNamePattern name \<and> isFullSemver sv version"
  by (simp add: validatePackageIdentity_def)

subsection \<open>Requests and the versions they match\<close>

lemma versionMatches_full:
  assumes laws: "semver_laws sv" and form: "version_form [n1, n2, n3] t"
    and val: "IsValid sv (''v'' @ Join [n1, n2, n3] ''.'' @ t)"
  shows "versionMatches sv (Join [n1, n2, n3] ''.'' @ t) r \<longleftrightarrow>
    (if r = latestVersionAlias then prerelease_part t = ''''
     else r = Join [n1, n2, n3] ''.'' @ t \<or>
          prerelease_part t = '''' \<and> (r = n1 \<or> r = n1 @ ''.'' @ n2))"
proof -
  note parts = semver_parts [OF laws form val]
  have num: "is_number n1" "is_number n2" using form by (simp_all add: version_form_def)
  have one: "length (Split n1 (CHR ''.'')) = 1"
    using number_chars(2) [OF num(1)] by (simp add: Split_no_sep)
  have two: "length (Split (n1 @ ''.'' @ n2) (CHR ''.'')) = 2"
    using number_chars(2) [OF num(1)] number_chars(2) [OF num(2)]
    by (simp add: Split_sep Split_no_sep)
  show ?thesis
    using parts val one two unfolding versionMatches_def Let_def by auto
qed

lemma alias_prefix_full:
  assumes form: "version_form [n1, n2, n3] t"
  shows "mutableAliasPrefixes pkg (Join [n1, n2, n3] ''.'' @ t) =
    [pkg @ ''@latest'', pkg @ ''@'' @ n1, pkg @ ''@'' @ n1 @ ''.'' @ n2]"
proof -
  have "[1..<length [n1, n2, n3]] = [1, 2]" by (simp add: upt_rec)
  then show ?thesis
    using version_base_form [OF form] Split_core [OF form]
    by (simp add: mutableAliasPrefixes_def latestVersionAlias_def)
qed

text \<open>
  Whatever request version resolves to a stored full version, the cache key of that request
  starts with one of the prefixes that deleting the version invalidates.
\<close>

lemma alias_prefixes_cover:
  assumes laws: "semver_laws sv" and full: "isFullSemver sv c" and m: "versionMatches sv c r"
  shows "\<exists>p \<in> set ((pkg @ ''@'' @ c) # mutableAliasPrefixes pkg c). prefix p (pkg @ ''@'' @ r @ file)"
proof -
  obtain n1 n2 n3 t where f: "version_form [n1, n2, n3] t" "c = Join [n1, n2, n3] ''.'' @ t"
    "IsValid sv (''v'' @ c)"
    using isFullSemver_shape [OF laws full] .
  have "r = ''latest'' \<or> r = c \<or> r = n1 \<or> r = n1 @ ''.'' @ n2"
    using m versionMatches_full [OF laws f(1)] f(2,3)
    by (auto simp: latestVersionAlias_def split: if_splits)
  then show ?thesis
    using alias_prefix_full [OF f(1), of pkg] f(2) by auto
qed

lemma sorted_wrt_last:
  "sorted_wrt P xs \<Longrightarrow> (\<And>a. P a a) \<Longrightarrow> x \<in> set xs \<Longrightarrow> P x (last xs)"
  by (induction xs rule: rev_induct) (auto simp: sorted_wrt_append)

lemma resolve_from_Some:
  assumes laws: "semver_laws sv" and res: "resolve_from sv pkg version ps = Some v"
  shows "v \<in> candidate_of pkg ` set ps" and "versionMatches sv v version"
    and "p \<in> set ps \<Longrightarrow> versionMatches sv (candidate_of pkg p) version \<Longrightarrow>
      Compare sv (''v'' @ candidate_of pkg p) (''v'' @ v) \<le> 0"
proof -
  let ?cs = "filter (\<lambda>c. versionMatches sv c version) (map (candidate_of pkg) ps)"
  let ?vs = "map (\<lambda>c. ''v'' @ c) ?cs"
  have ne: "?vs \<noteq> []" and v: "v = TrimPrefix (last (Sort sv ?vs)) ''v''"
    using res by (auto simp: resolve_from_def Let_def split: if_splits)
  have "set (Sort sv ?vs) = set ?vs" by (rule set_Sort [OF laws])
  moreover from this ne have "Sort sv ?vs \<noteq> []" by (metis set_empty)
  then have "last (Sort sv ?vs) \<in> set (Sort sv ?vs)" by (rule last_in_set)
  ultimately have "last (Sort sv ?vs) \<in> (\<lambda>c. ''v'' @ c) ` set ?cs" by (simp only: set_map)
  then obtain c where c: "c \<in> set ?cs" "last (Sort sv ?vs) = ''v'' @ c" by blast
  with v have vc: "v = c" by (metis TrimPrefix_append)
  with c(1) show "v \<in> candidate_of pkg ` set ps" and "versionMatches sv v version" by auto
  assume "p \<in> set ps" and "versionMatches sv (candidate_of pkg p) version"
  then have "''v'' @ candidate_of pkg p \<in> set (Sort sv ?vs)"
    using set_Sort [OF laws, of ?vs] by auto
  then show "Compare sv (''v'' @ candidate_of pkg p) (''v'' @ v) \<le> 0"
    using sorted_wrt_last [OF Sort_laws(2) [OF laws] Compare_refl [OF laws]] c(2) vc by metis
qed

lemma resolve_from_None:
  "resolve_from sv pkg version ps = None \<longleftrightarrow>
     (\<forall>p \<in> set ps. \<not> versionMatches sv (candidate_of pkg p) version)"
  by (auto simp: resolve_from_def Let_def filter_empty_conv)

lemma versions_from_mset:
  assumes laws: "semver_laws sv"
  shows "mset (versions_from sv pkg ps) =
    filter_mset (isFullSemver sv) (image_mset (candidate_of pkg) (mset ps))"
proof -
  let ?cs = "filter (isFullSemver sv) (map (candidate_of pkg) ps)"
  have "mset (versions_from sv pkg ps) = image_mset (\<lambda>v. TrimPrefix v ''v'') (mset (map (\<lambda>c. ''v'' @ c) ?cs))"
    by (simp add: versions_from_def Let_def Sort_laws(1) [OF laws])
  also have "\<dots> = mset ?cs"
    by (simp add: multiset.map_comp comp_def del: append.simps)
  finally show ?thesis by (simp add: mset_filter)
qed

lemma versions_from_sorted:
  assumes laws: "semver_laws sv"
  shows "sorted_wrt (\<lambda>a b. Compare sv (''v'' @ b) (''v'' @ a) \<le> 0) (versions_from sv pkg ps)"
proof -
  let ?vs = "map (\<lambda>c. ''v'' @ c) (filter (isFullSemver sv) (map (candidate_of pkg) ps))"
  have pre: "''v'' @ TrimPrefix v ''v'' = v" if "v \<in> set (Sort sv ?vs)" for v
    using that set_Sort [OF laws, of ?vs] by (auto simp del: append.simps)
  have "sorted_wrt (\<lambda>a b. Compare sv (''v'' @ TrimPrefix a ''v'') (''v'' @ TrimPrefix b ''v'') \<le> 0) (Sort sv ?vs)"
    by (rule sorted_wrt_mono_rel [OF _ Sort_laws(2) [OF laws]]) (simp only: pre)
  then show ?thesis
    by (simp add: versions_from_def Let_def sorted_wrt_map sorted_wrt_rev)
qed

end
