(* ===== verification/Gimme_Archive.thy ===== *)
theory Gimme_Archive
  imports Gimme_Errors
begin

text \<open>
  The archive side of an upload, internal/content/archive-keys.go: from the entries of a ZIP
  archive to the object keys of the package, with the upload limits. A \<open>*zip.File\<close> is
  the record \<open>zip_file\<close>; what opening and reading it yields is data of the record.
  Unicode normalisation (golang.org/x/text/unicode/norm) and the ignore matcher
  (github.com/sabhiram/go-gitignore) are outside the repository and are the arguments
  \<open>NFC\<close> and \<open>CompileIgnoreLines\<close>.
\<close>

subsection \<open>ZIP entries\<close>

text \<open>
  A reader delivers its bytes and then ends, with \<open>io.EOF\<close> (\<open>None\<close>) or with an error.
\<close>

record zip_reader =
  rd_data :: string
  rd_err :: "go_error option"

record zip_file =
  Name :: string
  UncompressedSize64 :: "64 word"
  ModeDir :: bool
  Open :: "go_error + zip_reader"

text \<open>\<open>FileInfo().IsDir()\<close>: the mode bits say directory, or the name ends with a slash.\<close>

definition IsDir :: "zip_file \<Rightarrow> bool" where
  "IsDir f \<longleftrightarrow> ModeDir f \<or> HasSuffix (Name f) ''/''"

text \<open>\<open>io.ReadAll\<close> and a copy of at most \<open>n\<close> bytes (\<open>io.Copy\<close> of an \<open>io.LimitReader\<close>).\<close>

definition ReadAll :: "zip_reader \<Rightarrow> go_error + string" where
  "ReadAll r = (case rd_err r of None \<Rightarrow> Inr (rd_data r) | Some e \<Rightarrow> Inl e)"

definition copy_limited :: "nat \<Rightarrow> zip_reader \<Rightarrow> string \<times> go_error option" where
  "copy_limited n r =
     (if n \<le> length (rd_data r) then (take n (rd_data r), None) else (rd_data r, rd_err r))"

subsection \<open>The model\<close>

record archiveObject =
  ao_key :: string
  ao_file :: zip_file

record archiveFile =
  af_name :: string
  af_original :: string
  af_file :: zip_file

record archiveIgnore =
  ai_file :: archiveFile
  matchPrefix :: string

definition gimmeIgnoreName :: string where
  "gimmeIgnoreName = ''.gimmeignore''"

definition isArchiveJunk :: "string \<Rightarrow> bool" where
  "isArchiveJunk cleaned =
     (case Cut cleaned (CHR ''/'') of (firstSegment, _, _) \<Rightarrow>
        firstSegment = ''__MACOSX'' \<or> path_Base cleaned = ''.DS_Store'')"

fun validate_loop :: "(string \<Rightarrow> string) \<Rightarrow> zip_file list \<Rightarrow> GimmeError + archiveFile list" where
  "validate_loop NFC [] = Inr []"
| "validate_loop NFC (f # fs) =
     (let original = Name f; cleaned = path_Clean (NFC original)
      in if IsDir f \<or> HasSuffix original ''/'' then validate_loop NFC fs
         else if original = '''' then Inl (NewBusinessError BadRequest EmptyEntryName)
         else if HasPrefix original ''/'' then Inl (NewBusinessError BadRequest (AbsolutePath original))
         else if cleaned = ''.'' \<or> cleaned = ''..'' \<or> HasPrefix cleaned ''../'' \<or> HasPrefix cleaned ''/''
         then Inl (NewBusinessError BadRequest (EscapesNamespace original))
         else if isArchiveJunk cleaned then validate_loop NFC fs
         else (case validate_loop NFC fs of
             Inl e \<Rightarrow> Inl e
           | Inr es \<Rightarrow> Inr (\<lparr>af_name = cleaned, af_original = original, af_file = f\<rparr> # es)))"

definition validatedEntries :: "(string \<Rightarrow> string) \<Rightarrow> zip_file list \<Rightarrow> GimmeError + archiveFile list" where
  "validatedEntries NFC files =
     (case validate_loop NFC files of
        Inl e \<Rightarrow> Inl e
      | Inr entries \<Rightarrow> if entries = [] then Inl (NewBusinessError BadRequest NoFiles) else Inr entries)"

fun top_folder_loop :: "string \<Rightarrow> bool \<Rightarrow> archiveFile list \<Rightarrow> string \<times> bool" where
  "top_folder_loop common first [] = (common, True)"
| "top_folder_loop common first (e # es) =
     (case Cut (af_name e) (CHR ''/'') of (root, _, found) \<Rightarrow>
        if \<not> found then ('''', False)
        else if first then top_folder_loop root False es
        else if root \<noteq> common then ('''', False)
        else top_folder_loop common False es)"

definition singleTopLevelFolder :: "archiveFile list \<Rightarrow> string \<times> bool" where
  "singleTopLevelFolder entries =
     (if entries = [] then ('''', False) else top_folder_loop '''' True entries)"

definition findIgnoreFile :: "archiveFile list \<Rightarrow> archiveIgnore option" where
  "findIgnoreFile entries =
     (case find (\<lambda>e. af_name e = gimmeIgnoreName) entries of
        Some e \<Rightarrow> Some \<lparr>ai_file = e, matchPrefix = ''''\<rparr>
      | None \<Rightarrow>
          (case singleTopLevelFolder entries of (wrapper, hasWrapper) \<Rightarrow>
             if \<not> hasWrapper then None
             else (case find (\<lambda>e. af_name e = wrapper @ ''/'' @ gimmeIgnoreName) entries of
                 Some e \<Rightarrow> Some \<lparr>ai_file = e, matchPrefix = wrapper @ ''/''\<rparr>
               | None \<Rightarrow> None)))"

definition readIgnorePatterns :: "archiveFile \<Rightarrow> GimmeError + string list" where
  "readIgnorePatterns file =
     (case Open (af_file file) of
        Inl e \<Rightarrow> Inl (NewBusinessError InternalError (OpeningEntry (af_original file) e))
      | Inr reader \<Rightarrow>
          (case ReadAll reader of
             Inl e \<Rightarrow> Inl (NewBusinessError InternalError (ReadingEntry (af_original file) e))
           | Inr contents \<Rightarrow> Inr (Split contents (CHR 10))))"

definition applyIgnoreFile ::
  "(string list \<Rightarrow> string \<Rightarrow> bool) \<Rightarrow> archiveFile list \<Rightarrow> GimmeError + archiveFile list" where
  "applyIgnoreFile CompileIgnoreLines entries =
     (case findIgnoreFile entries of
        None \<Rightarrow> Inr entries
      | Some selected \<Rightarrow>
          (case readIgnorePatterns (ai_file selected) of
             Inl e \<Rightarrow> Inl e
           | Inr patterns \<Rightarrow>
               (let MatchesPath = CompileIgnoreLines patterns;
                    kept = filter (\<lambda>e. \<not> (af_name e = af_name (ai_file selected)) \<and>
                             \<not> MatchesPath (TrimPrefix (af_name e) (matchPrefix selected))) entries
                in if kept = [] then Inl (NewBusinessError BadRequest NoFiles) else Inr kept)))"

fun object_loop ::
  "bool \<Rightarrow> string \<Rightarrow> string \<Rightarrow> (string \<rightharpoonup> string) \<Rightarrow> archiveFile list \<Rightarrow> GimmeError + archiveObject list" where
  "object_loop stripWrapper wrapper pfx originalByKey [] = Inr []"
| "object_loop stripWrapper wrapper pfx originalByKey (e # es) =
     (let relativePath = (if stripWrapper then TrimPrefix (af_name e) (wrapper @ ''/'') else af_name e);
          key = pfx @ relativePath
      in if \<not> HasPrefix key pfx
         then Inl (NewBusinessError BadRequest (EscapesNamespace (af_original e)))
         else (case originalByKey key of
             Some previous \<Rightarrow> Inl (NewBusinessError BadRequest (DuplicateKey previous (af_original e) key))
           | None \<Rightarrow>
               (case object_loop stripWrapper wrapper pfx (originalByKey(key \<mapsto> af_original e)) es of
                  Inl err \<Rightarrow> Inl err
                | Inr objects \<Rightarrow> Inr (\<lparr>ao_key = key, ao_file = af_file e\<rparr> # objects))))"

definition objectKeys :: "archiveFile list \<Rightarrow> string \<Rightarrow> GimmeError + archiveObject list" where
  "objectKeys entries folderName =
     (case singleTopLevelFolder entries of (wrapper, stripWrapper) \<Rightarrow>
        object_loop stripWrapper wrapper (folderName @ ''/'') Map.empty entries)"

definition archiveKeys ::
  "(string \<Rightarrow> string) \<Rightarrow> (string list \<Rightarrow> string \<Rightarrow> bool) \<Rightarrow> zip_file list \<Rightarrow> string
     \<Rightarrow> GimmeError + archiveObject list" where
  "archiveKeys NFC CompileIgnoreLines files folderName =
     (case validatedEntries NFC files of
        Inl e \<Rightarrow> Inl e
      | Inr validated \<Rightarrow>
          (case applyIgnoreFile CompileIgnoreLines validated of
             Inl e \<Rightarrow> Inl e
           | Inr publishable \<Rightarrow> objectKeys publishable folderName))"

subsection \<open>Upload limits\<close>

record UploadLimits =
  MaxSize :: int
  MaxEntries :: int
  MaxUncompressedSize :: int

fun limits_loop :: "int \<Rightarrow> 64 word \<Rightarrow> zip_file list \<Rightarrow> int \<times> 64 word" where
  "limits_loop entryCount uncompressedSize [] = (entryCount, uncompressedSize)"
| "limits_loop entryCount uncompressedSize (f # fs) =
     (if IsDir f \<or> HasSuffix (Name f) ''/'' then limits_loop entryCount uncompressedSize fs
      else limits_loop (entryCount + 1)
        (if - 1 - uncompressedSize < UncompressedSize64 f then - 1
         else uncompressedSize + UncompressedSize64 f) fs)"

definition checkArchiveLimits :: "UploadLimits \<Rightarrow> zip_file list \<Rightarrow> GimmeError option" where
  "checkArchiveLimits limits files =
     (case limits_loop 0 0 files of (entryCount, uncompressedSize) \<Rightarrow>
        if 0 < MaxEntries limits \<and> MaxEntries limits < entryCount
        then Some (NewBusinessError PayloadTooLarge (TooManyEntries entryCount (MaxEntries limits)))
        else if 0 < MaxUncompressedSize limits \<and> word_of_int (MaxUncompressedSize limits) < uncompressedSize
        then Some (NewBusinessError PayloadTooLarge
               (ExpandsTooLarge uncompressedSize (MaxUncompressedSize limits)))
        else None)"

subsection \<open>Cleaned paths\<close>

definition proper_elem :: "string \<Rightarrow> bool" where
  "proper_elem e \<longleftrightarrow> e \<noteq> '''' \<and> e \<noteq> ''.'' \<and> e \<noteq> ''..'' \<and> CHR ''/'' \<notin> set e"

text \<open>A proper path names something below its root: no empty, dot or dot-dot element.\<close>

definition proper_path :: "string \<Rightarrow> bool" where
  "proper_path p \<longleftrightarrow> list_all proper_elem (Split p (CHR ''/''))"

lemma dots_not_proper: "\<not> proper_elem ''..''"
  by (simp add: proper_elem_def)

definition clean_shape :: "bool \<Rightarrow> string list \<Rightarrow> bool" where
  "clean_shape rooted xs \<longleftrightarrow>
     (\<exists>k qs. xs = replicate k ''..'' @ qs \<and> list_all proper_elem qs \<and> (rooted \<longrightarrow> k = 0))"

lemma clean_shape_pop:
  assumes "clean_shape rooted (xs @ [a])"
  shows "clean_shape rooted xs" and "a = ''..'' \<Longrightarrow> clean_shape rooted (xs @ [a, ''..''])"
proof -
  obtain k qs where s: "xs @ [a] = replicate k ''..'' @ qs" "list_all proper_elem qs" "rooted \<longrightarrow> k = 0"
    using assms by (auto simp: clean_shape_def)
  have "\<exists>k'. xs = replicate k' ''..'' \<and> (rooted \<longrightarrow> k' = 0) \<and> a = ''..'' \<and> k = Suc k'" if "qs = []"
    using s that by (cases k) (auto simp: replicate_append_same [symmetric])
  moreover have "\<exists>qs'. xs = replicate k ''..'' @ qs' \<and> list_all proper_elem qs' \<and> a \<noteq> ''..''" if "qs \<noteq> []"
    using s that dots_not_proper by (cases qs rule: rev_cases) auto
  ultimately consider k' where "xs = replicate k' ''..''" "rooted \<longrightarrow> k' = 0" "a = ''..''" "k = Suc k'"
    | qs' where "xs = replicate k ''..'' @ qs'" "list_all proper_elem qs'" "a \<noteq> ''..''"
    by blast
  then show "clean_shape rooted xs"
  proof cases
    case 1
    then show ?thesis unfolding clean_shape_def by (intro exI [of _ k'] exI [of _ "[]"]) simp
  next
    case 2
    with s(3) show ?thesis unfolding clean_shape_def by blast
  qed
  assume a: "a = ''..''"
  then have "qs = []" using s dots_not_proper by (cases qs rule: rev_cases) auto
  with s a have "xs @ [a, ''..''] = replicate (Suc k) ''..'' @ []"
    by (metis append_Cons append_Nil append_Nil2 append_assoc replicate_Suc replicate_append_same)
  moreover from s a \<open>qs = []\<close> have "\<not> rooted" by (cases k) auto
  ultimately show "clean_shape rooted (xs @ [a, ''..''])"
    unfolding clean_shape_def by (intro exI [of _ "Suc k"] exI [of _ "[]"]) simp
qed

lemma clean_elems_shape:
  "list_all (\<lambda>e. CHR ''/'' \<notin> set e) es \<Longrightarrow> clean_shape rooted (rev acc) \<Longrightarrow>
     clean_shape rooted (clean_elems rooted acc es)"
proof (induction rooted acc es rule: clean_elems.induct)
  case (1 rooted acc)
  then show ?case by simp
next
  case (2 rooted acc e es)
  consider "e = '''' \<or> e = ''.''" | "e = ''..''" "acc = []"
    | a acc' where "e = ''..''" "acc = a # acc'" | "e \<noteq> ''''" "e \<noteq> ''.''" "e \<noteq> ''..''"
    by (cases acc) auto
  then show ?case
  proof cases
    case 1
    with 2 show ?thesis by simp
  next
    case c: 2
    have "clean_shape rooted (rev (if rooted then [] else [''..'']))"
      by (auto simp: clean_shape_def intro: exI [of _ 0] exI [of _ 1])
    with 2 c show ?thesis by simp
  next
    case 3
    with "2.prems" have "clean_shape rooted (rev acc' @ [a])" by simp
    note pop = clean_shape_pop [OF this]
    show ?thesis
    proof (cases "a = ''..''")
      case True
      with 2 3 pop(2) show ?thesis by simp
    next
      case False
      with 2 3 pop(1) show ?thesis by simp
    qed
  next
    case c: 4
    with 2 have "proper_elem e" by (simp add: proper_elem_def)
    moreover obtain k qs where "rev acc = replicate k ''..'' @ qs" "list_all proper_elem qs" "rooted \<longrightarrow> k = 0"
      using "2.prems"(2) by (auto simp: clean_shape_def)
    ultimately have "clean_shape rooted (rev acc @ [e])"
      unfolding clean_shape_def by (intro exI [of _ k] exI [of _ "qs @ [e]"]) simp
    with 2 c show ?thesis by simp
  qed
qed

lemma Join_dots_prefix:
  "Join (''..'' # xs) ''/'' = ''..'' \<or> HasPrefix (Join (''..'' # xs) ''/'') ''../''"
  by (cases xs) (auto simp: HasPrefix_def)

lemma path_Clean_proper:
  assumes "path_Clean p \<noteq> ''.''" and "path_Clean p \<noteq> ''..''"
    and "\<not> HasPrefix (path_Clean p) ''../''" and "\<not> HasPrefix (path_Clean p) ''/''"
  shows "proper_path (path_Clean p)"
proof -
  let ?es = "clean_elems (HasPrefix p ''/'') [] (Split p (CHR ''/''))"
  have rel: "\<not> HasPrefix p ''/''"
    using assms(4) by (auto simp: path_Clean_def Let_def HasPrefix_def)
  with assms(1) have eq: "path_Clean p = Join ?es ''/''" and ne: "?es \<noteq> []"
    by (auto simp: path_Clean_def Let_def split: if_splits)
  have "clean_shape (HasPrefix p ''/'') ?es"
    by (rule clean_elems_shape) (auto simp: list_all_iff Split_parts clean_shape_def)
  then obtain k qs where s: "?es = replicate k ''..'' @ qs" "list_all proper_elem qs"
    by (auto simp: clean_shape_def)
  have "k = 0"
  proof (rule ccontr)
    assume "k \<noteq> 0"
    then obtain xs where "?es = ''..'' # xs" using s(1) by (cases k) auto
    then show False using Join_dots_prefix [of xs] assms(2,3) eq by auto
  qed
  with s ne have "Split (Join ?es ''/'') (CHR ''/'') = ?es"
    by (intro Split_Join) (auto simp: list_all_iff proper_elem_def)
  with s \<open>k = 0\<close> eq show ?thesis by (simp add: proper_path_def)
qed

lemma proper_path_sep:
  "CHR ''/'' \<notin> set w \<Longrightarrow> proper_path (w @ CHR ''/'' # s) \<longleftrightarrow> proper_elem w \<and> proper_path s"
  by (simp add: proper_path_def Split_sep)

subsection \<open>What the steps of \<open>archiveKeys\<close> compute\<close>

definition cleaned_name :: "(string \<Rightarrow> string) \<Rightarrow> zip_file \<Rightarrow> string" where
  "cleaned_name NFC f = path_Clean (NFC (Name f))"

definition entry_of :: "(string \<Rightarrow> string) \<Rightarrow> zip_file \<Rightarrow> archiveFile" where
  "entry_of NFC f = \<lparr>af_name = cleaned_name NFC f, af_original = Name f, af_file = f\<rparr>"

definition well_named :: "(string \<Rightarrow> string) \<Rightarrow> zip_file \<Rightarrow> bool" where
  "well_named NFC f \<longleftrightarrow>
     Name f \<noteq> '''' \<and> \<not> HasPrefix (Name f) ''/'' \<and> cleaned_name NFC f \<noteq> ''.'' \<and>
     cleaned_name NFC f \<noteq> ''..'' \<and> \<not> HasPrefix (cleaned_name NFC f) ''../'' \<and>
     \<not> HasPrefix (cleaned_name NFC f) ''/''"

definition candidate_file :: "(string \<Rightarrow> string) \<Rightarrow> zip_file \<Rightarrow> bool" where
  "candidate_file NFC f \<longleftrightarrow> \<not> IsDir f \<and> \<not> isArchiveJunk (cleaned_name NFC f)"

lemma entry_of_sel [simp]:
  "af_name (entry_of NFC f) = cleaned_name NFC f" "af_file (entry_of NFC f) = f"
  "af_original (entry_of NFC f) = Name f"
  by (simp_all add: entry_of_def)

lemma well_named_proper: "well_named NFC f \<Longrightarrow> proper_path (cleaned_name NFC f)"
  unfolding well_named_def cleaned_name_def by (rule path_Clean_proper) auto

lemma dir_suffix: "IsDir f \<or> HasSuffix (Name f) ''/'' \<longleftrightarrow> IsDir f"
  by (auto simp: IsDir_def)

lemma validate_loop_step:
  "IsDir f \<Longrightarrow> validate_loop NFC (f # fs) = validate_loop NFC fs"
  "\<not> IsDir f \<Longrightarrow> \<not> well_named NFC f \<Longrightarrow> \<exists>e. validate_loop NFC (f # fs) = Inl e"
  "\<not> IsDir f \<Longrightarrow> well_named NFC f \<Longrightarrow> \<not> candidate_file NFC f \<Longrightarrow>
     validate_loop NFC (f # fs) = validate_loop NFC fs"
  "well_named NFC f \<Longrightarrow> candidate_file NFC f \<Longrightarrow> validate_loop NFC (f # fs) =
     (case validate_loop NFC fs of Inl e \<Rightarrow> Inl e | Inr es \<Rightarrow> Inr (entry_of NFC f # es))"
  unfolding validate_loop.simps(2) Let_def dir_suffix well_named_def candidate_file_def entry_of_def
    cleaned_name_def
  by (auto split: if_splits)

lemma validate_loop_Inr:
  "validate_loop NFC files = Inr es \<longleftrightarrow>
     (\<forall>f\<in>set files. \<not> IsDir f \<longrightarrow> well_named NFC f) \<and>
     es = map (entry_of NFC) (filter (candidate_file NFC) files)"
proof (induction files arbitrary: es)
  case (Cons f fs)
  consider "IsDir f" | "\<not> IsDir f" "\<not> well_named NFC f"
    | "\<not> IsDir f" "well_named NFC f" "\<not> candidate_file NFC f"
    | "\<not> IsDir f" "well_named NFC f" "candidate_file NFC f" by blast
  then show ?case
  proof cases
    case 1
    then show ?thesis using Cons by (simp add: validate_loop_step(1) candidate_file_def)
  next
    case 2
    then show ?thesis using validate_loop_step(2) [of f NFC fs] by fastforce
  next
    case 3
    then show ?thesis using Cons by (simp add: validate_loop_step(3) del: validate_loop.simps)
  next
    case 4
    then show ?thesis
      using Cons [of "tl es"] Cons [of "map (entry_of NFC) (filter (candidate_file NFC) fs)"]
      by (cases "validate_loop NFC fs")
        (auto simp: validate_loop_step(4) simp del: validate_loop.simps)
  qed
qed auto

lemma validate_loop_Inl: "validate_loop NFC files = Inl e \<Longrightarrow> Kind e = BadRequest"
  by (induction files) (auto simp: Let_def split: if_splits sum.splits)

lemma top_folder_loop_found:
  "top_folder_loop c first es = (w, True) \<Longrightarrow> (first \<longrightarrow> es \<noteq> []) \<Longrightarrow>
     (\<not> first \<longrightarrow> w = c) \<and> (\<forall>e\<in>set es. \<exists>s. af_name e = w @ CHR ''/'' # s \<and> CHR ''/'' \<notin> set w)"
proof (induction c first es rule: top_folder_loop.induct)
  case (2 c first e es)
  obtain root s found where cut: "Cut (af_name e) (CHR ''/'') = (root, s, found)"
    by (cases "Cut (af_name e) (CHR ''/'')") auto
  with "2.prems" have found by (cases found) auto
  with cut have e: "af_name e = root @ CHR ''/'' # s" "CHR ''/'' \<notin> set root"
    by (simp_all add: Cut_True)
  have rec: "top_folder_loop root False es = (w, True)" "\<not> first \<longrightarrow> root = c"
    using "2.prems" cut \<open>found\<close> by (auto split: if_splits)
  then have "w = root \<and> (\<forall>e\<in>set es. \<exists>s. af_name e = w @ CHR ''/'' # s \<and> CHR ''/'' \<notin> set w)"
    using 2 cut \<open>found\<close> by (cases first) auto
  with e rec show ?case by auto
qed simp

lemma singleTopLevelFolder_found:
  assumes "singleTopLevelFolder entries = (w, True)"
  shows "entries \<noteq> []" and "e \<in> set entries \<Longrightarrow> \<exists>s. af_name e = w @ CHR ''/'' # s \<and> CHR ''/'' \<notin> set w"
  using assms top_folder_loop_found [of "''''" True entries w]
  by (auto simp: singleTopLevelFolder_def split: if_splits)

definition relative_path :: "archiveFile list \<Rightarrow> archiveFile \<Rightarrow> string" where
  "relative_path entries e =
     (case singleTopLevelFolder entries of (wrapper, strip) \<Rightarrow>
        if strip then TrimPrefix (af_name e) (wrapper @ ''/'') else af_name e)"

lemma relative_path_proper:
  assumes "e \<in> set entries" and "proper_path (af_name e)"
  shows "proper_path (relative_path entries e)"
proof (cases "singleTopLevelFolder entries")
  case (Pair w strip)
  show ?thesis
  proof (cases strip)
    case True
    with Pair obtain s where s: "af_name e = w @ CHR ''/'' # s" "CHR ''/'' \<notin> set w"
      using singleTopLevelFolder_found(2) [of entries w e] assms(1) by auto
    have "TrimPrefix (w @ CHR ''/'' # s) (w @ ''/'') = s"
      using TrimPrefix_append [of "w @ ''/''" s] by simp
    with s assms(2) Pair True show ?thesis
      by (simp add: relative_path_def proper_path_sep)
  qed (use assms Pair in \<open>simp add: relative_path_def\<close>)
qed

lemma object_loop_Inr:
  "object_loop strip w pfx m es = Inr objs \<longleftrightarrow>
     (let k = (\<lambda>e. pfx @ (if strip then TrimPrefix (af_name e) (w @ ''/'') else af_name e))
      in distinct (map k es) \<and> (\<forall>e\<in>set es. m (k e) = None) \<and>
         objs = map (\<lambda>e. \<lparr>ao_key = k e, ao_file = af_file e\<rparr>) es)"
proof (induction es arbitrary: m objs)
  case (Cons e es)
  define k where "k = (\<lambda>e :: archiveFile. pfx @ (if strip then TrimPrefix (af_name e) (w @ ''/'') else af_name e))"
  define X where "X = map (\<lambda>e. \<lparr>ao_key = k e, ao_file = af_file e\<rparr>) es"
  define m' where "m' = m(k e \<mapsto> af_original e)"
  have m': "m' x = None \<longleftrightarrow> x \<noteq> k e \<and> m x = None" for x by (simp add: m'_def)
  let ?rest = "object_loop strip w pfx m' es"
  let ?free = "distinct (map k es) \<and> (\<forall>e'\<in>set es. k e' \<noteq> k e \<and> m (k e') = None)"
  have step: "object_loop strip w pfx m (e # es) =
    (case m (k e) of
       Some previous \<Rightarrow> Inl (NewBusinessError BadRequest (DuplicateKey previous (af_original e) (k e)))
     | None \<Rightarrow> (case ?rest of
          Inl err \<Rightarrow> Inl err
        | Inr objects \<Rightarrow> Inr (\<lparr>ao_key = k e, ao_file = af_file e\<rparr> # objects)))"
    unfolding m'_def k_def object_loop.simps Let_def by simp
  have IH: "?rest = Inr objs' \<longleftrightarrow> ?free \<and> objs' = X" for objs'
    using Cons.IH [of m' objs'] unfolding Let_def k_def [symmetric] X_def [symmetric] m' by simp
  have goal: "object_loop strip w pfx m (e # es) = Inr objs \<longleftrightarrow>
      ?free \<and> m (k e) = None \<and> objs = \<lparr>ao_key = k e, ao_file = af_file e\<rparr> # X"
    unfolding step using IH by (cases "m (k e)"; cases ?rest) (simp_all, blast+)
  show ?case
    unfolding goal Let_def k_def [symmetric] X_def by (simp add: image_iff, metis)
qed auto

lemma objectKeys_Inr:
  "objectKeys entries folder = Inr objs \<longleftrightarrow>
     distinct (map (relative_path entries) entries) \<and>
     objs = map (\<lambda>e. \<lparr>ao_key = folder @ ''/'' @ relative_path entries e, ao_file = af_file e\<rparr>) entries"
proof -
  have "distinct (map (\<lambda>e. (folder @ ''/'') @ relative_path entries e) entries) \<longleftrightarrow>
      distinct (map (relative_path entries) entries)"
    by (simp add: distinct_map inj_on_def)
  then show ?thesis
    by (cases "singleTopLevelFolder entries")
      (auto simp: objectKeys_def object_loop_Inr relative_path_def)
qed

lemma object_loop_Inl: "object_loop strip w pfx m es = Inl e \<Longrightarrow> Kind e = BadRequest"
  by (induction es arbitrary: m) (auto simp: Let_def split: if_splits sum.splits option.splits)

lemma applyIgnoreFile_Inr:
  assumes "applyIgnoreFile gi entries = Inr kept"
  obtains P where "kept = filter P entries"
    and "\<And>sel. findIgnoreFile entries = Some sel \<Longrightarrow> e \<in> set entries \<Longrightarrow> P e \<Longrightarrow>
      af_name e \<noteq> af_name (ai_file sel)"
    and "entries \<noteq> [] \<Longrightarrow> kept \<noteq> []"
proof (cases "findIgnoreFile entries")
  case None
  with assms that [of "\<lambda>_. True"] show thesis by (simp add: applyIgnoreFile_def)
next
  case (Some sel)
  then show thesis
    using assms by (auto simp: applyIgnoreFile_def Let_def split: sum.splits if_splits intro!: that)
qed

lemma validatedEntries_Inr:
  "validatedEntries NFC files = Inr es \<longleftrightarrow>
     (\<forall>f\<in>set files. \<not> IsDir f \<longrightarrow> well_named NFC f) \<and>
     es = map (entry_of NFC) (filter (candidate_file NFC) files) \<and> es \<noteq> []"
  using validate_loop_Inr [of NFC files] unfolding validatedEntries_def
  by (cases "validate_loop NFC files") auto

text \<open>What the steps of \<open>archiveKeys\<close> keep, in archive order, in terms of its own functions; the rules
  themselves are stated further down.\<close>

definition ignored_file ::
  "(string \<Rightarrow> string) \<Rightarrow> (string list \<Rightarrow> string \<Rightarrow> bool) \<Rightarrow> zip_file list \<Rightarrow> zip_file \<Rightarrow> bool" where
  "ignored_file NFC gi files f =
     (case findIgnoreFile (map (entry_of NFC) (filter (candidate_file NFC) files)) of
        None \<Rightarrow> False
      | Some sel \<Rightarrow> cleaned_name NFC f = af_name (ai_file sel) \<or>
          (case readIgnorePatterns (ai_file sel) of
             Inl _ \<Rightarrow> False
           | Inr patterns \<Rightarrow> gi patterns (TrimPrefix (cleaned_name NFC f) (matchPrefix sel))))"

definition published_files ::
  "(string \<Rightarrow> string) \<Rightarrow> (string list \<Rightarrow> string \<Rightarrow> bool) \<Rightarrow> zip_file list \<Rightarrow> zip_file list" where
  "published_files NFC gi files =
     filter (\<lambda>f. candidate_file NFC f \<and> \<not> ignored_file NFC gi files f) files"

lemma archiveKeys_Inr:
  assumes "archiveKeys NFC gi files folder = Inr objs"
  shows "\<forall>f\<in>set files. \<not> IsDir f \<longrightarrow> well_named NFC f"
    and "objectKeys (map (entry_of NFC) (published_files NFC gi files)) folder = Inr objs"
    and "published_files NFC gi files \<noteq> []"
proof -
  let ?v = "map (entry_of NFC) (filter (candidate_file NFC) files)"
  obtain es where es: "validatedEntries NFC files = Inr es"
    using assms by (auto simp: archiveKeys_def split: sum.splits)
  then have "es = ?v" by (simp add: validatedEntries_Inr)
  with es assms obtain kept where v: "validatedEntries NFC files = Inr ?v"
    "applyIgnoreFile gi ?v = Inr kept" "objectKeys kept folder = Inr objs"
    by (auto simp: archiveKeys_def split: sum.splits)
  from v(1) show "\<forall>f\<in>set files. \<not> IsDir f \<longrightarrow> well_named NFC f" by (simp add: validatedEntries_Inr)
  have "kept = map (entry_of NFC) (published_files NFC gi files) \<and> kept \<noteq> []"
  proof (cases "findIgnoreFile ?v")
    case None
    with v show ?thesis
      by (auto simp: applyIgnoreFile_def published_files_def ignored_file_def validatedEntries_Inr
          cong: conj_cong)
  next
    case (Some sel)
    with v show ?thesis
      by (auto simp: applyIgnoreFile_def published_files_def ignored_file_def Let_def filter_map comp_def
          split: sum.splits if_splits intro!: arg_cong [where f = "map (entry_of NFC)"] filter_cong)
  qed
  with v(3) show "objectKeys (map (entry_of NFC) (published_files NFC gi files)) folder = Inr objs"
    and "published_files NFC gi files \<noteq> []" by auto
qed

lemma archiveKeys_objects:
  assumes "archiveKeys NFC gi files folder = Inr objs"
  defines "rel \<equiv> relative_path (map (entry_of NFC) (published_files NFC gi files)) \<circ> entry_of NFC"
  shows "objs = map (\<lambda>f. \<lparr>ao_key = folder @ ''/'' @ rel f, ao_file = f\<rparr>) (published_files NFC gi files)"
    and "distinct (map rel (published_files NFC gi files))"
    and "f \<in> set (published_files NFC gi files) \<Longrightarrow> proper_path (rel f)"
proof -
  note a = archiveKeys_Inr [OF assms(1)]
  from a(2) show "objs = map (\<lambda>f. \<lparr>ao_key = folder @ ''/'' @ rel f, ao_file = f\<rparr>) (published_files NFC gi files)"
    and "distinct (map rel (published_files NFC gi files))"
    by (simp_all add: objectKeys_Inr rel_def comp_def)
  assume f: "f \<in> set (published_files NFC gi files)"
  then have "well_named NFC f" using a(1) by (simp add: published_files_def candidate_file_def)
  then have "proper_path (af_name (entry_of NFC f))" by (simp add: well_named_proper)
  with f show "proper_path (rel f)"
    unfolding rel_def comp_def by (intro relative_path_proper) simp_all
qed

subsection \<open>Properties of the key mapping\<close>

text \<open>C3: An accepted archive stays inside its package: every object key is the package folder,
  a slash and a path without empty, dot or dot-dot elements; no two objects share a key; every
  object is one of the archive's files and never a directory.\<close>

theorem archiveKeys_confined:
  assumes "archiveKeys NFC gi files folder = Inr objs"
  shows "distinct (map ao_key objs) \<and>
    (\<forall>obj\<in>set objs. (\<exists>rel. ao_key obj = folder @ ''/'' @ rel \<and> proper_path rel) \<and>
       ao_file obj \<in> set files \<and> \<not> IsDir (ao_file obj))"
proof -
  note o = archiveKeys_objects [OF assms]
  have "distinct (map ao_key objs)"
    using o(2) unfolding o(1) by (auto simp: distinct_map inj_on_def)
  moreover have "f \<in> set files \<and> \<not> IsDir f" if "f \<in> set (published_files NFC gi files)" for f
    using that by (simp add: published_files_def candidate_file_def)
  ultimately show ?thesis unfolding o(1) using o(3) by auto
qed

theorem archiveKeys_confined_witness:
  "\<exists>objs. archiveKeys (\<lambda>s. s) (\<lambda>_ _. False)
     [\<lparr>Name = ''d/'', UncompressedSize64 = 0, ModeDir = True, Open = Inl ReadingZip\<rparr>,
      \<lparr>Name = ''d/a.js'', UncompressedSize64 = 1, ModeDir = False, Open = Inr \<lparr>rd_data = ''x'', rd_err = None\<rparr>\<rparr>,
      \<lparr>Name = ''d/x/../b.js'', UncompressedSize64 = 1, ModeDir = False, Open = Inr \<lparr>rd_data = ''y'', rd_err = None\<rparr>\<rparr>]
     ''p@1.0.0'' = Inr objs \<and> map ao_key objs = [''p@1.0.0/a.js'', ''p@1.0.0/b.js''] \<and> distinct (map ao_key objs)"
proof -
  let ?files = "[\<lparr>Name = ''d/'', UncompressedSize64 = 0, ModeDir = True, Open = Inl ReadingZip\<rparr>,
      \<lparr>Name = ''d/a.js'', UncompressedSize64 = 1, ModeDir = False, Open = Inr \<lparr>rd_data = ''x'', rd_err = None\<rparr>\<rparr>,
      \<lparr>Name = ''d/x/../b.js'', UncompressedSize64 = 1, ModeDir = False, Open = Inr \<lparr>rd_data = ''y'', rd_err = None\<rparr>\<rparr>]"
  let ?objs = "[\<lparr>ao_key = ''p@1.0.0/a.js'', ao_file = ?files ! 1\<rparr>, \<lparr>ao_key = ''p@1.0.0/b.js'', ao_file = ?files ! 2\<rparr>]"
  have r: "archiveKeys (\<lambda>s. s) (\<lambda>_ _. False) ?files ''p@1.0.0'' = Inr ?objs"
    by code_simp
  show ?thesis using archiveKeys_confined [OF r] r by (intro exI [of _ ?objs]) simp
qed

text \<open>An archive is rejected whole, with a bad-request error and before anything is read or
  stored, as soon as one of its file entries is empty, absolute or escapes the package.\<close>

lemma archiveKeys_rejects_escape:
  assumes "f \<in> set files" and "\<not> IsDir f" and "\<not> well_named NFC f"
  shows "\<exists>e. archiveKeys NFC gi files folder = Inl e \<and> Kind e = BadRequest"
proof -
  have "validate_loop NFC files \<noteq> Inr es" for es
    using assms by (auto simp: validate_loop_Inr)
  then obtain e where "validate_loop NFC files = Inl e" by (cases "validate_loop NFC files") auto
  then show ?thesis
    using validate_loop_Inl by (auto simp: archiveKeys_def validatedEntries_def)
qed

subsection \<open>What an archive publishes\<close>

text \<open>
  The rules of the documentation, stated on path names. A name is a list of elements between
  slashes; macOS metadata is what lies below \<open>__MACOSX\<close> or is called \<open>.DS_Store\<close>.
\<close>

definition mac_metadata :: "string \<Rightarrow> bool" where
  "mac_metadata n \<longleftrightarrow> hd (Split n (CHR ''/'')) = ''__MACOSX'' \<or> last (Split n (CHR ''/'')) = ''.DS_Store''"

text \<open>The folder that all names of a list lie in.\<close>

definition common_folder :: "string list \<Rightarrow> string \<Rightarrow> bool" where
  "common_folder ns w \<longleftrightarrow> ns \<noteq> [] \<and> CHR ''/'' \<notin> set w \<and> (\<forall>n \<in> set ns. prefix (w @ ''/'') n)"

text \<open>Where an ignore file counts: at the root, or else in the common folder, and then its patterns are
  relative to that folder.\<close>

definition ignore_place :: "string list \<Rightarrow> string \<Rightarrow> string \<Rightarrow> bool" where
  "ignore_place ns n base \<longleftrightarrow> n \<in> set ns \<and>
     (n = ''.gimmeignore'' \<and> base = '''' \<or>
      ''.gimmeignore'' \<notin> set ns \<and> (\<exists>w. common_folder ns w \<and> base = w @ ''/'' \<and> n = base @ ''.gimmeignore''))"

text \<open>A file is excluded when it is the ignore file or its path below the place of the ignore file is
  matched by the lines of the (first) ignore file.\<close>

definition excluded :: "(string \<Rightarrow> string) \<Rightarrow> (string list \<Rightarrow> string \<Rightarrow> bool) \<Rightarrow> zip_file list \<Rightarrow> zip_file \<Rightarrow> bool" where
  "excluded NFC gi files f \<longleftrightarrow>
     (let candidates = filter (\<lambda>g. \<not> IsDir g \<and> \<not> mac_metadata (cleaned_name NFC g)) files
      in \<exists>n base. ignore_place (map (cleaned_name NFC) candidates) n base \<and>
        (cleaned_name NFC f = n \<or>
         (\<exists>g text rel. find (\<lambda>g. cleaned_name NFC g = n) candidates = Some g \<and> Open g = Inr \<lparr>rd_data = text, rd_err = None\<rparr> \<and>
            cleaned_name NFC f = base @ rel \<and> gi (Split text (CHR 10)) rel)))"

lemma Split_snoc: "Split (s @ [c]) c = Split s c @ ['''']"
  by (induction s) (auto split: list.splits)

lemma proper_junk:
  assumes "proper_path n"
  shows "isArchiveJunk n \<longleftrightarrow> mac_metadata n"
proof -
  have "last (Split n (CHR ''/'')) \<in> set (Split n (CHR ''/''))" by simp
  then have ne: "last (Split n (CHR ''/'')) \<noteq> ''''"
    using assms by (auto simp: proper_path_def list_all_iff proper_elem_def)
  have "n \<noteq> ''''" using ne by auto
  then obtain m x where n: "n = m @ [x]" by (cases n rule: rev_cases) simp_all
  have "x \<noteq> CHR ''/''" using ne Split_snoc [of m "CHR ''/''"] unfolding n by auto
  then have "TrimRight n (CHR ''/'') = n" by (simp add: n TrimRight_def)
  with \<open>n \<noteq> ''''\<close> have "path_Base n = last (Split n (CHR ''/''))" by (simp add: path_Base_def)
  then show ?thesis
    by (cases "Cut n (CHR ''/'')") (auto simp: isArchiveJunk_def mac_metadata_def hd_Split Cut_def split: if_splits)
qed

lemma prefix_sep_Cut: "CHR ''/'' \<notin> set w \<Longrightarrow> prefix (w @ ''/'') n \<Longrightarrow> \<exists>s. Cut n (CHR ''/'') = (w, s, True)"
  by (auto simp: prefix_def Cut_found)

lemma top_folder_loop_common:
  "CHR ''/'' \<notin> set w \<Longrightarrow> (\<forall>e \<in> set es. prefix (w @ ''/'') (af_name e)) \<Longrightarrow> top_folder_loop w False es = (w, True)"
proof (induction es)
  case (Cons e es)
  then obtain s where "Cut (af_name e) (CHR ''/'') = (w, s, True)" using prefix_sep_Cut by fastforce
  with Cons show ?case by simp
qed simp

lemma singleTopLevelFolder_common: "singleTopLevelFolder es = (w, True) \<longleftrightarrow> common_folder (map af_name es) w"
proof
  assume found: "singleTopLevelFolder es = (w, True)"
  note f = singleTopLevelFolder_found [OF found]
  from f(1) obtain e where "e \<in> set es" by (cases es) auto
  with f(2) [of e] have "CHR ''/'' \<notin> set w" by blast
  moreover have "prefix (w @ ''/'') (af_name e)" if "e \<in> set es" for e using f(2) [OF that] by (auto simp: prefix_def)
  ultimately show "common_folder (map af_name es) w" using f(1) by (simp add: common_folder_def)
next
  assume c: "common_folder (map af_name es) w"
  then obtain e es' where es: "es = e # es'" by (cases es) (auto simp: common_folder_def)
  with c obtain s where "Cut (af_name e) (CHR ''/'') = (w, s, True)"
    using prefix_sep_Cut by (fastforce simp: common_folder_def)
  with c es show "singleTopLevelFolder es = (w, True)"
    by (simp add: singleTopLevelFolder_def common_folder_def top_folder_loop_common)
qed

lemma singleTopLevelFolder_none: "snd (singleTopLevelFolder es) \<longleftrightarrow> (\<exists>w. common_folder (map af_name es) w)"
  using singleTopLevelFolder_common [of es] by (cases "singleTopLevelFolder es") auto

lemma findIgnoreFile_place:
  assumes "findIgnoreFile es = Some sel"
  shows "ignore_place (map af_name es) (af_name (ai_file sel)) (matchPrefix sel)"
    and "find (\<lambda>e. af_name e = af_name (ai_file sel)) es = Some (ai_file sel)"
proof -
  have root: "find (\<lambda>e. af_name e = gimmeIgnoreName) es = None \<longleftrightarrow> ''.gimmeignore'' \<notin> set (map af_name es)"
    unfolding find_None_iff gimmeIgnoreName_def set_map image_iff by metis
  have found: "af_name e = n \<and> n \<in> af_name ` set es" if "find (\<lambda>e. af_name e = n) es = Some e" for e n
    using that by (auto simp: find_Some_iff)
  show "ignore_place (map af_name es) (af_name (ai_file sel)) (matchPrefix sel)"
    and "find (\<lambda>e. af_name e = af_name (ai_file sel)) es = Some (ai_file sel)"
  proof (atomize (full), cases "find (\<lambda>e. af_name e = gimmeIgnoreName) es")
    case (Some e)
    with assms have "sel = \<lparr>ai_file = e, matchPrefix = ''''\<rparr>" by (simp add: findIgnoreFile_def)
    then show "ignore_place (map af_name es) (af_name (ai_file sel)) (matchPrefix sel) \<and>
        find (\<lambda>e. af_name e = af_name (ai_file sel)) es = Some (ai_file sel)"
      using found [OF Some] Some by (auto simp: ignore_place_def gimmeIgnoreName_def)
  next
    case None
    with assms obtain w e where w: "singleTopLevelFolder es = (w, True)"
      and e: "find (\<lambda>e. af_name e = w @ ''/'' @ gimmeIgnoreName) es = Some e" "sel = \<lparr>ai_file = e, matchPrefix = w @ ''/''\<rparr>"
      by (auto simp: findIgnoreFile_def split: prod.splits option.splits if_split_asm)
    with None root found [OF e(1)] singleTopLevelFolder_common [of es w]
    show "ignore_place (map af_name es) (af_name (ai_file sel)) (matchPrefix sel) \<and>
        find (\<lambda>e. af_name e = af_name (ai_file sel)) es = Some (ai_file sel)"
      by (auto simp: ignore_place_def gimmeIgnoreName_def)
  qed
qed

lemma common_folder_unique: "common_folder ns w \<Longrightarrow> common_folder ns w' \<Longrightarrow> w = w'"
proof -
  assume "common_folder ns w" "common_folder ns w'"
  then obtain n where "prefix (w @ ''/'') n" "prefix (w' @ ''/'') n" "CHR ''/'' \<notin> set w" "CHR ''/'' \<notin> set w'"
    by (cases ns) (auto simp: common_folder_def)
  then obtain s s' where "Cut n (CHR ''/'') = (w, s, True)" "Cut n (CHR ''/'') = (w', s', True)" using prefix_sep_Cut by meson
  then show "w = w'" by simp
qed

lemma ignore_place_unique: "ignore_place ns n base \<Longrightarrow> ignore_place ns n' base' \<Longrightarrow> n = n' \<and> base = base'"
  using common_folder_unique by (fastforce simp: ignore_place_def)

lemma findIgnoreFile_none:
  assumes "findIgnoreFile es = None"
  shows "\<not> ignore_place (map af_name es) n base"
proof
  assume p: "ignore_place (map af_name es) n base"
  have root: "''.gimmeignore'' \<notin> set (map af_name es)"
    using assms by (auto simp: findIgnoreFile_def find_None_iff gimmeIgnoreName_def split: option.splits)
  with p obtain w where w: "common_folder (map af_name es) w" "(w @ ''/'') @ ''.gimmeignore'' \<in> set (map af_name es)"
    unfolding ignore_place_def by blast
  then have "singleTopLevelFolder es = (w, True)" by (simp add: singleTopLevelFolder_common)
  with assms have "find (\<lambda>e. af_name e = w @ ''/'' @ gimmeIgnoreName) es = None"
    by (auto simp: findIgnoreFile_def split: option.splits)
  with w(2) show False by (auto simp: find_None_iff gimmeIgnoreName_def)
qed

lemma ignore_place_base: "ignore_place ns n base \<Longrightarrow> m \<in> set ns \<Longrightarrow> prefix base m"
  by (auto simp: ignore_place_def common_folder_def)

lemma readIgnorePatterns_Inr:
  "readIgnorePatterns f = Inr patterns \<longleftrightarrow>
     (\<exists>text. Open (af_file f) = Inr \<lparr>rd_data = text, rd_err = None\<rparr> \<and> patterns = Split text (CHR 10))"
proof (cases "Open (af_file f)")
  case (Inr r)
  then show ?thesis by (cases r) (auto simp: readIgnorePatterns_def ReadAll_def split: option.splits)
qed (simp add: readIgnorePatterns_def)

lemma candidates_eq:
  assumes "\<forall>f \<in> set files. \<not> IsDir f \<longrightarrow> well_named NFC f"
  shows "filter (candidate_file NFC) files = filter (\<lambda>g. \<not> IsDir g \<and> \<not> mac_metadata (cleaned_name NFC g)) files"
  using assms proper_junk well_named_proper by (intro filter_cong) (auto simp: candidate_file_def)

lemma find_map_entry: "find (\<lambda>e. af_name e = n) (map (entry_of NFC) fs) = map_option (entry_of NFC) (find (\<lambda>g. cleaned_name NFC g = n) fs)"
  by (induction fs) simp_all

lemma ignored_excluded:
  assumes "\<forall>f \<in> set files. \<not> IsDir f \<longrightarrow> well_named NFC f" and "f \<in> set files" and "candidate_file NFC f"
  shows "ignored_file NFC gi files f \<longleftrightarrow> excluded NFC gi files f"
proof -
  let ?cs = "filter (candidate_file NFC) files"
  let ?es = "map (entry_of NFC) ?cs"
  have names: "map af_name ?es = map (cleaned_name NFC) ?cs" by (simp add: comp_def)
  note cs = candidates_eq [OF assms(1)]
  show ?thesis
  proof (cases "findIgnoreFile ?es")
    case None
    have "\<not> ignore_place (map (cleaned_name NFC) ?cs) n base" for n base
      using findIgnoreFile_none [OF None] unfolding names .
    with None show ?thesis unfolding excluded_def ignored_file_def cs [symmetric] Let_def by auto
  next
    case (Some sel)
    note place = findIgnoreFile_place [OF Some, unfolded names]
    let ?n = "af_name (ai_file sel)" and ?base = "matchPrefix sel"
    have only: "ignore_place (map (cleaned_name NFC) ?cs) n base \<longleftrightarrow> n = ?n \<and> base = ?base" for n base
      using place(1) ignore_place_unique by blast
    from place(2) obtain g where g: "find (\<lambda>g. cleaned_name NFC g = ?n) ?cs = Some g" "entry_of NFC g = ai_file sel"
      unfolding find_map_entry map_option_eq_Some by blast
    have "cleaned_name NFC f \<in> set (map (cleaned_name NFC) ?cs)" using assms(2,3) by auto
    then obtain rel where rel: "cleaned_name NFC f = ?base @ rel" using ignore_place_base [OF place(1)] by (auto simp: prefix_def)
    have r: "readIgnorePatterns (ai_file sel) = Inr patterns \<longleftrightarrow>
        (\<exists>text. Open g = Inr \<lparr>rd_data = text, rd_err = None\<rparr> \<and> patterns = Split text (CHR 10))" for patterns
      using readIgnorePatterns_Inr [of "ai_file sel"] by (simp add: g(2) [symmetric])
    have "ignored_file NFC gi files f \<longleftrightarrow> cleaned_name NFC f = ?n \<or>
        (\<exists>patterns. readIgnorePatterns (ai_file sel) = Inr patterns \<and> gi patterns rel)"
      unfolding ignored_file_def Some option.case rel TrimPrefix_append by (simp split: sum.split)
    also have "\<dots> \<longleftrightarrow> excluded NFC gi files f"
      unfolding excluded_def cs [symmetric] Let_def only r using g(1) rel by auto
    finally show ?thesis .
  qed
qed

lemma published_files_eq:
  assumes "\<forall>f \<in> set files. \<not> IsDir f \<longrightarrow> well_named NFC f"
  shows "published_files NFC gi files =
    filter (\<lambda>f. \<not> IsDir f \<and> \<not> mac_metadata (cleaned_name NFC f) \<and> \<not> excluded NFC gi files f) files"
  unfolding published_files_def
  using assms ignored_excluded [OF assms] proper_junk well_named_proper
  by (intro filter_cong refl) (auto simp: candidate_file_def)

lemma relative_path_common:
  assumes "e \<in> set es"
  shows "common_folder (map af_name es) w \<Longrightarrow> af_name e = w @ ''/'' @ relative_path es e"
    and "\<nexists>w. common_folder (map af_name es) w \<Longrightarrow> relative_path es e = af_name e"
proof -
  show "af_name e = w @ ''/'' @ relative_path es e" if c: "common_folder (map af_name es) w"
  proof -
    have "singleTopLevelFolder es = (w, True)" using c by (simp add: singleTopLevelFolder_common)
    moreover from c assms obtain r where "af_name e = (w @ ''/'') @ r" by (auto simp: common_folder_def prefix_def)
    ultimately show ?thesis using TrimPrefix_append [of "w @ ''/''" r] unfolding relative_path_def by simp
  qed
  show "relative_path es e = af_name e" if "\<nexists>w. common_folder (map af_name es) w"
    using that singleTopLevelFolder_none [of es] by (auto simp: relative_path_def split: prod.split)
qed

text \<open>C33: An accepted archive publishes exactly its files that are not directories, not macOS
  metadata and not excluded by the ignore file, in archive order, at least one of them; the ignore
  file is \<open>.gimmeignore\<close> at the root of the archive, or else in the one folder that holds every
  file, and its lines are matched below the folder it is in. Each published file gets its cleaned
  name, less the folder that all published files have in common, if there is one. (The rules
  are stated without the functions of the program; Unicode normalisation and the matcher of a list
  of patterns are those of the two libraries.)\<close>

theorem archiveKeys_publishes:
  assumes "archiveKeys NFC gi files folder = Inr objs"
  shows "\<exists>rel. let clean = (\<lambda>f. path_Clean (NFC (Name f)));
      published = filter (\<lambda>f. \<not> IsDir f \<and> \<not> mac_metadata (clean f) \<and> \<not> excluded NFC gi files f) files
    in published \<noteq> [] \<and> objs = map (\<lambda>f. \<lparr>ao_key = folder @ ''/'' @ rel f, ao_file = f\<rparr>) published \<and>
      (\<forall>f \<in> set published.
         (\<forall>w. common_folder (map clean published) w \<longrightarrow> clean f = w @ ''/'' @ rel f) \<and>
         ((\<nexists>w. common_folder (map clean published) w) \<longrightarrow> rel f = clean f))"
proof -
  let ?pub = "published_files NFC gi files"
  define es where "es = map (entry_of NFC) ?pub"
  have names: "map af_name es = map (cleaned_name NFC) ?pub" by (simp add: es_def comp_def)
  have rel: "(\<forall>w. common_folder (map (cleaned_name NFC) ?pub) w \<longrightarrow> cleaned_name NFC f = w @ ''/'' @ relative_path es (entry_of NFC f)) \<and>
      ((\<nexists>w. common_folder (map (cleaned_name NFC) ?pub) w) \<longrightarrow> relative_path es (entry_of NFC f) = cleaned_name NFC f)"
    if "f \<in> set ?pub" for f
  proof -
    have "entry_of NFC f \<in> set es" using that by (simp add: es_def)
    from relative_path_common [OF this, unfolded names] show ?thesis by simp
  qed
  have objs: "objs = map (\<lambda>f. \<lparr>ao_key = folder @ ''/'' @ relative_path es (entry_of NFC f), ao_file = f\<rparr>) ?pub"
    using archiveKeys_objects(1) [OF assms] by (simp add: comp_def es_def)
  show ?thesis
    unfolding Let_def cleaned_name_def [symmetric] published_files_eq [OF archiveKeys_Inr(1) [OF assms], symmetric]
    using archiveKeys_Inr(3) [OF assms] objs rel by (intro exI [of _ "\<lambda>f. relative_path es (entry_of NFC f)"]) blast
qed

theorem archiveKeys_publishes_witness:
  "\<exists>objs. archiveKeys (\<lambda>s. s) (\<lambda>patterns path. path \<in> set patterns)
     [\<lparr>Name = ''README.md'', UncompressedSize64 = 1, ModeDir = False, Open = Inl ReadingZip\<rparr>,
      \<lparr>Name = ''.gimmeignore'', UncompressedSize64 = 9, ModeDir = False,
        Open = Inr \<lparr>rd_data = ''README.md'', rd_err = None\<rparr>\<rparr>,
      \<lparr>Name = ''__MACOSX/a.js'', UncompressedSize64 = 1, ModeDir = False, Open = Inl ReadingZip\<rparr>,
      \<lparr>Name = ''dist/a.js'', UncompressedSize64 = 1, ModeDir = False, Open = Inl ReadingZip\<rparr>]
     ''p@1.0.0'' = Inr objs \<and> map ao_key objs = [''p@1.0.0/a.js''] \<and> objs \<noteq> []"
proof -
  let ?files = "[\<lparr>Name = ''README.md'', UncompressedSize64 = 1, ModeDir = False, Open = Inl ReadingZip\<rparr>,
      \<lparr>Name = ''.gimmeignore'', UncompressedSize64 = 9, ModeDir = False,
        Open = Inr \<lparr>rd_data = ''README.md'', rd_err = None\<rparr>\<rparr>,
      \<lparr>Name = ''__MACOSX/a.js'', UncompressedSize64 = 1, ModeDir = False, Open = Inl ReadingZip\<rparr>,
      \<lparr>Name = ''dist/a.js'', UncompressedSize64 = 1, ModeDir = False, Open = Inl ReadingZip\<rparr>]"
  let ?objs = "[\<lparr>ao_key = ''p@1.0.0/a.js'', ao_file = ?files ! 3\<rparr>]"
  have r: "archiveKeys (\<lambda>s. s) (\<lambda>patterns path. path \<in> set patterns) ?files ''p@1.0.0'' = Inr ?objs"
    by code_simp
  show ?thesis using archiveKeys_publishes [OF r] r by (intro exI [of _ ?objs]) (auto simp: Let_def)
qed

subsection \<open>Properties of the limits\<close>

definition file_entries :: "zip_file list \<Rightarrow> zip_file list" where
  "file_entries files = filter (\<lambda>f. \<not> IsDir f) files"

definition declared_total :: "zip_file list \<Rightarrow> nat" where
  "declared_total files = sum_list (map (\<lambda>f. unat (UncompressedSize64 f)) (file_entries files))"

lemma unat_max_word64: "unat (- 1 :: 64 word) = 2 ^ 64 - 1"
  by (simp add: unsigned_minus_1_eq_mask mask_eq_exp_minus_1)

lemma unat_lt64: "unat w < 2 ^ 64" for w :: "64 word"
  using unsigned_less [of w, where ?'a = nat] by simp

lemma saturating_add:
  "unat (if - 1 - s < u then - 1 else s + u) = min (2 ^ 64 - 1) (unat s + unat u)" for s u :: "64 word"
proof -
  have m: "unat (- 1 - s) = 2 ^ 64 - 1 - unat s"
  proof -
    have "s \<le> - 1" by simp
    then have "unat (- 1 - s) = unat (- 1 :: 64 word) - unat s" by (rule unat_sub)
    then show ?thesis by (simp add: unat_max_word64)
  qed
  have s: "unat s < 2 ^ 64" by (rule unat_lt64)
  show ?thesis
  proof (cases "- 1 - s < u")
    case True
    then have "2 ^ 64 - 1 - unat s < unat u" using m by (simp add: word_less_nat_alt)
    then have "2 ^ 64 - 1 \<le> unat s + unat u" by linarith
    with True show ?thesis by (simp add: unat_max_word64)
  next
    case False
    then have le: "unat u \<le> 2 ^ 64 - 1 - unat s" using m by (simp add: word_less_nat_alt)
    with s have "unat s + unat u < 2 ^ 64" by linarith
    then have "unat (s + u) = unat s + unat u" using unat_add_lem [of s u] by simp
    with False le s show ?thesis by simp
  qed
qed

lemma limits_loop_eq:
  "fst (limits_loop n s files) = n + int (length (file_entries files)) \<and>
   unat (snd (limits_loop n s files)) = min (2 ^ 64 - 1) (unat s + declared_total files)"
proof (induction n s files rule: limits_loop.induct)
  case (1 n s)
  then show ?case using unat_lt64 [of s] by (simp add: file_entries_def declared_total_def)
next
  case (2 n s f fs)
  show ?case
  proof (cases "IsDir f")
    case True
    then show ?thesis using 2 by (simp add: file_entries_def declared_total_def)
  next
    case False
    let ?s = "if - 1 - s < UncompressedSize64 f then - 1 else s + UncompressedSize64 f"
    have ns: "\<not> HasSuffix (Name f) ''/''" using False by (simp add: IsDir_def)
    have loop: "limits_loop n s (f # fs) = limits_loop (n + 1) ?s fs" using False ns by simp
    have tot: "declared_total (f # fs) = unat (UncompressedSize64 f) + declared_total fs"
      and len: "length (file_entries (f # fs)) = Suc (length (file_entries fs))"
      using False by (simp_all add: file_entries_def declared_total_def)
    have "fst (limits_loop (n + 1) ?s fs) = n + 1 + int (length (file_entries fs))"
      and "unat (snd (limits_loop (n + 1) ?s fs)) = min (2 ^ 64 - 1) (unat ?s + declared_total fs)"
      using 2(2) False ns by blast+
    then show ?thesis
      unfolding loop tot len saturating_add by (simp add: min_def)
  qed
qed

text \<open>C34: The upload limits are exact: an archive passes if and only if its number of file
  entries and the sum of the declared sizes, as natural numbers, are within the limits that are
  positive; the 64-bit accumulator saturates instead of wrapping, so no archive slips through
  by overflow, and every rejection is a payload-too-large error.\<close>

theorem checkArchiveLimits_exact:
  assumes "MaxUncompressedSize limits < 2 ^ 63"
  shows "(checkArchiveLimits limits files = None \<longleftrightarrow>
      (MaxEntries limits \<le> 0 \<or> int (length (file_entries files)) \<le> MaxEntries limits) \<and>
      (MaxUncompressedSize limits \<le> 0 \<or> int (declared_total files) \<le> MaxUncompressedSize limits)) \<and>
    (\<forall>e. checkArchiveLimits limits files = Some e \<longrightarrow> GetHTTPCode e = 413)"
proof -
  obtain n s where l: "limits_loop 0 0 files = (n, s)" by (cases "limits_loop 0 0 files")
  have n: "n = int (length (file_entries files))" and s: "unat s = min (2 ^ 64 - 1) (declared_total files)"
    using limits_loop_eq [of 0 0 files] l by simp_all
  have "word_of_int (MaxUncompressedSize limits) < s \<longleftrightarrow> MaxUncompressedSize limits < int (declared_total files)"
    if pos: "0 < MaxUncompressedSize limits"
  proof -
    have u: "unat (word_of_int (MaxUncompressedSize limits) :: 64 word) = nat (MaxUncompressedSize limits)"
      using assms pos by (simp add: unat_eq_nat_uint uint_word_of_int take_bit_int_eq_self)
    have "nat (MaxUncompressedSize limits) < 2 ^ 64 - 1" using assms by simp
    then have "nat (MaxUncompressedSize limits) < unat s \<longleftrightarrow> nat (MaxUncompressedSize limits) < declared_total files"
      unfolding s by auto
    with u pos show ?thesis by (simp add: word_less_nat_alt) linarith
  qed
  then show ?thesis
    unfolding checkArchiveLimits_def l
    by (cases "0 < MaxUncompressedSize limits") (auto simp: n not_less GetHTTPCode_NewBusinessError httpCodes_def split: if_splits)
qed

theorem checkArchiveLimits_exact_witness:
  "\<exists>e. checkArchiveLimits \<lparr>MaxSize = 10, MaxEntries = 10, MaxUncompressedSize = 500\<rparr>
     [\<lparr>Name = ''a'', UncompressedSize64 = - 1, ModeDir = False, Open = Inl ReadingZip\<rparr>,
      \<lparr>Name = ''b'', UncompressedSize64 = 2, ModeDir = False, Open = Inl ReadingZip\<rparr>] = Some e \<and> GetHTTPCode e = 413"
proof -
  let ?l = "\<lparr>MaxSize = 10, MaxEntries = 10, MaxUncompressedSize = 500\<rparr>"
  let ?fs = "[\<lparr>Name = ''a'', UncompressedSize64 = - 1, ModeDir = False, Open = Inl ReadingZip\<rparr>,
      \<lparr>Name = ''b'', UncompressedSize64 = 2, ModeDir = False, Open = Inl ReadingZip\<rparr>]"
  have h: "MaxUncompressedSize ?l < 2 ^ 63" by simp
  have "\<not> int (declared_total ?fs) \<le> MaxUncompressedSize ?l"
    by (simp add: declared_total_def file_entries_def IsDir_def HasSuffix_def suffix_def unat_max_word64)
  with checkArchiveLimits_exact [OF h, of ?fs] show ?thesis by auto
qed

end
