(* ===== verification/Gimme_Compression.thy ===== *)
theory Gimme_Compression
  imports Gimme_Archive
begin

text \<open>
  Precompressed variants and integrity tokens: internal/content/compression.go,
  internal/content/integrity.go and pkg/file-utils. The mime tables of the host, the brotli
  and gzip encoders and the SHA-384 digest are arguments. The keep ratio 0.8 is compared in
  integers: for sizes up to 8 MiB the double \<open>0.8 * size\<close> is rounded to the integer
  quotient whenever 5 divides the size and lies strictly between two integers otherwise, so
  \<open>float64(n) <= 0.8 * float64(size)\<close> is \<open>5 * n \<le> 4 * size\<close>.
\<close>

type_synonym Encoding = string

record mime_pkg =
  TypeByExtension :: "string \<Rightarrow> string"
  ParseMediaType :: "string \<Rightarrow> go_error + string"

record encoders =
  brotli_encode :: "string \<Rightarrow> go_error + string"
  gzip_encode :: "string \<Rightarrow> go_error + string"

definition EncodingBrotli :: Encoding where "EncodingBrotli = ''br''"
definition EncodingGzip :: Encoding where "EncodingGzip = ''gzip''"
definition compressionMinSize :: nat where "compressionMinSize = 1024"
definition compressionMaxSize :: nat where "compressionMaxSize = 8388608"

definition encoding_suffix :: "Encoding \<Rightarrow> string" where
  "encoding_suffix encoding =
     (if encoding = EncodingBrotli then ''.br'' else if encoding = EncodingGzip then ''.gz'' else '''')"

definition compressibleContentType :: "mime_pkg \<Rightarrow> string \<Rightarrow> string \<times> bool" where
  "compressibleContentType mime name =
     (let extension = ToLower (filepath_Ext name);
          contentType0 = TypeByExtension mime extension;
          contentType = (if contentType0 = '''' \<and> extension = ''.map'' then ''application/json'' else contentType0)
      in if contentType = '''' then ('''', False)
         else (case ParseMediaType mime contentType of
             Inl _ \<Rightarrow> (contentType, False)
           | Inr mediaType \<Rightarrow>
               if HasPrefix mediaType ''text/'' then (contentType, True)
               else (contentType, mediaType \<in> set [''application/javascript'', ''application/json'',
                  ''application/manifest+json'', ''application/xml'', ''application/xhtml+xml'',
                  ''image/svg+xml'', ''application/wasm''])))"

definition GetFileContentType :: "mime_pkg \<Rightarrow> zip_file \<Rightarrow> string" where
  "GetFileContentType mime file = TypeByExtension mime (filepath_Ext (Name file))"

text \<open>
  The result map of \<open>compressVariants\<close> is an association list with brotli first; Go
  iterates over the map in an unspecified order, which is an argument where it matters.
\<close>

definition compressVariants :: "encoders \<Rightarrow> zip_file \<Rightarrow> go_error + (Encoding \<times> string) list" where
  "compressVariants enc file =
     (case Open file of
        Inl e \<Rightarrow> Inl e
      | Inr src \<Rightarrow>
          (case copy_limited (compressionMaxSize + 1) src of (copied, copyErr) \<Rightarrow>
             (case copyErr of
                Some e \<Rightarrow> Inl e
              | None \<Rightarrow>
                  (case brotli_encode enc copied of
                     Inl e \<Rightarrow> Inl e
                   | Inr brotliBuffer \<Rightarrow>
                       (case gzip_encode enc copied of
                          Inl e \<Rightarrow> Inl e
                        | Inr gzipBuffer \<Rightarrow>
                            if compressionMaxSize < length copied then Inr []
                            else Inr
                              ((if 5 * length brotliBuffer \<le> 4 * length copied
                                then [(EncodingBrotli, brotliBuffer)] else []) @
                               (if 5 * length gzipBuffer \<le> 4 * length copied
                                then [(EncodingGzip, gzipBuffer)] else [])))))))"

subsection \<open>Integrity tokens\<close>

definition b64_char :: "nat \<Rightarrow> char" where
  "b64_char n = ''ABCDEFGHIJKLMNOPQRSTUVWXYZabcdefghijklmnopqrstuvwxyz0123456789+/'' ! (n mod 64)"

text \<open>\<open>base64.StdEncoding.EncodeToString\<close> on the byte values.\<close>

fun base64 :: "nat list \<Rightarrow> string" where
  "base64 [] = ''''"
| "base64 [a] = [b64_char (a div 4), b64_char (a mod 4 * 16)] @ ''==''"
| "base64 [a, b] = [b64_char (a div 4), b64_char (a mod 4 * 16 + b div 16), b64_char (b mod 16 * 4)] @ ''=''"
| "base64 (a # b # c # s) =
     [b64_char (a div 4), b64_char (a mod 4 * 16 + b div 16), b64_char (b mod 16 * 4 + c div 64),
      b64_char (c mod 64)] @ base64 s"

definition fileIntegrity :: "(string \<Rightarrow> string) \<Rightarrow> zip_file \<Rightarrow> go_error + string" where
  "fileIntegrity sha384 file =
     (case Open file of
        Inl e \<Rightarrow> Inl e
      | Inr src \<Rightarrow>
          (let declared = UncompressedSize64 file
           in if 2 ^ 63 - 1 \<le> declared then Inl (SizeOutOfRange (Name file) declared)
              else (case copy_limited (unat declared + 1) src of (hashed, copyErr) \<Rightarrow>
                  (case copyErr of
                     Some e \<Rightarrow> Inl e
                   | None \<Rightarrow>
                       if length hashed \<noteq> unat declared
                       then Inl (UnexpectedSize (Name file) (int (length hashed)) declared)
                       else Inr (''sha384-'' @ base64 (map of_char (sha384 hashed)))))))"

subsection \<open>Facts\<close>

definition encodings :: "Encoding list" where
  "encodings = [EncodingBrotli, EncodingGzip]"

lemma suffix_simps [simp]:
  "encoding_suffix EncodingBrotli = ''.br''" "encoding_suffix EncodingGzip = ''.gz''" "encoding_suffix '''' = ''''"
  by (simp_all add: encoding_suffix_def EncodingBrotli_def EncodingGzip_def)

lemma in_encodings: "e \<in> set encodings \<longleftrightarrow> e = EncodingBrotli \<or> e = EncodingGzip"
  by (simp add: encodings_def)

lemma suffix_length: "e \<in> set encodings \<Longrightarrow> length (encoding_suffix e) = 3"
  by (auto simp: in_encodings)

lemma variant_key_inject:
  assumes "e \<in> set encodings" and "e' \<in> set encodings"
  shows "k @ encoding_suffix e = k' @ encoding_suffix e' \<longleftrightarrow> k = k' \<and> e = e'"
  using assms by (auto simp: in_encodings EncodingBrotli_def EncodingGzip_def encoding_suffix_def)

lemma copy_limited_None:
  assumes "copy_limited n r = (d, None)" and "length d < n"
  shows "rd_err r = None" and "d = rd_data r"
  using assms by (auto simp: copy_limited_def split: if_splits)

lemma fileIntegrity_Inr:
  assumes "fileIntegrity sha file = Inr token"
  obtains src where "Open file = Inr src" and "rd_err src = None"
    and "length (rd_data src) = unat (UncompressedSize64 file)"
    and "token = ''sha384-'' @ base64 (map of_char (sha (rd_data src)))"
proof -
  from assms obtain src d where s: "Open file = Inr src"
    "copy_limited (unat (UncompressedSize64 file) + 1) src = (d, None)"
    "length d = unat (UncompressedSize64 file)"
    "token = ''sha384-'' @ base64 (map of_char (sha d))"
    by (auto simp: fileIntegrity_def Let_def split: sum.splits if_splits prod.splits option.splits)
  with copy_limited_None [OF s(2)] that show thesis by auto
qed

lemma compressVariants_Inr:
  assumes "compressVariants enc file = Inr vs" and "(e, d) \<in> set vs"
  obtains src where "Open file = Inr src" and "rd_err src = None"
    and "length (rd_data src) \<le> compressionMaxSize" and "5 * length d \<le> 4 * length (rd_data src)"
    and "e = EncodingBrotli \<and> brotli_encode enc (rd_data src) = Inr d \<or>
         e = EncodingGzip \<and> gzip_encode enc (rd_data src) = Inr d"
proof -
  from assms obtain src c where s: "Open file = Inr src"
    "copy_limited (compressionMaxSize + 1) src = (c, None)" "length c \<le> compressionMaxSize"
    "5 * length d \<le> 4 * length c"
    "e = EncodingBrotli \<and> brotli_encode enc c = Inr d \<or> e = EncodingGzip \<and> gzip_encode enc c = Inr d"
    by (auto simp: compressVariants_def not_less split: sum.splits if_splits prod.splits option.splits)
  from s(3) have "length c < compressionMaxSize + 1" by simp
  from copy_limited_None [OF s(2) this] s that show thesis by auto
qed

text \<open>An integrity token is issued only for an entry whose content was read to its end
  without an error and has exactly the declared size; it is the SHA-384 digest of that whole
  content.\<close>

lemma fileIntegrity_whole_content:
  assumes "fileIntegrity sha384 file = Inr token"
  shows "\<exists>src. Open file = Inr src \<and> ReadAll src = Inr (rd_data src) \<and>
    length (rd_data src) = unat (UncompressedSize64 file) \<and>
    token = ''sha384-'' @ base64 (map of_char (sha384 (rd_data src)))"
  by (rule fileIntegrity_Inr [OF assms]) (auto simp: ReadAll_def)

text \<open>A generated variant encodes the whole content of its entry, which is at most 8 MiB,
  and takes at most four fifths of its size; it carries the suffix of its own encoding.\<close>

lemma compressVariants_bounded:
  assumes "compressVariants enc file = Inr vs" and "(e, d) \<in> set vs"
  shows "\<exists>src. Open file = Inr src \<and> ReadAll src = Inr (rd_data src) \<and>
    length (rd_data src) \<le> compressionMaxSize \<and> 5 * length d \<le> 4 * length (rd_data src) \<and>
    (encoding_suffix e = ''.br'' \<and> brotli_encode enc (rd_data src) = Inr d \<or>
     encoding_suffix e = ''.gz'' \<and> gzip_encode enc (rd_data src) = Inr d)"
  by (rule compressVariants_Inr [OF assms]) (auto simp: ReadAll_def)

end
