(* ===== verification/Gimme_Storage.thy ===== *)
theory Gimme_Storage
  imports Gimme_Compression
begin

text \<open>
  The object storage manager, internal/storage/objectstorage-manager.go. The S3 client
  (interface ObjectStorageClient, implemented by minio-go) is the record argument
  \<open>s3_client\<close> over an unknown world \<open>'w\<close>; its documented behaviour is the
  locale \<open>s3_service\<close>. The Go interface ObjectStorageManager is the record
  \<open>osm_iface\<close> of its methods, \<open>NewObjectStorageManager\<close> builds it over a
  client, and what callers may rely on is the locale \<open>object_storage\<close>, which every
  \<open>s3_service\<close> provides. Timers and log lines are left out. A channel of listed
  objects is the list of what it delivers; an operation works on a snapshot of the world.
\<close>

subsection \<open>Data\<close>

text \<open>A \<open>time.Time\<close>: nanoseconds since year 1, so the zero value is 0.\<close>

type_synonym go_time = int

definition IsZero :: "go_time \<Rightarrow> bool" where
  "IsZero t \<longleftrightarrow> t = 0"

record ObjectInfo =
  oi_Key :: string
  oi_Size :: int
  oi_ETag :: string
  oi_LastModified :: go_time
  oi_ContentType :: string
  oi_UserMetadata :: "string \<rightharpoonup> string"
  oi_Err :: "go_error option"

record PutObjectOptions =
  po_ContentType :: string
  po_UserMetadata :: "string \<rightharpoonup> string"

record ListObjectsOptions =
  lo_Prefix :: string
  lo_Recursive :: bool
  lo_MaxKeys :: int
  lo_StartAfter :: string

text \<open>A \<open>*minio.Object\<close> is lazy: errors show when it is inspected.\<close>

record s3_object =
  Stat :: "go_error + ObjectInfo"
  Body :: string

record 'w s3_client =
  MakeBucket :: "bucket \<Rightarrow> string \<Rightarrow> 'w \<Rightarrow> go_error option \<times> 'w"
  BucketExists :: "bucket \<Rightarrow> 'w \<Rightarrow> go_error + bool"
  PutObject :: "bucket \<Rightarrow> key \<Rightarrow> zip_reader \<Rightarrow> int \<Rightarrow> PutObjectOptions \<Rightarrow> 'w \<Rightarrow> go_error option \<times> 'w"
  client_GetObject :: "bucket \<Rightarrow> key \<Rightarrow> 'w \<Rightarrow> go_error + s3_object"
  client_ListObjects :: "bucket \<Rightarrow> ListObjectsOptions \<Rightarrow> 'w \<Rightarrow> ObjectInfo list"
  client_RemoveObjects :: "bucket \<Rightarrow> ObjectInfo list \<Rightarrow> 'w \<Rightarrow> (string \<times> go_error option) list \<times> 'w"

record 'w objectStorageManager =
  client :: "'w s3_client"
  bucketName :: string
  location :: string

definition IntegrityMetadataKey :: string where "IntegrityMetadataKey = ''gimme-sri''"
definition CanonicalIntegrityMetadataKey :: string where "CanonicalIntegrityMetadataKey = ''Gimme-Sri''"

subsection \<open>Operations\<close>

definition CreateBucket ::
  "'w objectStorageManager \<Rightarrow> bucket \<Rightarrow> string \<Rightarrow> 'w \<Rightarrow> GimmeError option \<times> 'w objectStorageManager \<times> 'w" where
  "CreateBucket osm bucket loc w =
     (case MakeBucket (client osm) bucket loc w of (err, w') \<Rightarrow>
        if err \<noteq> None \<and> BucketExists (client osm) bucket w' \<noteq> Inr True
        then (Some (NewBusinessError InternalError (CreateBucketFailed bucket loc)), osm, w')
        else (None, osm\<lparr>bucketName := bucket, location := loc\<rparr>, w'))"

definition put_options :: "string \<Rightarrow> string \<Rightarrow> PutObjectOptions" where
  "put_options contentType integrity =
     \<lparr>po_ContentType = contentType,
      po_UserMetadata = (if integrity \<noteq> '''' then [IntegrityMetadataKey \<mapsto> integrity] else Map.empty)\<rparr>"

definition AddObject ::
  "'w objectStorageManager \<Rightarrow> mime_pkg \<Rightarrow> key \<Rightarrow> zip_file \<Rightarrow> string \<Rightarrow> 'w \<Rightarrow> GimmeError option \<times> 'w" where
  "AddObject osm mime objectName file integrity w =
     (if IsDir file then (None, w)
      else (case Open file of
          Inl _ \<Rightarrow> (Some (NewBusinessError InternalError OpenInputFailed), w)
        | Inr src \<Rightarrow>
            (let contentType0 = GetFileContentType mime file;
                 contentType = (if contentType0 = '''' then ''text/plain'' else contentType0)
             in (case PutObject (client osm) (bucketName osm) objectName src
                     (sint (UncompressedSize64 file)) (put_options contentType integrity) w of
                   (Some _, w') \<Rightarrow> (Some (NewBusinessError InternalError (PutObjectFailed objectName)), w')
                 | (None, w') \<Rightarrow> (None, w')))))"

definition AddBytes ::
  "'w objectStorageManager \<Rightarrow> key \<Rightarrow> string \<Rightarrow> string \<Rightarrow> string \<Rightarrow> 'w \<Rightarrow> GimmeError option \<times> 'w" where
  "AddBytes osm objectName data contentType integrity w =
     (case PutObject (client osm) (bucketName osm) objectName \<lparr>rd_data = data, rd_err = None\<rparr>
         (int (length data)) (put_options contentType integrity) w of
        (Some _, w') \<Rightarrow> (Some (NewBusinessError InternalError (PutObjectFailed objectName)), w')
      | (None, w') \<Rightarrow> (None, w'))"

definition GetObject :: "'w objectStorageManager \<Rightarrow> key \<Rightarrow> 'w \<Rightarrow> GimmeError + s3_object" where
  "GetObject osm objectName w =
     (case client_GetObject (client osm) (bucketName osm) objectName w of
        Inl _ \<Rightarrow> Inl (NewBusinessError InternalError (GetObjectFailed objectName))
      | Inr object \<Rightarrow> Inr object)"

definition list_all_options :: "string \<Rightarrow> ListObjectsOptions" where
  "list_all_options pfx = \<lparr>lo_Prefix = pfx, lo_Recursive = True, lo_MaxKeys = 0, lo_StartAfter = ''''\<rparr>"

definition ListObjects :: "'w objectStorageManager \<Rightarrow> string \<Rightarrow> 'w \<Rightarrow> ObjectInfo list" where
  "ListObjects osm objectParentName w =
     filter (\<lambda>object. oi_Err object = None)
       (client_ListObjects (client osm) (bucketName osm) (list_all_options objectParentName) w)"

fun page_loop :: "int \<Rightarrow> ObjectInfo list \<Rightarrow> ObjectInfo list \<Rightarrow> ObjectInfo list \<times> bool" where
  "page_loop limit objects [] = (objects, False)"
| "page_loop limit objects (object # ch) =
     (if oi_Err object \<noteq> None then page_loop limit objects ch
      else if int (length objects) = limit then (objects, True)
      else page_loop limit (objects @ [object]) ch)"

definition ListObjectsPage ::
  "'w objectStorageManager \<Rightarrow> string \<Rightarrow> string \<Rightarrow> int \<Rightarrow> 'w \<Rightarrow> ObjectInfo list \<times> bool" where
  "ListObjectsPage osm pfx after limit w =
     page_loop limit []
       (client_ListObjects (client osm) (bucketName osm)
          \<lparr>lo_Prefix = pfx, lo_Recursive = True, lo_MaxKeys = limit + 1, lo_StartAfter = after\<rparr> w)"

definition ListCommonPrefixes :: "'w objectStorageManager \<Rightarrow> string \<Rightarrow> 'w \<Rightarrow> string list" where
  "ListCommonPrefixes osm pfx w =
     map oi_Key (filter (\<lambda>object. oi_Err object = None)
       (client_ListObjects (client osm) (bucketName osm)
          \<lparr>lo_Prefix = pfx, lo_Recursive = False, lo_MaxKeys = 0, lo_StartAfter = ''''\<rparr> w))"

definition ObjectExists :: "'w objectStorageManager \<Rightarrow> key \<Rightarrow> 'w \<Rightarrow> bool" where
  "ObjectExists osm objectName w =
     list_ex (\<lambda>object. oi_Err object = None)
       (client_ListObjects (client osm) (bucketName osm) (list_all_options (objectName @ ''/'')) w)"

definition Ping :: "'w objectStorageManager \<Rightarrow> 'w \<Rightarrow> GimmeError option" where
  "Ping osm w =
     (case BucketExists (client osm) (bucketName osm) w of
        Inl _ \<Rightarrow> Some (NewBusinessError InternalError StorageUnreachable)
      | Inr exists \<Rightarrow>
          if \<not> exists then Some (NewBusinessError InternalError (BucketMissing (bucketName osm))) else None)"

text \<open>
  The listing goroutine feeds the removal; read errors come first in the model's error list,
  whose order the code leaves to the scheduler.
\<close>

definition RemoveObjects :: "'w objectStorageManager \<Rightarrow> string \<Rightarrow> 'w \<Rightarrow> GimmeError option \<times> 'w" where
  "RemoveObjects osm objectParentName w =
     (let listed = client_ListObjects (client osm) (bucketName osm) (list_all_options objectParentName) w;
          readErrors = map (\<lambda>object. RemoveError Read (oi_Key object) (oi_Err object))
            (filter (\<lambda>object. oi_Err object \<noteq> None) listed)
      in (case client_RemoveObjects (client osm) (bucketName osm)
             (filter (\<lambda>object. oi_Err object = None) listed) w of (rErrs, w') \<Rightarrow>
            (let removeErrors = readErrors @ map (\<lambda>(name, err). RemoveError Delete name err) rErrs
             in if removeErrors \<noteq> []
                then (Some (NewBusinessError InternalError (RemovingObjects removeErrors)), w')
                else (None, w'))))"

subsection \<open>The Go interface\<close>

record 'w osm_iface =
  os_AddObject :: "key \<Rightarrow> zip_file \<Rightarrow> string \<Rightarrow> 'w \<Rightarrow> GimmeError option \<times> 'w"
  os_AddBytes :: "key \<Rightarrow> string \<Rightarrow> string \<Rightarrow> string \<Rightarrow> 'w \<Rightarrow> GimmeError option \<times> 'w"
  os_GetObject :: "key \<Rightarrow> 'w \<Rightarrow> GimmeError + s3_object"
  os_ObjectExists :: "key \<Rightarrow> 'w \<Rightarrow> bool"
  os_ListObjects :: "string \<Rightarrow> 'w \<Rightarrow> ObjectInfo list"
  os_ListObjectsPage :: "string \<Rightarrow> string \<Rightarrow> int \<Rightarrow> 'w \<Rightarrow> ObjectInfo list \<times> bool"
  os_ListCommonPrefixes :: "string \<Rightarrow> 'w \<Rightarrow> string list"
  os_RemoveObjects :: "string \<Rightarrow> 'w \<Rightarrow> GimmeError option \<times> 'w"
  os_Ping :: "'w \<Rightarrow> GimmeError option"

text \<open>The manager behind the interface, once \<open>CreateBucket\<close> has set its bucket.\<close>

definition storage_iface :: "mime_pkg \<Rightarrow> 'w objectStorageManager \<Rightarrow> 'w osm_iface" where
  "storage_iface mime osm =
     \<lparr>os_AddObject = AddObject osm mime, os_AddBytes = AddBytes osm, os_GetObject = GetObject osm,
      os_ObjectExists = ObjectExists osm, os_ListObjects = ListObjects osm,
      os_ListObjectsPage = ListObjectsPage osm, os_ListCommonPrefixes = ListCommonPrefixes osm,
      os_RemoveObjects = RemoveObjects osm, os_Ping = Ping osm\<rparr>"

definition NewObjectStorageManager :: "'w s3_client \<Rightarrow> 'w objectStorageManager" where
  "NewObjectStorageManager c = \<lparr>client = c, bucketName = '''', location = ''''\<rparr>"

subsection \<open>Contracts\<close>

record stored_object =
  so_Body :: string
  so_ContentType :: string
  so_UserMetadata :: "string \<rightharpoonup> string"

type_synonym store = "key \<rightharpoonup> stored_object"

definition keys_after :: "store \<Rightarrow> string \<Rightarrow> string \<Rightarrow> string list" where
  "keys_after st pfx after = sorted_list_of_set {k \<in> dom st. prefix pfx k \<and> (after = '''' \<or> after < k)}"

definition common_of :: "string \<Rightarrow> key \<Rightarrow> string" where
  "common_of pfx k =
     (let rest = drop (length pfx) k
      in if CHR ''/'' \<in> set rest then pfx @ takeWhile (\<lambda>c. c \<noteq> CHR ''/'') rest @ ''/'' else k)"

definition matching_keys :: "store \<Rightarrow> string \<Rightarrow> key set" where
  "matching_keys st pfx = {k \<in> dom st. prefix pfx k}"

definition describes :: "ObjectInfo \<Rightarrow> stored_object \<Rightarrow> bool" where
  "describes i st \<longleftrightarrow> oi_Size i = int (length (so_Body st)) \<and> oi_ContentType i = so_ContentType st \<and>
     oi_UserMetadata i CanonicalIntegrityMetadataKey = so_UserMetadata st IntegrityMetadataKey"

text \<open>
  Documented behaviour of an S3 service behind minio-go. A listing may deliver entries that
  carry an error; without such entries a recursive listing is complete and in key order, and a
  listing by folder delivers each common prefix once. A successful put replaces one object, a
  failed one touches no other; a removal removes what it does not report; an object that can be
  inspected is the stored one.
\<close>

locale s3_service =
  fixes cl :: "'w s3_client" and objs :: "bucket \<Rightarrow> 'w \<Rightarrow> store"
  assumes finite_objs: "finite (dom (objs b w))"
    and list_recursive: "lo_Recursive opts \<Longrightarrow>
      (\<And>i. i \<in> set (client_ListObjects cl b opts w) \<Longrightarrow> oi_Err i = None) \<Longrightarrow>
      map oi_Key (client_ListObjects cl b opts w) = keys_after (objs b w) (lo_Prefix opts) (lo_StartAfter opts)"
    and list_sound: "lo_Recursive opts \<Longrightarrow> i \<in> set (client_ListObjects cl b opts w) \<Longrightarrow> oi_Err i = None \<Longrightarrow>
      prefix (lo_Prefix opts) (oi_Key i) \<and>
      (\<exists>st. objs b w (oi_Key i) = Some st \<and> oi_Size i = int (length (so_Body st)))"
    and list_folders: "\<not> lo_Recursive opts \<Longrightarrow> lo_StartAfter opts = '''' \<Longrightarrow>
      (\<And>i. i \<in> set (client_ListObjects cl b opts w) \<Longrightarrow> oi_Err i = None) \<Longrightarrow>
      distinct (map oi_Key (client_ListObjects cl b opts w)) \<and>
      oi_Key ` set (client_ListObjects cl b opts w) = common_of (lo_Prefix opts) ` matching_keys (objs b w) (lo_Prefix opts)"
    and list_folders_sound: "\<not> lo_Recursive opts \<Longrightarrow> lo_StartAfter opts = '''' \<Longrightarrow>
      i \<in> set (client_ListObjects cl b opts w) \<Longrightarrow> oi_Err i = None \<Longrightarrow>
      oi_Key i \<in> common_of (lo_Prefix opts) ` matching_keys (objs b w) (lo_Prefix opts)"
    and put_ok: "PutObject cl b k rd n popts w = (None, w') \<Longrightarrow> rd_err rd = None \<Longrightarrow> int (length (rd_data rd)) = n \<Longrightarrow>
      objs b w' = (objs b w)(k \<mapsto> \<lparr>so_Body = rd_data rd, so_ContentType = po_ContentType popts,
        so_UserMetadata = po_UserMetadata popts\<rparr>)"
    and put_frame: "PutObject cl b k rd n popts w = (e, w') \<Longrightarrow> b' \<noteq> b \<or> k' \<noteq> k \<Longrightarrow> objs b' w' k' = objs b' w k'"
    and get_sound: "client_GetObject cl b k w = Inr ob \<Longrightarrow> Stat ob = Inr i \<Longrightarrow>
      \<exists>st. objs b w k = Some st \<and> Body ob = so_Body st \<and> describes i st"
    and remove_gone: "client_RemoveObjects cl b infos w = (errs, w') \<Longrightarrow>
      k \<in> oi_Key ` set infos \<Longrightarrow> k \<notin> fst ` set errs \<Longrightarrow> objs b w' k = None"
    and remove_frame: "client_RemoveObjects cl b infos w = (errs, w') \<Longrightarrow>
      b' \<noteq> b \<or> k \<notin> oi_Key ` set infos \<Longrightarrow> objs b' w' k = objs b' w k"

text \<open>A service on which no call fails.\<close>

locale s3_reliable = s3_service +
  assumes list_no_error: "i \<in> set (client_ListObjects cl b opts w) \<Longrightarrow> oi_Err i = None"
    and put_total: "rd_err rd = None \<Longrightarrow> int (length (rd_data rd)) = n \<Longrightarrow> fst (PutObject cl b k rd n popts w) = None"
    and get_total: "\<exists>ob. client_GetObject cl b k w = Inr ob \<and> (objs b w k \<noteq> None \<longrightarrow> (\<exists>i. Stat ob = Inr i))"
    and remove_total: "fst (client_RemoveObjects cl b infos w) = []"

text \<open>An entry that reads to its end with its declared size.\<close>

definition sized_entry :: "zip_file \<Rightarrow> string \<Rightarrow> bool" where
  "sized_entry f d \<longleftrightarrow> (\<exists>rd. Open f = Inr rd \<and> rd_err rd = None \<and> rd_data rd = d) \<and> \<not> IsDir f \<and>
     length d = unat (UncompressedSize64 f) \<and> unat (UncompressedSize64 f) < 2 ^ 63"

definition carries :: "stored_object \<Rightarrow> string \<Rightarrow> string \<Rightarrow> bool" where
  "carries st d integrity \<longleftrightarrow> so_Body st = d \<and>
     so_UserMetadata st IntegrityMetadataKey = (if integrity = '''' then None else Some integrity)"

text \<open>What the content service relies on: the contract of the interface ObjectStorageManager.\<close>

locale object_storage =
  fixes os :: "'w osm_iface" and store :: "'w \<Rightarrow> store"
  assumes finite_store: "finite (dom (store w))"
    and add_ok: "os_AddObject os k f integrity w = (None, w') \<Longrightarrow> sized_entry f d \<Longrightarrow>
      \<exists>st. store w' = (store w)(k \<mapsto> st) \<and> carries st d integrity"
    and add_frame: "os_AddObject os k f integrity w = (e, w') \<Longrightarrow> k' \<noteq> k \<Longrightarrow> store w' k' = store w k'"
    and bytes_ok: "os_AddBytes os k d ct integrity w = (None, w') \<Longrightarrow>
      \<exists>st. store w' = (store w)(k \<mapsto> st) \<and> carries st d integrity \<and> so_ContentType st = ct"
    and bytes_frame: "os_AddBytes os k d ct integrity w = (e, w') \<Longrightarrow> k' \<noteq> k \<Longrightarrow> store w' k' = store w k'"
    and add_err: "os_AddObject os k f integrity w = (Some ge, w') \<Longrightarrow> Err ge \<noteq> None"
    and bytes_err: "os_AddBytes os k d ct integrity w = (Some ge, w') \<Longrightarrow> Err ge \<noteq> None"
    and remove_ok: "os_RemoveObjects os p w = (None, w') \<Longrightarrow>
      store w' = (\<lambda>k. if prefix p k then None else store w k)"
    and remove_frame: "os_RemoveObjects os p w = (e, w') \<Longrightarrow> \<not> prefix p k \<Longrightarrow> store w' k = store w k"
    and exists_sound: "os_ObjectExists os nm w \<Longrightarrow> \<exists>k \<in> dom (store w). prefix (nm @ ''/'') k"
    and object_sound: "os_GetObject os k w = Inr ob \<Longrightarrow> Stat ob = Inr i \<Longrightarrow>
      \<exists>st. store w k = Some st \<and> Body ob = so_Body st \<and> describes i st"
    and prefixes_sound: "c \<in> set (os_ListCommonPrefixes os p w) \<Longrightarrow> c \<in> common_of p ` matching_keys (store w) p"
    and page_sound: "i \<in> set (fst (os_ListObjectsPage os p after n w)) \<Longrightarrow>
      prefix p (oi_Key i) \<and> (\<exists>st. store w (oi_Key i) = Some st \<and> oi_Size i = int (length (so_Body st)))"

locale reliable_storage = object_storage +
  assumes exists_iff: "os_ObjectExists os nm w \<longleftrightarrow> (\<exists>k \<in> dom (store w). prefix (nm @ ''/'') k)"
    and add_total: "sized_entry f d \<Longrightarrow> fst (os_AddObject os k f integrity w) = None"
    and bytes_total: "fst (os_AddBytes os k d ct integrity w) = None"
    and remove_total: "fst (os_RemoveObjects os p w) = None"
    and object_total: "\<exists>ob. os_GetObject os k w = Inr ob \<and> (store w k \<noteq> None \<longrightarrow> (\<exists>i. Stat ob = Inr i))"
    and prefixes_set: "distinct (os_ListCommonPrefixes os p w) \<and>
      set (os_ListCommonPrefixes os p w) = common_of p ` matching_keys (store w) p"
    and page_eq: "0 \<le> n \<Longrightarrow> map oi_Key (fst (os_ListObjectsPage os p after n w)) = take (nat n) (keys_after (store w) p after) \<and>
      snd (os_ListObjectsPage os p after n w) = (nat n < length (keys_after (store w) p after))"

subsection \<open>The manager meets the contract\<close>

lemma page_loop_eq:
  assumes "0 \<le> n" and "int (length acc) \<le> n" and "\<And>i. i \<in> set xs \<Longrightarrow> oi_Err i = None"
  shows "page_loop n acc xs = (take (nat n) (acc @ xs), nat n < length (acc @ xs))"
  using assms
proof (induction n acc xs rule: page_loop.induct)
  case (2 n acc x xs)
  show ?case
  proof (cases "int (length acc) = n")
    case True
    with 2 show ?thesis by auto
  next
    case False
    with 2 show ?thesis by simp
  qed
qed auto

lemma page_loop_subset: "set (fst (page_loop n acc xs)) \<subseteq> set acc \<union> {i \<in> set xs. oi_Err i = None}"
  by (induction n acc xs rule: page_loop.induct) auto

lemma keys_after_set: "finite (dom st) \<Longrightarrow>
  set (keys_after st p after) = {k \<in> dom st. prefix p k \<and> (after = '''' \<or> after < k)}"
  by (simp add: keys_after_def)

lemma sint_small: "unat w < 2 ^ 63 \<Longrightarrow> sint w = int (unat w)" for w :: "64 word"
proof -
  assume "unat w < 2 ^ 63"
  then have "int (unat w) < int (2 ^ 63)" by (simp only: of_nat_less_iff)
  then have "uint w < 2 ^ 63" by simp
  moreover have "- (2 ^ 63) \<le> uint w" by (rule order.trans [OF _ uint_ge_0]) simp
  ultimately show ?thesis by (simp add: sint_uint signed_take_bit_int_eq_self)
qed

lemmas manager_defs = storage_iface_def AddObject_def AddBytes_def GetObject_def RemoveObjects_def
  ObjectExists_def ListObjectsPage_def ListCommonPrefixes_def Let_def

lemma put_options_meta: "po_UserMetadata (put_options ct integrity) IntegrityMetadataKey =
  (if integrity = '''' then None else Some integrity)"
  by (simp add: put_options_def)

context s3_service
begin

lemma listed_set:
  assumes "lo_Recursive opts" and "\<And>i. i \<in> set (client_ListObjects cl b opts w) \<Longrightarrow> oi_Err i = None"
  shows "oi_Key ` set (client_ListObjects cl b opts w) =
    {k \<in> dom (objs b w). prefix (lo_Prefix opts) k \<and> (lo_StartAfter opts = '''' \<or> lo_StartAfter opts < k)}"
  using list_recursive [OF assms] keys_after_set [OF finite_objs] by (metis list.set_map)

lemma put_ok':
  assumes "PutObject cl b k \<lparr>rd_data = d, rd_err = None\<rparr> (int (length d)) (put_options ct integrity) w = (None, w')"
  shows "\<exists>st. objs b w' = (objs b w)(k \<mapsto> st) \<and> carries st d integrity \<and> so_ContentType st = ct"
  by (rule exI [of _ "\<lparr>so_Body = d, so_ContentType = ct, so_UserMetadata = po_UserMetadata (put_options ct integrity)\<rparr>"])
    (use put_ok [OF assms] put_options_meta [of ct integrity] in \<open>simp add: carries_def put_options_def\<close>)

lemma put_carries:
  assumes "PutObject cl b k \<lparr>rd_data = d, rd_err = None\<rparr> (int (length d)) (put_options ct integrity) w = (None, w')"
  shows "\<exists>st. objs b w' = (objs b w)(k \<mapsto> st) \<and> carries st d integrity"
  using put_ok' [OF assms] by blast

lemma sized_reader:
  assumes "sized_entry f d" and "Open f = Inr rd"
  shows "rd = \<lparr>rd_data = d, rd_err = None\<rparr>" and "sint (UncompressedSize64 f) = int (length d)"
  using assms by (auto simp: sized_entry_def sint_small)

lemma remove_objects_frame:
  assumes "RemoveObjects \<lparr>client = cl, bucketName = b, location = l\<rparr> p w = (e, w')" and "\<not> prefix p k"
  shows "objs b w' k = objs b w k"
proof -
  let ?ls = "client_ListObjects cl b (list_all_options p) w"
  obtain errs w1 where rm: "client_RemoveObjects cl b (filter (\<lambda>i. oi_Err i = None) ?ls) w = (errs, w1)"
    by fastforce
  have "k \<notin> oi_Key ` set (filter (\<lambda>i. oi_Err i = None) ?ls)"
    using list_sound [where opts = "list_all_options p"] assms(2) by (auto simp: list_all_options_def)
  with remove_frame [OF rm] have "objs b w1 k = objs b w k" by blast
  with assms(1) rm show ?thesis by (auto simp: manager_defs split: if_splits)
qed

lemma remove_objects_ok:
  assumes "RemoveObjects \<lparr>client = cl, bucketName = b, location = l\<rparr> p w = (None, w')"
  shows "objs b w' = (\<lambda>k. if prefix p k then None else objs b w k)"
proof -
  let ?ls = "client_ListObjects cl b (list_all_options p) w"
  obtain errs w1 where rm: "client_RemoveObjects cl b (filter (\<lambda>i. oi_Err i = None) ?ls) w = (errs, w1)"
    by fastforce
  from assms rm have errs: "errs = []" "w1 = w'" and ok: "filter (\<lambda>i. oi_Err i \<noteq> None) ?ls = []"
    by (auto simp: manager_defs split: if_splits)
  from ok have clean: "\<And>i. i \<in> set ?ls \<Longrightarrow> oi_Err i = None" by (auto simp: filter_empty_conv)
  then have all: "filter (\<lambda>i. oi_Err i = None) ?ls = ?ls" by simp
  have "oi_Key ` set ?ls = {k \<in> dom (objs b w). prefix p k}"
    using listed_set [of "list_all_options p"] clean by (simp add: list_all_options_def)
  then have "objs b w' k = None" if "prefix p k" for k
    using remove_gone [OF rm, of k] remove_frame [OF rm, of b k] errs that unfolding all
    by (cases "k \<in> dom (objs b w)") auto
  with remove_objects_frame [OF assms] show ?thesis by auto
qed

end

lemma sized_not_dir: "sized_entry f d \<Longrightarrow> \<not> IsDir f \<and> (\<exists>rd. Open f = Inr rd)"
  by (auto simp: sized_entry_def)

sublocale s3_service \<subseteq> storage: object_storage "storage_iface mime \<lparr>client = cl, bucketName = b, location = l\<rparr>" "objs b"
  for mime b l
proof
  let ?os = "storage_iface mime \<lparr>client = cl, bucketName = b, location = l\<rparr>"
  show "finite (dom (objs b w))" for w by (rule finite_objs)
  show "\<exists>st. objs b w' = (objs b w)(k \<mapsto> st) \<and> carries st d integrity"
    if "os_AddObject ?os k f integrity w = (None, w')" and "sized_entry f d" for k f integrity w w' d
    using that sized_not_dir [OF that(2)] sized_reader [OF that(2)]
    by (auto simp: manager_defs split: prod.splits option.splits intro: put_carries)
  show "objs b w' k' = objs b w k'"
    if "os_AddObject ?os k f integrity w = (e, w')" and "k' \<noteq> k" for k f integrity w e w' k'
    using that by (auto simp: manager_defs put_frame split: prod.splits option.splits sum.splits if_splits)
  show "\<exists>st. objs b w' = (objs b w)(k \<mapsto> st) \<and> carries st d integrity \<and> so_ContentType st = ct"
    if "os_AddBytes ?os k d ct integrity w = (None, w')" for k d ct integrity w w'
    using that by (auto simp: manager_defs split: prod.splits option.splits dest: put_ok')
  show "objs b w' k' = objs b w k'"
    if "os_AddBytes ?os k d ct integrity w = (e, w')" and "k' \<noteq> k" for k d ct integrity w e w' k'
    using that by (auto simp: manager_defs put_frame split: prod.splits option.splits)
  show "Err e \<noteq> None" if "os_AddObject ?os k f integrity w = (Some e, w')" for k f integrity w e w'
    using that by (auto simp: manager_defs NewBusinessError_def split: prod.splits option.splits sum.splits if_splits)
  show "Err e \<noteq> None" if "os_AddBytes ?os k d ct integrity w = (Some e, w')" for k d ct integrity w e w'
    using that by (auto simp: manager_defs NewBusinessError_def split: prod.splits option.splits)
  show "\<exists>k \<in> dom (objs b w). prefix (nm @ ''/'') k" if "os_ObjectExists ?os nm w" for nm w
    using that list_sound [where opts = "list_all_options (nm @ ''/'')"]
    by (fastforce simp: manager_defs list_all_options_def list_ex_iff)
  show "\<exists>st. objs b w k = Some st \<and> Body ob = so_Body st \<and> describes i st"
    if "os_GetObject ?os k w = Inr ob" and "Stat ob = Inr i" for k w ob i
    using that by (auto simp: manager_defs split: sum.splits dest: get_sound)
  show "c \<in> common_of p ` matching_keys (objs b w) p" if "c \<in> set (os_ListCommonPrefixes ?os p w)" for c p w
    using that by (auto simp: manager_defs dest: list_folders_sound [rotated 2])
  show "prefix p (oi_Key i) \<and> (\<exists>st. objs b w (oi_Key i) = Some st \<and> oi_Size i = int (length (so_Body st)))"
    if "i \<in> set (fst (os_ListObjectsPage ?os p after n w))" for i p after n w
  proof -
    let ?o = "\<lparr>lo_Prefix = p, lo_Recursive = True, lo_MaxKeys = n + 1, lo_StartAfter = after\<rparr>"
    have "i \<in> set (client_ListObjects cl b ?o w)" and "oi_Err i = None"
      using that page_loop_subset [of n "[]"] by (auto simp: manager_defs)
    with list_sound [of ?o i b w] show ?thesis by simp
  qed
  show "objs b w' = (\<lambda>k. if prefix p k then None else objs b w k)"
    if "os_RemoveObjects ?os p w = (None, w')" for p w w'
    using that by (simp add: storage_iface_def remove_objects_ok)
  show "objs b w' k = objs b w k"
    if "os_RemoveObjects ?os p w = (e, w')" and "\<not> prefix p k" for p w e w' k
    using that by (simp add: storage_iface_def remove_objects_frame)
qed

context s3_reliable
begin

lemma recursive_keys: "lo_Recursive opts \<Longrightarrow>
  map oi_Key (client_ListObjects cl b opts w) = keys_after (objs b w) (lo_Prefix opts) (lo_StartAfter opts)"
  by (rule list_recursive) (simp_all add: list_no_error)

lemma no_error_filter: "filter (\<lambda>i. oi_Err i = None) (client_ListObjects cl b opts w) = client_ListObjects cl b opts w"
  using list_no_error by (auto simp: filter_id_conv)

lemma exists_total:
  "ObjectExists \<lparr>client = cl, bucketName = b, location = l\<rparr> nm w \<longleftrightarrow> (\<exists>k \<in> dom (objs b w). prefix (nm @ ''/'') k)"
proof -
  let ?o = "list_all_options (nm @ ''/'')"
  have "ObjectExists \<lparr>client = cl, bucketName = b, location = l\<rparr> nm w \<longleftrightarrow> oi_Key ` set (client_ListObjects cl b ?o w) \<noteq> {}"
    using list_no_error unfolding image_is_empty set_empty ObjectExists_def list_ex_iff
    by (simp, metis list.set_sel(1) empty_iff empty_set)
  also have "oi_Key ` set (client_ListObjects cl b ?o w) = {k \<in> dom (objs b w). prefix (nm @ ''/'') k}"
    using listed_set [of ?o] list_no_error by (simp add: list_all_options_def)
  finally show ?thesis by blast
qed

lemma page_total:
  assumes "0 \<le> n"
  shows "map oi_Key (fst (ListObjectsPage \<lparr>client = cl, bucketName = b, location = l\<rparr> p after n w)) =
      take (nat n) (keys_after (objs b w) p after)"
    and "snd (ListObjectsPage \<lparr>client = cl, bucketName = b, location = l\<rparr> p after n w) \<longleftrightarrow>
      nat n < length (keys_after (objs b w) p after)"
proof -
  let ?o = "\<lparr>lo_Prefix = p, lo_Recursive = True, lo_MaxKeys = n + 1, lo_StartAfter = after\<rparr>"
  have "page_loop n [] (client_ListObjects cl b ?o w) =
      (take (nat n) (client_ListObjects cl b ?o w), nat n < length (client_ListObjects cl b ?o w))"
    using page_loop_eq [of n "[]"] list_no_error assms by simp
  moreover have keys: "map oi_Key (client_ListObjects cl b ?o w) = keys_after (objs b w) p after"
    using recursive_keys [of ?o] by simp
  moreover have "length (client_ListObjects cl b ?o w) = length (keys_after (objs b w) p after)"
    unfolding keys [symmetric] by simp
  ultimately show "map oi_Key (fst (ListObjectsPage \<lparr>client = cl, bucketName = b, location = l\<rparr> p after n w)) =
      take (nat n) (keys_after (objs b w) p after)"
    and "snd (ListObjectsPage \<lparr>client = cl, bucketName = b, location = l\<rparr> p after n w) \<longleftrightarrow>
      nat n < length (keys_after (objs b w) p after)"
    by (simp_all add: ListObjectsPage_def take_map [symmetric])
qed

lemma remove_objects_total: "fst (RemoveObjects \<lparr>client = cl, bucketName = b, location = l\<rparr> p w) = None"
proof -
  let ?ls = "client_ListObjects cl b (list_all_options p) w"
  have "filter (\<lambda>i. oi_Err i \<noteq> None) ?ls = []" using list_no_error by (auto simp: filter_empty_conv)
  moreover obtain w' where "client_RemoveObjects cl b ?ls w = ([], w')"
    using remove_total [of b ?ls w] by (cases "client_RemoveObjects cl b ?ls w") auto
  ultimately show ?thesis by (simp add: RemoveObjects_def no_error_filter)
qed

end

sublocale s3_reliable \<subseteq> storage: reliable_storage "storage_iface mime \<lparr>client = cl, bucketName = b, location = l\<rparr>" "objs b"
  for mime b l
proof
  let ?os = "storage_iface mime \<lparr>client = cl, bucketName = b, location = l\<rparr>"
  show "os_ObjectExists ?os nm w \<longleftrightarrow> (\<exists>k \<in> dom (objs b w). prefix (nm @ ''/'') k)" for nm w
    by (simp add: storage_iface_def exists_total)
  show "fst (os_AddObject ?os k f integrity w) = None" if "sized_entry f d" for f d k integrity w
    using sized_not_dir [OF that] sized_reader [OF that] put_total [of "\<lparr>rd_data = d, rd_err = None\<rparr>"]
    by (auto simp: manager_defs split: prod.splits option.splits) (metis fst_conv option.distinct(1))+
  show "fst (os_AddBytes ?os k d ct integrity w) = None" for k d ct integrity w
    using put_total [of "\<lparr>rd_data = d, rd_err = None\<rparr>" _ b k "put_options ct integrity" w]
    by (auto simp: manager_defs split: prod.splits option.splits)
  show "fst (os_RemoveObjects ?os p w) = None" for p w
    by (simp add: storage_iface_def remove_objects_total)
  show "\<exists>ob. os_GetObject ?os k w = Inr ob \<and> (objs b w k \<noteq> None \<longrightarrow> (\<exists>i. Stat ob = Inr i))" for k w
    using get_total [of b k w] by (auto simp: manager_defs)
  show "distinct (os_ListCommonPrefixes ?os p w) \<and>
      set (os_ListCommonPrefixes ?os p w) = common_of p ` matching_keys (objs b w) p" for p w
  proof -
    let ?o = "\<lparr>lo_Prefix = p, lo_Recursive = False, lo_MaxKeys = 0, lo_StartAfter = ''''\<rparr>"
    show ?thesis using list_folders [of ?o b w] list_no_error by (simp add: manager_defs no_error_filter)
  qed
  show "map oi_Key (fst (os_ListObjectsPage ?os p after n w)) = take (nat n) (keys_after (objs b w) p after) \<and>
      snd (os_ListObjectsPage ?os p after n w) = (nat n < length (keys_after (objs b w) p after))"
    if "0 \<le> n" for n p after w
    using page_total [OF that] by (simp add: storage_iface_def)
qed

end
