(* ===== verification/Gimme_Cache.thy ===== *)
theory Gimme_Cache
  imports Gimme_Errors "HOL-Library.Word"
begin

text \<open>
  The cache of resolved object paths: the interface CacheManager of internal/cache/cache.go is
  the record \<open>cache_iface\<close> with the locale \<open>cache_manager\<close> as its contract, and
  internal/cache/redis-cache.go is \<open>redisCache\<close> over a Redis client argument, which
  meets the contract (\<open>redis_service\<close> states what the Redis commands document).
  Entries may expire or be lost at any time, so the contract bounds what a cache can hold,
  never what it must hold. A request context is the number of further round trips it lets
  through before the client answers with its error, which bounds the SCAN loop.
\<close>

subsection \<open>Data and the interface\<close>

record CacheEntry =
  ObjectPath :: string

record 'c cache_iface =
  cache_Get :: "string \<Rightarrow> 'c \<Rightarrow> CacheEntry option"
  cache_Set :: "string \<Rightarrow> CacheEntry \<Rightarrow> int \<Rightarrow> 'c \<Rightarrow> go_error option \<times> 'c"
  cache_Delete :: "string \<Rightarrow> 'c \<Rightarrow> go_error option \<times> 'c"
  cache_DeleteByPrefix :: "string \<Rightarrow> 'c \<Rightarrow> go_error option \<times> 'c"

text \<open>No glob character of Redis, so that a pattern built from the prefix means the prefix.\<close>

definition glob_free :: "string \<Rightarrow> bool" where
  "glob_free p \<longleftrightarrow> list_all (\<lambda>c. c \<notin> set ''*?[]'' \<and> of_char c \<noteq> (92 :: nat)) p"

text \<open>JSON keeps an ASCII string as it is; it replaces bytes that are not UTF-8.\<close>

definition ascii_only :: "string \<Rightarrow> bool" where
  "ascii_only s \<longleftrightarrow> list_all (\<lambda>c. of_char c < (128 :: nat)) s"

locale cache_manager =
  fixes ci :: "'c cache_iface" and view :: "'c \<Rightarrow> (string \<rightharpoonup> CacheEntry)"
  assumes get_sound: "cache_Get ci k c = Some e \<Longrightarrow> view c k = Some e"
    and set_bound: "cache_Set ci k e ttl c = (r, c') \<Longrightarrow> view c' k' = Some x \<Longrightarrow>
      view c k' = Some x \<or> k' = k \<and> (ascii_only (ObjectPath e) \<longrightarrow> x = e)"
    and delete_bound: "cache_Delete ci k c = (r, c') \<Longrightarrow> view c' \<subseteq>\<^sub>m view c"
    and delete_gone: "cache_Delete ci k c = (None, c') \<Longrightarrow> view c' k = None"
    and prefix_bound: "cache_DeleteByPrefix ci p c = (r, c') \<Longrightarrow> view c' \<subseteq>\<^sub>m view c"
    and prefix_gone: "cache_DeleteByPrefix ci p c = (None, c') \<Longrightarrow> glob_free p \<Longrightarrow> prefix p k \<Longrightarrow> view c' k = None"

subsection \<open>The Redis cache\<close>

record 'r redis_client =
  redis_Get :: "string \<Rightarrow> 'r \<Rightarrow> go_error + string"
  redis_Set :: "string \<Rightarrow> string \<Rightarrow> int \<Rightarrow> 'r \<Rightarrow> go_error option \<times> 'r"
  redis_Del :: "string list \<Rightarrow> 'r \<Rightarrow> (go_error + int) \<times> 'r"
  redis_Scan :: "64 word \<Rightarrow> string \<Rightarrow> int \<Rightarrow> 'r \<Rightarrow> go_error + (string list \<times> 64 word)"

record entry_codec =
  json_Marshal :: "CacheEntry \<Rightarrow> go_error + string"
  json_Unmarshal :: "string \<Rightarrow> go_error + CacheEntry"

definition redis_cache_Get :: "'r redis_client \<Rightarrow> entry_codec \<Rightarrow> string \<Rightarrow> 'r \<Rightarrow> CacheEntry option" where
  "redis_cache_Get rc js key w =
     (case redis_Get rc key w of
        Inl _ \<Rightarrow> None
      | Inr val \<Rightarrow> (case json_Unmarshal js val of Inl _ \<Rightarrow> None | Inr entry \<Rightarrow> Some entry))"

definition redis_cache_Set ::
  "'r redis_client \<Rightarrow> entry_codec \<Rightarrow> string \<Rightarrow> CacheEntry \<Rightarrow> int \<Rightarrow> 'r \<Rightarrow> go_error option \<times> 'r" where
  "redis_cache_Set rc js key entry ttl w =
     (case json_Marshal js entry of
        Inl e \<Rightarrow> (Some (SerializingCacheEntry e), w)
      | Inr data \<Rightarrow>
          (case redis_Set rc key data ttl w of
             (Some e, w') \<Rightarrow> (Some (StoringCacheEntry key e), w')
           | (None, w') \<Rightarrow> (None, w')))"

definition redis_cache_Delete :: "'r redis_client \<Rightarrow> string \<Rightarrow> 'r \<Rightarrow> go_error option \<times> 'r" where
  "redis_cache_Delete rc key w =
     (case redis_Del rc [key] w of
        (Inl e, w') \<Rightarrow> (Some (DeletingCacheEntry key e), w')
      | (Inr _, w') \<Rightarrow> (None, w'))"

fun scan_loop :: "'r redis_client \<Rightarrow> string \<Rightarrow> nat \<Rightarrow> 64 word \<Rightarrow> 'r \<Rightarrow> go_error option \<times> 'r" where
  "scan_loop rc pfx 0 cursor w = (Some (ScanningKeys pfx ContextDone), w)"
| "scan_loop rc pfx (Suc ctx) cursor w =
     (case redis_Scan rc cursor (pfx @ ''*'') 100 w of
        Inl e \<Rightarrow> (Some (ScanningKeys pfx e), w)
      | Inr (keys, nextCursor) \<Rightarrow>
          (case (if 0 < length keys then redis_Del rc keys w else (Inr 0, w)) of
             (Inl e, w') \<Rightarrow> (Some (DeletingKeys pfx e), w')
           | (Inr n, w') \<Rightarrow>
               if nextCursor = 0 then (None, w') else scan_loop rc pfx ctx nextCursor w'))"

definition redis_cache_DeleteByPrefix :: "'r redis_client \<Rightarrow> nat \<Rightarrow> string \<Rightarrow> 'r \<Rightarrow> go_error option \<times> 'r" where
  "redis_cache_DeleteByPrefix rc ctx pfx w = scan_loop rc pfx ctx 0 w"

definition NewRedisCache :: "'r redis_client \<Rightarrow> entry_codec \<Rightarrow> nat \<Rightarrow> 'r cache_iface" where
  "NewRedisCache rc js ctx =
     \<lparr>cache_Get = redis_cache_Get rc js, cache_Set = redis_cache_Set rc js,
      cache_Delete = redis_cache_Delete rc, cache_DeleteByPrefix = redis_cache_DeleteByPrefix rc ctx\<rparr>"

subsection \<open>What the Redis commands document\<close>

text \<open>A full SCAN iteration, with the data set and the keys of each call.\<close>

inductive scan_iter :: "'r redis_client \<Rightarrow> string \<Rightarrow> int \<Rightarrow> 64 word \<Rightarrow> 'r list \<Rightarrow> string list list \<Rightarrow> bool"
  for rc pat n where
  scan_last: "redis_Scan rc c pat n w = Inr (ks, 0) \<Longrightarrow> scan_iter rc pat n c [w] [ks]"
| scan_more: "redis_Scan rc c pat n w = Inr (ks, c') \<Longrightarrow> c' \<noteq> 0 \<Longrightarrow> scan_iter rc pat n c' ws kss \<Longrightarrow>
    scan_iter rc pat n c (w # ws) (ks # kss)"

locale redis_service =
  fixes rc :: "'r redis_client" and kv :: "'r \<Rightarrow> (string \<rightharpoonup> string)"
  assumes get_value: "redis_Get rc k w = Inr v \<Longrightarrow> kv w k = Some v"
    and set_value: "redis_Set rc k v ttl w = (e, w') \<Longrightarrow> kv w' k' = Some x \<Longrightarrow> kv w k' = Some x \<or> k' = k \<and> x = v"
    and del_shrinks: "redis_Del rc ks w = (r, w') \<Longrightarrow> kv w' \<subseteq>\<^sub>m kv w"
    and del_only: "redis_Del rc ks w = (r, w') \<Longrightarrow> k \<notin> set ks \<Longrightarrow> kv w' k = kv w k"
    and del_removes: "redis_Del rc ks w = (Inr n, w') \<Longrightarrow> k \<in> set ks \<Longrightarrow> kv w' k = None"
    and scan_match: "redis_Scan rc c (p @ ''*'') n w = Inr (ks, c') \<Longrightarrow> glob_free p \<Longrightarrow> k \<in> set ks \<Longrightarrow> prefix p k"
    and scan_complete: "scan_iter rc (p @ ''*'') n 0 ws kss \<Longrightarrow> glob_free p \<Longrightarrow> prefix p k \<Longrightarrow>
      (\<And>w. w \<in> set ws \<Longrightarrow> kv w k \<noteq> None) \<Longrightarrow> \<exists>ks \<in> set kss. k \<in> set ks"

lemma map_le_Some: "m \<subseteq>\<^sub>m m' \<Longrightarrow> m k = Some v \<Longrightarrow> m' k = Some v"
  by (metis domI map_le_def)

context redis_service
begin

lemma maybe_del:
  assumes "(if 0 < length ks then redis_Del rc ks w else (Inr 0, w)) = (r, w')"
  shows "kv w' \<subseteq>\<^sub>m kv w" and "k \<notin> set ks \<Longrightarrow> kv w' k = kv w k"
    and "r = Inr n \<Longrightarrow> k \<in> set ks \<Longrightarrow> kv w' k = None"
  using assms del_shrinks del_only del_removes by (auto split: if_splits)


lemma scan_step:
  assumes "scan_loop rc p (Suc ctx) c w = (r, w')"
  obtains (fail) e where "redis_Scan rc c (p @ ''*'') 100 w = Inl e" and "w' = w" and "r \<noteq> None"
  | (stop) ks c' d where "redis_Scan rc c (p @ ''*'') 100 w = Inr (ks, c')"
      and "(if 0 < length ks then redis_Del rc ks w else (Inr 0, w)) = (d, w')"
      and "(\<exists>e. d = Inl e \<and> r \<noteq> None) \<or> (\<exists>n. d = Inr n) \<and> c' = 0 \<and> r = None"
  | (go) ks c' n w1 where "redis_Scan rc c (p @ ''*'') 100 w = Inr (ks, c')"
      and "(if 0 < length ks then redis_Del rc ks w else (Inr 0, w)) = (Inr n, w1)"
      and "c' \<noteq> 0" and "scan_loop rc p ctx c' w1 = (r, w')"
  using assms by (auto split: sum.splits prod.splits if_splits)

lemma scan_loop_shrinks: "scan_loop rc p ctx c w = (r, w') \<Longrightarrow> kv w' \<subseteq>\<^sub>m kv w"
proof (induction ctx arbitrary: c w)
  case (Suc ctx)
  from Suc.prems show ?case
    by (cases rule: scan_step) (auto intro: maybe_del(1) map_le_trans [OF Suc.IH maybe_del(1)])
qed simp

lemma scan_loop_only:
  assumes "glob_free p" and "\<not> prefix p k"
  shows "scan_loop rc p ctx c w = (r, w') \<Longrightarrow> kv w' k = kv w k"
proof (induction ctx arbitrary: c w)
  case (Suc ctx)
  have out: "k \<notin> set ks" if "redis_Scan rc c (p @ ''*'') 100 w = Inr (ks, c')" for ks c'
    using scan_match [OF that assms(1)] assms(2) by blast
  from Suc.prems show ?case
    by (cases rule: scan_step) (use Suc.IH maybe_del(2) out in \<open>metis+\<close>)
qed simp

lemma scan_loop_iter:
  assumes "scan_loop rc p ctx c w = (None, w')"
  shows "\<exists>ws kss. scan_iter rc (p @ ''*'') 100 c ws kss \<and> (\<forall>w1 \<in> set ws. kv w' \<subseteq>\<^sub>m kv w1) \<and>
    (\<forall>ks \<in> set kss. \<forall>k \<in> set ks. kv w' k = None)"
  using assms
proof (induction ctx arbitrary: c w)
  case (Suc ctx)
  from Suc.prems show ?case
  proof (cases rule: scan_step)
    case (stop ks c' d)
    then have "redis_Scan rc c (p @ ''*'') 100 w = Inr (ks, 0)" by auto
    from scan_last [OF this] stop maybe_del [OF stop(2)] show ?thesis
      by (intro exI [of _ "[w]"] exI [of _ "[ks]"]) auto
  next
    case (go ks c' n w1)
    from Suc.IH [OF go(4)] obtain ws kss where it: "scan_iter rc (p @ ''*'') 100 c' ws kss"
      "\<forall>w1 \<in> set ws. kv w' \<subseteq>\<^sub>m kv w1" "\<forall>ks \<in> set kss. \<forall>k \<in> set ks. kv w' k = None" by blast
    have le: "kv w' \<subseteq>\<^sub>m kv w1" "kv w1 \<subseteq>\<^sub>m kv w"
      using scan_loop_shrinks [OF go(4)] maybe_del(1) [OF go(2)] .
    have "kv w' k = None" if "k \<in> set ks" for k
      using maybe_del(3) [OF go(2) refl that] map_le_Some [OF le(1), of k] by (cases "kv w' k") auto
    with scan_more [OF go(1,3) it(1)] it(2,3) map_le_trans [OF le] show ?thesis
      by (intro exI [of _ "w # ws"] exI [of _ "ks # kss"]) auto
  qed auto
qed simp

lemma scan_loop_gone:
  assumes "scan_loop rc p ctx 0 w = (None, w')" and "glob_free p" and "prefix p k"
  shows "kv w' k = None"
proof (rule ccontr)
  assume "kv w' k \<noteq> None"
  moreover obtain ws kss where it: "scan_iter rc (p @ ''*'') 100 0 ws kss"
      "\<forall>w1 \<in> set ws. kv w' \<subseteq>\<^sub>m kv w1" "\<forall>ks \<in> set kss. \<forall>k \<in> set ks. kv w' k = None"
    using scan_loop_iter [OF assms(1)] by blast
  ultimately have "kv w1 k \<noteq> None" if "w1 \<in> set ws" for w1 using that map_le_Some by fastforce
  then have "\<exists>ks \<in> set kss. k \<in> set ks" by (rule scan_complete [OF it(1) assms(2,3)])
  with it(3) \<open>kv w' k \<noteq> None\<close> show False by auto
qed

end

locale redis_cache_service = redis_service +
  fixes js :: entry_codec
  assumes codec: "json_Marshal js e = Inr d \<Longrightarrow> ascii_only (ObjectPath e) \<Longrightarrow> json_Unmarshal js d = Inr e"
begin

definition entry_view :: "'a \<Rightarrow> string \<Rightarrow> CacheEntry option" where
  "entry_view w k = (case kv w k of None \<Rightarrow> None
     | Some v \<Rightarrow> (case json_Unmarshal js v of Inl _ \<Rightarrow> None | Inr e \<Rightarrow> Some e))"

lemma entry_view_mono: "kv w' \<subseteq>\<^sub>m kv w \<Longrightarrow> entry_view w' \<subseteq>\<^sub>m entry_view w"
  by (auto simp: map_le_def entry_view_def dom_def split: option.splits sum.splits)

lemma entry_view_None: "kv w k = None \<Longrightarrow> entry_view w k = None"
  by (simp add: entry_view_def)

end

sublocale redis_cache_service \<subseteq> cache: cache_manager "NewRedisCache rc js ctx" entry_view for ctx
proof
  let ?ci = "NewRedisCache rc js ctx"
  show "entry_view w k = Some e" if "cache_Get ?ci k w = Some e" for k w e
    using that get_value [of k w]
    by (auto simp: NewRedisCache_def redis_cache_Get_def entry_view_def split: sum.splits)
  show "entry_view w k' = Some x \<or> k' = k \<and> (ascii_only (ObjectPath e) \<longrightarrow> x = e)"
    if set: "cache_Set ?ci k e ttl w = (r, w')" and "entry_view w' k' = Some x" for k e ttl w r w' k' x
  proof (cases "json_Marshal js e")
    case (Inr d)
    then obtain r' where "redis_Set rc k d ttl w = (r', w')"
      using set by (auto simp: NewRedisCache_def redis_cache_Set_def split: prod.splits option.splits)
    with that(2) Inr codec set_value show ?thesis
      by (fastforce simp: entry_view_def split: option.splits sum.splits)
  qed (use that in \<open>auto simp: NewRedisCache_def redis_cache_Set_def\<close>)
  show "entry_view w' \<subseteq>\<^sub>m entry_view w" if "cache_Delete ?ci k w = (r, w')" for k w r w'
    using that by (intro entry_view_mono)
      (auto simp: NewRedisCache_def redis_cache_Delete_def intro: del_shrinks split: prod.splits sum.splits)
  show "entry_view w' k = None" if "cache_Delete ?ci k w = (None, w')" for k w w'
    using that by (intro entry_view_None)
      (auto simp: NewRedisCache_def redis_cache_Delete_def intro: del_removes split: prod.splits sum.splits)
  show "entry_view w' \<subseteq>\<^sub>m entry_view w" if "cache_DeleteByPrefix ?ci p w = (r, w')" for p w r w'
    using that by (intro entry_view_mono scan_loop_shrinks)
      (simp add: NewRedisCache_def redis_cache_DeleteByPrefix_def)
  show "entry_view w' k = None"
    if "cache_DeleteByPrefix ?ci p w = (None, w')" and "glob_free p" and "prefix p k" for p w w' k
    using that by (intro entry_view_None scan_loop_gone)
      (simp_all add: NewRedisCache_def redis_cache_DeleteByPrefix_def)
qed

subsection \<open>A reference Redis\<close>

text \<open>A key-value list whose SCAN answers in one call; it meets the documented behaviour.\<close>

type_synonym mem_redis_world = "(string \<times> string) list"

definition mem_redis :: "mem_redis_world redis_client" where
  "mem_redis =
     \<lparr>redis_Get = (\<lambda>k w. case map_of w k of None \<Rightarrow> Inl (External ''redis: nil'') | Some v \<Rightarrow> Inr v),
      redis_Set = (\<lambda>k v ttl w. (None, (k, v) # w)),
      redis_Del = (\<lambda>ks w. (Inr 0, filter (\<lambda>e. fst e \<notin> set ks) w)),
      redis_Scan = (\<lambda>c pat n w. Inr (filter (\<lambda>k. prefix (butlast pat) k) (map fst w), 0))\<rparr>"

definition mem_codec :: entry_codec where
  "mem_codec = \<lparr>json_Marshal = (\<lambda>e. Inr (ObjectPath e)), json_Unmarshal = (\<lambda>s. Inr \<lparr>ObjectPath = s\<rparr>)\<rparr>"

lemma map_of_filter_fst: "map_of (filter (\<lambda>e. P (fst e)) w) k = (if P k then map_of w k else None)"
  by (induction w) auto

interpretation mem_redis: redis_cache_service mem_redis map_of mem_codec
proof
  show "map_of w k = Some v" if "redis_Get mem_redis k w = Inr v" for k w v
    using that by (auto simp: mem_redis_def split: option.splits)
  show "map_of w k' = Some x \<or> k' = k \<and> x = v"
    if "redis_Set mem_redis k v ttl w = (e, w')" and "map_of w' k' = Some x" for k v ttl w e w' k' x
    using that by (auto simp: mem_redis_def split: if_splits)
  show "map_of w' \<subseteq>\<^sub>m map_of w" if "redis_Del mem_redis ks w = (r, w')" for ks w r w'
    using that by (auto simp: mem_redis_def map_le_def map_of_filter_fst [where P = "\<lambda>k. k \<notin> set ks"] split: if_splits)
  show "map_of w' k = map_of w k" if "redis_Del mem_redis ks w = (r, w')" and "k \<notin> set ks" for ks w r w' k
    using that by (auto simp: mem_redis_def map_of_filter_fst [where P = "\<lambda>k. k \<notin> set ks"])
  show "map_of w' k = None" if "redis_Del mem_redis ks w = (Inr n, w')" and "k \<in> set ks" for ks w n w' k
    using that by (auto simp: mem_redis_def map_of_filter_fst [where P = "\<lambda>k. k \<notin> set ks"])
  show "prefix p k" if "redis_Scan mem_redis c (p @ ''*'') n w = Inr (ks, c')" and "k \<in> set ks" for c p n w ks c' k
    using that by (auto simp: mem_redis_def)
  show "\<exists>ks \<in> set kss. k \<in> set ks"
    if "scan_iter mem_redis (p @ ''*'') n 0 ws kss" and "prefix p k" and "\<And>w. w \<in> set ws \<Longrightarrow> map_of w k \<noteq> None"
    for p n ws kss k
    using that by (cases rule: scan_iter.cases) (auto simp: mem_redis_def simp flip: dom_map_of_conv_image_fst)
  show "json_Unmarshal mem_codec d = Inr e" if "json_Marshal mem_codec e = Inr d" for e d
    using that by (auto simp: mem_codec_def)
qed

subsection \<open>Properties\<close>



end
