(* ===== verification/Gimme_Content.thy ===== *)
theory Gimme_Content
  imports Gimme_Versions Gimme_Storage Gimme_Cache
begin

text \<open>
  The content service, internal/content/content-service.go. The service calls the object
  storage and the cache through their interfaces; packages outside the repository (semver,
  mime, the encoders, SHA-384, Unicode normalisation, the ignore matcher, the zip reader) are
  the record argument \<open>packages\<close>. The state the operations work on is
  \<open>gstate\<close>: the two worlds behind the interfaces and the counters the service bumps.

  An upload runs one goroutine per object. A goroutine is the list of its storage actions
  (\<open>upload_task\<close>: hashing and compression are pure), \<open>group_step\<close> lets one
  goroutine perform its next action, and a schedule, an arbitrary list of goroutine numbers, is
  an argument of \<open>CreatePackage\<close>; the run is completed in index order, so that every
  interleaving of the code is one of the schedules. The order in which Go iterates over the
  variants of a file is the argument \<open>order\<close>.
\<close>

subsection \<open>Data\<close>

record 'f packages =
  pk_semver :: semver_pkg
  pk_mime :: mime_pkg
  pk_enc :: encoders
  pk_sha384 :: "string \<Rightarrow> string"
  pk_NFC :: "string \<Rightarrow> string"
  pk_ignore :: "string list \<Rightarrow> string \<Rightarrow> bool"
  pk_zip :: "'f \<Rightarrow> int \<Rightarrow> go_error + zip_file list"

record ('w, 'c) ContentService =
  objectStorageManager :: "'w osm_iface"
  cacheManager :: "'c cache_iface option"
  cacheTTL :: int
  uploadLimits :: UploadLimits
  compressionEnabled :: bool

record ('w, 'c) gstate =
  gs_storage :: 'w
  gs_cache :: 'c
  PackagesUploadedTotal :: nat
  PackagesDeletedTotal :: nat
  CacheHitsTotal :: nat
  CacheMissesTotal :: nat

record File =
  fl_Name :: string
  fl_Size :: int
  Folder :: bool

record FileListing =
  ls_Version :: string
  Files :: "File list"
  Next :: string
  HasMore :: bool
  Total :: int
  TotalKnown :: bool

definition WithCompression :: "bool \<Rightarrow> ('w, 'c) ContentService \<Rightarrow> ('w, 'c) ContentService" where
  "WithCompression enabled svc = svc\<lparr>compressionEnabled := enabled\<rparr>"

definition NewContentService ::
  "'w osm_iface \<Rightarrow> 'c cache_iface option \<Rightarrow> int \<Rightarrow> UploadLimits \<Rightarrow>
     (('w, 'c) ContentService \<Rightarrow> ('w, 'c) ContentService) list \<Rightarrow> ('w, 'c) ContentService" where
  "NewContentService osm cm ttl limits opts =
     fold (\<lambda>opt svc. opt svc) opts
       \<lparr>objectStorageManager = osm, cacheManager = cm, cacheTTL = ttl, uploadLimits = limits, compressionEnabled = False\<rparr>"

subsection \<open>Versions\<close>

definition resolveVersion ::
  "'f packages \<Rightarrow> ('w, 'c) ContentService \<Rightarrow> string \<Rightarrow> string \<Rightarrow> 'w \<Rightarrow> string option" where
  "resolveVersion pk svc pkg version w =
     resolve_from (pk_semver pk) pkg version (os_ListCommonPrefixes (objectStorageManager svc) (pkg @ ''@'') w)"

definition ListVersions :: "'f packages \<Rightarrow> ('w, 'c) ContentService \<Rightarrow> string \<Rightarrow> 'w \<Rightarrow> string list" where
  "ListVersions pk svc pkg w =
     (if \<not> packageNamePattern pkg then []
      else versions_from (pk_semver pk) pkg (os_ListCommonPrefixes (objectStorageManager svc) (pkg @ ''@'') w))"

subsection \<open>Uploads\<close>

type_synonym archive_map = "key \<rightharpoonup> zip_file"

definition archiveSuppliesVariants :: "archive_map \<Rightarrow> key \<Rightarrow> bool" where
  "archiveSuppliesVariants keys objectKey \<longleftrightarrow>
     list_all (\<lambda>encoding. keys (objectKey @ encoding_suffix encoding) \<noteq> None) encodings"

fun variant_source_loop :: "mime_pkg \<Rightarrow> archive_map \<Rightarrow> key \<Rightarrow> Encoding list \<Rightarrow> zip_file option" where
  "variant_source_loop mime files objectKey [] = None"
| "variant_source_loop mime files objectKey (encoding # es) =
     (case CutSuffix objectKey (encoding_suffix encoding) of (sibling, found) \<Rightarrow>
        if \<not> found then variant_source_loop mime files objectKey es
        else (case files sibling of
            None \<Rightarrow> variant_source_loop mime files objectKey es
          | Some file \<Rightarrow>
              if snd (compressibleContentType mime sibling) then Some file
              else variant_source_loop mime files objectKey es))"

definition encodedVariantSource :: "mime_pkg \<Rightarrow> archive_map \<Rightarrow> key \<Rightarrow> zip_file option" where
  "encodedVariantSource mime files objectKey = variant_source_loop mime files objectKey encodings"

datatype upload_action =
    PutFile key zip_file string
  | PutVariant key string string string
  | FailWith go_error

definition variant_actions ::
  "'f packages \<Rightarrow> bool \<Rightarrow> bool \<Rightarrow> archive_map \<Rightarrow> archiveObject \<Rightarrow> string \<Rightarrow> upload_action list" where
  "variant_actions pk compression flip archiveFiles object integrity =
     (case compressibleContentType (pk_mime pk) (Name (ao_file object)) of (contentType, compressible) \<Rightarrow>
        (let size = unat (UncompressedSize64 (ao_file object))
         in if \<not> compression \<or> \<not> compressible \<or> size < compressionMinSize \<or> compressionMaxSize < size then []
            else if archiveSuppliesVariants archiveFiles (ao_key object) then []
            else (case compressVariants (pk_enc pk) (ao_file object) of
                Inl e \<Rightarrow> [FailWith e]
              | Inr variants \<Rightarrow>
                  map (\<lambda>(encoding, data). PutVariant (ao_key object @ encoding_suffix encoding) data contentType integrity)
                    (filter (\<lambda>(encoding, data). archiveFiles (ao_key object @ encoding_suffix encoding) = None)
                      (if flip then rev variants else variants)))))"

definition hash_source :: "'f packages \<Rightarrow> archive_map \<Rightarrow> archiveObject \<Rightarrow> zip_file" where
  "hash_source pk archiveFiles object =
     (case encodedVariantSource (pk_mime pk) archiveFiles (ao_key object) of
        Some sibling \<Rightarrow> sibling | None \<Rightarrow> ao_file object)"

definition upload_task ::
  "'f packages \<Rightarrow> bool \<Rightarrow> (key \<Rightarrow> bool) \<Rightarrow> archive_map \<Rightarrow> archiveObject \<Rightarrow> upload_action list" where
  "upload_task pk compression order archiveFiles object =
     (case fileIntegrity (pk_sha384 pk) (hash_source pk archiveFiles object) of
        Inl hashErr \<Rightarrow> [FailWith hashErr]
      | Inr integrity \<Rightarrow> PutFile (ao_key object) (ao_file object) integrity #
          variant_actions pk compression (order (ao_key object)) archiveFiles object integrity)"

text \<open>\<open>None\<close>: the goroutine goes on; \<open>Some r\<close>: it returns \<open>r\<close>.\<close>

fun exec_action :: "'w osm_iface \<Rightarrow> upload_action \<Rightarrow> 'w \<Rightarrow> go_error option option \<times> 'w" where
  "exec_action os (PutFile key file integrity) w =
     (case os_AddObject os key file integrity w of (Some err, w') \<Rightarrow> (Some (Err err), w') | (None, w') \<Rightarrow> (None, w'))"
| "exec_action os (PutVariant key data contentType integrity) w =
     (case os_AddBytes os key data contentType integrity w of (Some err, w') \<Rightarrow> (Some (Err err), w') | (None, w') \<Rightarrow> (None, w'))"
| "exec_action os (FailWith e) w = (Some (Some e), w)"

type_synonym 'w group_state = "upload_action list list \<times> 'w \<times> go_error option"

fun group_step :: "'w osm_iface \<Rightarrow> nat \<Rightarrow> 'w group_state \<Rightarrow> 'w group_state" where
  "group_step os i (tasks, w, err) =
     (if i < length tasks
      then (case tasks ! i of
          [] \<Rightarrow> (tasks, w, err)
        | a # rest \<Rightarrow>
            (case exec_action os a w of
               (None, w') \<Rightarrow> (tasks[i := rest], w', err)
             | (Some r, w') \<Rightarrow> (tasks[i := []], w', (if err = None then r else err))))
      else (tasks, w, err))"

definition full_schedule :: "upload_action list list \<Rightarrow> nat list" where
  "full_schedule tasks = concat (map (\<lambda>i. replicate (length (tasks ! i)) i) [0..<length tasks])"

definition run_group :: "'w osm_iface \<Rightarrow> nat list \<Rightarrow> upload_action list list \<Rightarrow> 'w \<Rightarrow> 'w group_state" where
  "run_group os sched tasks w = fold (group_step os) (sched @ full_schedule tasks) (tasks, w, None)"

definition rollbackPartialUpload ::
  "('w, 'c) ContentService \<Rightarrow> string \<Rightarrow> go_error \<Rightarrow> 'w \<Rightarrow> GimmeError \<times> 'w" where
  "rollbackPartialUpload svc folderName uploadErr w =
     (case os_RemoveObjects (objectStorageManager svc) (folderName @ ''/'') w of
        (Some _, w') \<Rightarrow> (NewBusinessError InternalError (UploadFailedNotRemoved uploadErr folderName), w')
      | (None, w') \<Rightarrow> (NewBusinessError InternalError (UploadFailed uploadErr), w'))"

definition archive_map_of :: "archiveObject list \<Rightarrow> archive_map" where
  "archive_map_of objects = map_of (rev (map (\<lambda>ob. (ao_key ob, ao_file ob)) objects))"

definition upload_objects ::
  "'f packages \<Rightarrow> ('w, 'c) ContentService \<Rightarrow> nat list \<Rightarrow> (key \<Rightarrow> bool) \<Rightarrow> archiveObject list \<Rightarrow> 'w \<Rightarrow> go_error option \<times> 'w" where
  "upload_objects pk svc sched order objects w =
     (case run_group (objectStorageManager svc) sched
         (map (upload_task pk (compressionEnabled svc) order (archive_map_of objects)) objects) w of
        (_, w', err) \<Rightarrow> (err, w'))"

definition CreatePackage ::
  "'f packages \<Rightarrow> ('w, 'c) ContentService \<Rightarrow> nat list \<Rightarrow> (key \<Rightarrow> bool) \<Rightarrow> string \<Rightarrow> string \<Rightarrow> 'f \<Rightarrow> int \<Rightarrow>
     ('w, 'c) gstate \<Rightarrow> GimmeError option \<times> ('w, 'c) gstate" where
  "CreatePackage pk svc sched order name version file fileSize s =
     (case validatePackageIdentity (pk_semver pk) name version of
        Some err \<Rightarrow> (Some (NewBusinessError BadRequest err), s)
      | None \<Rightarrow>
     if 0 < MaxSize (uploadLimits svc) \<and> MaxSize (uploadLimits svc) < fileSize
     then (Some (NewBusinessError PayloadTooLarge (RequestTooLarge (MaxSize (uploadLimits svc)))), s)
     else (case pk_zip pk file fileSize of
        Inl _ \<Rightarrow> (Some (NewBusinessError InternalError ReadingZip), s)
      | Inr archive \<Rightarrow>
     (case checkArchiveLimits (uploadLimits svc) archive of
        Some limitErr \<Rightarrow> (Some limitErr, s)
      | None \<Rightarrow>
     (let folderName = name @ ''@'' @ version
      in if os_ObjectExists (objectStorageManager svc) folderName (gs_storage s)
         then (Some (NewBusinessError Conflict (PackageExists folderName)), s)
         else (case archiveKeys (pk_NFC pk) (pk_ignore pk) archive folderName of
            Inl validationErr \<Rightarrow> (Some validationErr, s)
          | Inr objects \<Rightarrow>
              (case upload_objects pk svc sched order objects (gs_storage s) of
                 (Some err, w) \<Rightarrow>
                   (case rollbackPartialUpload svc folderName err w of (e, w') \<Rightarrow> (Some e, s\<lparr>gs_storage := w'\<rparr>))
               | (None, w) \<Rightarrow>
                   (None, s\<lparr>gs_storage := w, PackagesUploadedTotal := PackagesUploadedTotal s + 1\<rparr>)))))))"

subsection \<open>Serving files\<close>

fun encoded_loop :: "'w osm_iface \<Rightarrow> string \<Rightarrow> Encoding list \<Rightarrow> 'w \<Rightarrow> (s3_object \<times> Encoding) option" where
  "encoded_loop os objectPath [] w = None"
| "encoded_loop os objectPath (encoding # es) w =
     (case os_GetObject os (objectPath @ encoding_suffix encoding) w of
        Inl _ \<Rightarrow> encoded_loop os objectPath es w
      | Inr obj \<Rightarrow> (case Stat obj of Inr _ \<Rightarrow> Some (obj, encoding) | Inl _ \<Rightarrow> encoded_loop os objectPath es w))"

definition getEncodedObject ::
  "'f packages \<Rightarrow> ('w, 'c) ContentService \<Rightarrow> string \<Rightarrow> string \<Rightarrow> Encoding list \<Rightarrow> 'w \<Rightarrow> GimmeError + (s3_object \<times> Encoding)" where
  "getEncodedObject pk svc objectPath fileName accepted w =
     (case (if snd (compressibleContentType (pk_mime pk) fileName)
            then encoded_loop (objectStorageManager svc) objectPath accepted w else None) of
        Some r \<Rightarrow> Inr r
      | None \<Rightarrow>
          (case os_GetObject (objectStorageManager svc) objectPath w of
             Inl err \<Rightarrow> Inl err
           | Inr obj \<Rightarrow> Inr (obj, '''')))"

definition file_path :: "'f packages \<Rightarrow> ('w, 'c) ContentService \<Rightarrow> string \<Rightarrow> string \<Rightarrow> string \<Rightarrow> 'w \<Rightarrow> string" where
  "file_path pk svc pkg version fileName w =
     (if IsPinnedVersion (pk_semver pk) version then pkg @ ''@'' @ version @ fileName
      else (let version' = (case resolveVersion pk svc pkg version w of Some resolved \<Rightarrow> resolved | None \<Rightarrow> version)
            in pkg @ ''@'' @ version' @ ''/'' @ TrimLeft fileName (CHR ''/'')))"

definition GetFile ::
  "'f packages \<Rightarrow> ('w, 'c) ContentService \<Rightarrow> string \<Rightarrow> string \<Rightarrow> string \<Rightarrow> Encoding list \<Rightarrow> ('w, 'c) gstate \<Rightarrow>
     (GimmeError + (s3_object \<times> Encoding)) \<times> ('w, 'c) gstate" where
  "GetFile pk svc pkg version fileName accepted s =
     (if \<not> (version = latestVersionAlias \<or> IsValid (pk_semver pk) (''v'' @ version))
      then (Inl (NewBusinessError BadRequest InvalidVersion), s)
      else
     (let pinned = IsPinnedVersion (pk_semver pk) version;
          cacheKey = pkg @ ''@'' @ version @ fileName;
          fetch = (\<lambda>objectPath. getEncodedObject pk svc objectPath fileName accepted (gs_storage s));
          objectPath = file_path pk svc pkg version fileName (gs_storage s)
      in (case (if pinned then None else cacheManager svc) of
            None \<Rightarrow> (fetch objectPath, s)
          | Some cm \<Rightarrow>
              (case cache_Get cm cacheKey (gs_cache s) of
                 Some entry \<Rightarrow> (fetch (ObjectPath entry), s\<lparr>CacheHitsTotal := CacheHitsTotal s + 1\<rparr>)
               | None \<Rightarrow>
                   (let s' = s\<lparr>CacheMissesTotal := CacheMissesTotal s + 1\<rparr>
                    in (case fetch objectPath of
                          Inl err \<Rightarrow> (Inl err, s')
                        | Inr r \<Rightarrow>
                            (Inr r, s'\<lparr>gs_cache := snd (cache_Set cm cacheKey \<lparr>ObjectPath = objectPath\<rparr>
                               (cacheTTL svc) (gs_cache s))\<rparr>)))))))"

subsection \<open>Listing files\<close>

definition seedBoundaryKeys :: "string set \<Rightarrow> string \<Rightarrow> string set" where
  "seedBoundaryKeys keys after =
     (if after = '''' then keys
      else fold (\<lambda>encoding ks. case CutSuffix after (encoding_suffix encoding) of (sibling, found) \<Rightarrow>
                   if found then insert sibling ks else ks) encodings (insert after keys))"

definition isEncodedVariant :: "mime_pkg \<Rightarrow> string \<Rightarrow> string set \<Rightarrow> bool" where
  "isEncodedVariant mime key keys \<longleftrightarrow>
     list_ex (\<lambda>encoding. case CutSuffix key (encoding_suffix encoding) of (sibling, found) \<Rightarrow>
       found \<and> sibling \<in> keys \<and> snd (compressibleContentType mime sibling)) encodings"

text \<open>
  The two nested loops of \<open>GetFiles\<close>; a collected file carries its cursor.
  \<open>None\<close> is a call that does not return a listing: the loop goes on for ever, or the
  index by a negative limit panics.
\<close>

fun collect_page ::
  "mime_pkg \<Rightarrow> int \<Rightarrow> string set \<Rightarrow> string \<Rightarrow> (File \<times> string) list \<Rightarrow> ObjectInfo list \<Rightarrow> string \<times> (File \<times> string) list" where
  "collect_page mime limit keys cursor collected [] = (cursor, collected)"
| "collect_page mime limit keys cursor collected (object # objects) =
     (if isEncodedVariant mime (oi_Key object) keys
      then collect_page mime limit keys (oi_Key object) collected objects
      else (let collected' = collected @ [(\<lparr>fl_Name = oi_Key object, fl_Size = oi_Size object, Folder = False\<rparr>, cursor)]
            in if limit < int (length collected') then (oi_Key object, collected')
               else collect_page mime limit keys (oi_Key object) collected' objects))"

partial_function (option) files_loop ::
  "mime_pkg \<Rightarrow> 'w osm_iface \<Rightarrow> string \<Rightarrow> int \<Rightarrow> 'w \<Rightarrow> string \<Rightarrow> string set \<Rightarrow> (File \<times> string) list \<Rightarrow> (File \<times> string) list option" where
  "files_loop mime os pfx limit w cursor keys collected =
     (if limit < int (length collected) then Some collected
      else (let page = os_ListObjectsPage os pfx cursor limit w;
                keys' = keys \<union> oi_Key ` set (fst page);
                next = collect_page mime limit keys' cursor collected (fst page)
            in if fst page = [] then Some collected
               else if \<not> snd page then Some (snd next)
               else files_loop mime os pfx limit w (fst next) keys' (snd next)))"

declare files_loop.simps [code]

definition GetFiles ::
  "'f packages \<Rightarrow> ('w, 'c) ContentService \<Rightarrow> string \<Rightarrow> string \<Rightarrow> string \<Rightarrow> int \<Rightarrow> 'w \<Rightarrow> FileListing option" where
  "GetFiles pk svc pkg version after limit w =
     (let empty = (\<lambda>v. \<lparr>ls_Version = v, Files = [], Next = '''', HasMore = False, Total = 0, TotalKnown = False\<rparr>);
          resolved = (if IsPinnedVersion (pk_semver pk) version then Some version else resolveVersion pk svc pkg version w)
      in (case resolved of
            None \<Rightarrow> Some (empty version)
          | Some v \<Rightarrow>
              if limit < 0 then None
              else (let pfx = pkg @ ''@'' @ v @ ''/'';
                   os = objectStorageManager svc;
                   singlePage = (after = '''' \<and> \<not> snd (os_ListObjectsPage os pfx after limit w))
               in (case files_loop (pk_mime pk) os pfx limit w after (seedBoundaryKeys {} after) [] of
                     None \<Rightarrow> None
                   | Some collected \<Rightarrow>
                       (let hasMore = limit < int (length collected);
                            files = map fst (take (nat limit) collected)
                        in Some ((empty v)\<lparr>Files := files, HasMore := hasMore,
                             Next := (if hasMore then snd (collected ! nat limit) else ''''),
                             Total := int (length files),
                             TotalKnown := singlePage \<and> \<not> hasMore\<rparr>))))))"

subsection \<open>Deletion\<close>

fun invalidate :: "'c cache_iface \<Rightarrow> string list \<Rightarrow> 'c \<Rightarrow> 'c" where
  "invalidate cm [] c = c"
| "invalidate cm (p # ps) c = invalidate cm ps (snd (cache_DeleteByPrefix cm p c))"

definition DeletePackage ::
  "'f packages \<Rightarrow> ('w, 'c) ContentService \<Rightarrow> string \<Rightarrow> string \<Rightarrow> ('w, 'c) gstate \<Rightarrow> GimmeError option \<times> ('w, 'c) gstate" where
  "DeletePackage pk svc pkg version s =
     (case validatePackageIdentity (pk_semver pk) pkg version of
        Some err \<Rightarrow> (Some (NewBusinessError BadRequest err), s)
      | None \<Rightarrow>
          (let pfx = pkg @ ''@'' @ version
           in (case os_RemoveObjects (objectStorageManager svc) (pfx @ ''/'') (gs_storage s) of
                 (Some err, w') \<Rightarrow> (Some err, s\<lparr>gs_storage := w'\<rparr>)
               | (None, w') \<Rightarrow>
                   (None, s\<lparr>gs_storage := w',
                      gs_cache := (case cacheManager svc of None \<Rightarrow> gs_cache s
                        | Some cm \<Rightarrow> invalidate cm (pfx # mutableAliasPrefixes pkg version) (gs_cache s)),
                      PackagesDeletedTotal := PackagesDeletedTotal s + 1\<rparr>))))"

end
