(* ===== verification/Gimme_Upload.thy ===== *)
theory Gimme_Upload
  imports Gimme_Content
begin

text \<open>
  Uploads: what \<open>CreatePackage\<close> leaves in the object storage, for every interleaving of
  its goroutines and every order of the variants. The facts about the goroutines are proved in
  the contract of the storage interface (\<open>object_storage\<close>), the properties are stated
  for any storage that meets it.
\<close>

subsection \<open>Every interleaving of an upload\<close>

fun action_keys :: "upload_action list \<Rightarrow> key list" where
  "action_keys [] = []"
| "action_keys (PutFile k f i # as) = k # action_keys as"
| "action_keys (PutVariant k d ct i # as) = k # action_keys as"
| "action_keys (FailWith e # as) = action_keys as"

lemma action_keys_Cons: "set (action_keys as) \<subseteq> set (action_keys (a # as))"
  by (cases a) auto

definition group_keys :: "upload_action list list \<Rightarrow> key list" where
  "group_keys tasks = concat (map action_keys tasks)"

lemma group_keys_split:
  assumes "i < length ts"
  shows "group_keys (ts[i := as]) = group_keys (take i ts) @ action_keys as @ group_keys (drop (Suc i) ts)"
  using assms by (simp add: group_keys_def upd_conv_take_nth_drop)

lemma group_keys_nth:
  assumes "i < length ts" and "ts ! i = a # as"
  shows "group_keys ts = group_keys (take i ts) @ action_keys (a # as) @ group_keys (drop (Suc i) ts)"
  using group_keys_split [OF assms(1), of "a # as"] unfolding assms(2) [symmetric] list_update_id .

lemma action_keys_step: "action_keys (a # as) = action_keys [a] @ action_keys as"
  by (cases a) auto

lemma group_keys_step:
  assumes "i < length ts" and "ts ! i = a # as"
  shows "set (group_keys (ts[i := as])) \<subseteq> set (group_keys ts)"
    and "set (group_keys (ts[i := []])) \<subseteq> set (group_keys ts)"
    and "set (action_keys [a]) \<subseteq> set (group_keys ts)"
    and "distinct (group_keys ts) \<Longrightarrow>
      distinct (group_keys (ts[i := as])) \<and> set (action_keys [a]) \<inter> set (group_keys (ts[i := as])) = {}"
  unfolding group_keys_nth [OF assms] group_keys_split [OF assms(1)] action_keys_step [of a as] by auto

context object_storage
begin

definition performed :: "upload_action \<Rightarrow> 'w \<Rightarrow> bool" where
  "performed a w \<longleftrightarrow> (case a of
     PutFile k f integrity \<Rightarrow> (\<forall>d. sized_entry f d \<longrightarrow> (\<exists>st. store w k = Some st \<and> carries st d integrity))
   | PutVariant k d ct integrity \<Rightarrow> (\<exists>st. store w k = Some st \<and> carries st d integrity \<and> so_ContentType st = ct)
   | FailWith e \<Rightarrow> False)"

lemma performed_cong:
  "(\<And>k. k \<in> set (action_keys [a]) \<Longrightarrow> store w' k = store w k) \<Longrightarrow> performed a w \<Longrightarrow> performed a w'"
  by (cases a) (auto simp: performed_def)

lemma exec_frame: "exec_action os a w = (r, w') \<Longrightarrow> k \<notin> set (action_keys [a]) \<Longrightarrow> store w' k = store w k"
  by (cases a) (auto split: prod.splits option.splits dest: add_frame bytes_frame)

lemma exec_ok: "exec_action os a w = (None, w') \<Longrightarrow> performed a w'"
proof (cases a)
  case (PutFile k f integrity)
  then show "performed a w'" if "exec_action os a w = (None, w')"
    using that add_ok [of k f integrity w w'] by (fastforce simp: performed_def split: prod.splits option.splits)
next
  case (PutVariant k d ct integrity)
  then show "performed a w'" if "exec_action os a w = (None, w')"
    using that bytes_ok [of k d ct integrity w w'] by (fastforce simp: performed_def split: prod.splits option.splits)
qed auto

lemma exec_err: "exec_action os a w = (Some r, w') \<Longrightarrow> r \<noteq> None"
  by (cases a) (auto split: prod.splits option.splits dest: add_err bytes_err)

lemma step_cases:
  obtains (idle) "group_step os i (ts, w, err) = (ts, w, err)"
  | (act) a as w' where "i < length ts" and "ts ! i = a # as" and "exec_action os a w = (None, w')"
      and "group_step os i (ts, w, err) = (ts[i := as], w', err)"
  | (fail) a as e w' where "i < length ts" and "ts ! i = a # as" and "exec_action os a w = (Some (Some e), w')"
      and "group_step os i (ts, w, err) = (ts[i := []], w', (if err = None then Some e else err))"
proof (cases "i < length ts \<and> ts ! i \<noteq> []")
  case True
  then obtain a as where a: "ts ! i = a # as" by (cases "ts ! i") auto
  obtain r w' where x: "exec_action os a w = (r, w')" by fastforce
  from exec_err [of a w] a x True act fail show thesis by (cases r) auto
qed (use idle in \<open>auto split: list.splits\<close>)

lemma group_frame:
  "fold (group_step os) sched (ts, w, err) = (ts', w', err') \<Longrightarrow> k \<notin> set (group_keys ts) \<Longrightarrow> store w' k = store w k"
proof (induction sched arbitrary: ts w err)
  case (Cons i sched)
  show ?case
  proof (cases i ts w err rule: step_cases)
    case (act a as w1)
    have "fold (group_step os) sched (ts[i := as], w1, err) = (ts', w', err')" using Cons.prems(1) act(4) by simp
    then have "store w' k = store w1 k"
      by (rule Cons.IH) (use Cons.prems(2) group_keys_step(1) [OF act(1,2)] in blast)
    also have "\<dots> = store w k" by (rule exec_frame [OF act(3)]) (use Cons.prems(2) group_keys_step(3) [OF act(1,2)] in blast)
    finally show ?thesis .
  next
    case (fail a as e w1)
    have "fold (group_step os) sched (ts[i := []], w1, if err = None then Some e else err) = (ts', w', err')"
      using Cons.prems(1) fail(4) by simp
    then have "store w' k = store w1 k"
      by (rule Cons.IH) (use Cons.prems(2) group_keys_step(2) [OF fail(1,2)] in blast)
    also have "\<dots> = store w k" by (rule exec_frame [OF fail(3)]) (use Cons.prems(2) group_keys_step(3) [OF fail(1,2)] in blast)
    finally show ?thesis .
  qed (use Cons in auto)
qed simp

lemma group_error_stays: "fold (group_step os) sched (ts, w, Some e) = (ts', w', err') \<Longrightarrow> err' = Some e"
proof (induction sched arbitrary: ts w)
  case (Cons i sched)
  show ?case by (cases i ts w "Some e" rule: step_cases) (use Cons in auto)
qed simp

lemma group_success:
  "fold (group_step os) sched (ts, w, err) = (ts', w', None) \<Longrightarrow> distinct (group_keys ts) \<Longrightarrow> j < length ts \<Longrightarrow>
     \<exists>n. ts' ! j = drop n (ts ! j) \<and> (\<forall>a \<in> set (take n (ts ! j)). performed a w')"
proof (induction sched arbitrary: ts w err)
  case Nil
  then show ?case by (intro exI [of _ 0]) simp
next
  case (Cons i sched)
  show ?case
  proof (cases i ts w err rule: step_cases)
    case (act a as w1)
    let ?ts = "ts[i := as]"
    have run: "fold (group_step os) sched (?ts, w1, err) = (ts', w', None)" using Cons.prems(1) act(4) by simp
    have d: "distinct (group_keys ?ts)" and out: "set (action_keys [a]) \<inter> set (group_keys ?ts) = {}"
      using group_keys_step(4) [OF act(1,2) Cons.prems(2)] by auto
    have "performed a w'"
      using performed_cong [OF _ exec_ok [OF act(3)]] group_frame [OF run] out by blast
    from Cons.IH [OF run d] Cons.prems(3) obtain n where
      n: "ts' ! j = drop n (?ts ! j)" "\<forall>a \<in> set (take n (?ts ! j)). performed a w'" by auto
    with act(1,2) \<open>performed a w'\<close> show ?thesis
      by (cases "j = i") (auto intro!: exI [of _ "if j = i then Suc n else n"])
  next
    case (fail a as e w1)
    with Cons.prems(1) group_error_stays show ?thesis by (cases err) fastforce+
  qed (use Cons in auto)
qed

end

subsection \<open>A run completes every goroutine\<close>

lemma count_replicate: "count_list (replicate n x) y = (if x = y then n else 0)"
  by (induction n) auto

lemma count_blocks: "count_list (concat (map (\<lambda>i. replicate (f i) i) [0..<n])) j = (if j < n then f j else 0)"
  by (induction n) (auto simp: count_replicate)

lemma group_step_length:
  "length (fst (group_step os i (ts, w, err))) = length ts"
  "j < length ts \<Longrightarrow> length (fst (group_step os i (ts, w, err)) ! j) \<le> length (ts ! j) - (if i = j then 1 else 0)"
  by (auto simp: nth_list_update split: list.splits option.splits prod.splits)

lemma group_length:
  "fold (group_step os) sched (ts, w, err) = (ts', w', err') \<Longrightarrow>
     length ts' = length ts \<and> (\<forall>j < length ts. length (ts' ! j) \<le> length (ts ! j) - count_list sched j)"
proof (induction sched arbitrary: ts w err)
  case (Cons i sched)
  obtain ts1 w1 err1 where step: "group_step os i (ts, w, err) = (ts1, w1, err1)" by (metis prod_cases3)
  note one = group_step_length [where os = os and i = i and ts = ts and w = w and err = err, unfolded step fst_conv]
  from Cons.prems step have "fold (group_step os) sched (ts1, w1, err1) = (ts', w', err')" by simp
  from Cons.IH [OF this] one show ?case by (fastforce split: if_splits)
qed simp

lemma run_group_done:
  assumes "run_group os sched ts w = (ts', w', err)" and "j < length ts"
  shows "ts' ! j = []"
  using group_length [OF assms(1) [unfolded run_group_def]] assms(2)
  by (simp add: full_schedule_def count_blocks)

subsection \<open>The keys a goroutine writes\<close>

lemma compressVariants_fst:
  assumes "compressVariants enc f = Inr vs"
  shows "distinct (map fst vs)" and "set (map fst vs) \<subseteq> set encodings"
  using assms
  by (auto simp: compressVariants_def encodings_def EncodingBrotli_def EncodingGzip_def
      split: sum.splits option.splits if_splits prod.splits)

lemma action_keys_variants:
  "action_keys (map (\<lambda>(e, d). PutVariant (k @ encoding_suffix e) d ct i) vs) = map (\<lambda>e. k @ encoding_suffix e) (map fst vs)"
  by (induction vs) auto

lemma suffixes_distinct:
  assumes "distinct (map fst vs)" and "set (map fst vs) \<subseteq> set encodings"
  shows "distinct (map (\<lambda>e. k @ encoding_suffix e) (map fst (filter P vs)))"
proof -
  have "distinct (map fst (filter P vs))" using assms(1) by (simp add: distinct_map_filter)
  moreover have "inj_on (\<lambda>e. k @ encoding_suffix e) (set (map fst (filter P vs)))"
    by (rule inj_on_subset [of _ "set encodings"]) (use assms(2) variant_key_inject [of _ _ k k] in \<open>auto intro!: inj_onI\<close>)
  ultimately show ?thesis by (simp only: distinct_map)
qed

text \<open>The condition under which an upload generates variants of a file.\<close>

definition wants_variants :: "'f packages \<Rightarrow> bool \<Rightarrow> archive_map \<Rightarrow> archiveObject \<Rightarrow> bool" where
  "wants_variants pk compression files ob \<longleftrightarrow>
     compression \<and> snd (compressibleContentType (pk_mime pk) (Name (ao_file ob))) \<and>
     compressionMinSize \<le> unat (UncompressedSize64 (ao_file ob)) \<and>
     unat (UncompressedSize64 (ao_file ob)) \<le> compressionMaxSize \<and>
     \<not> archiveSuppliesVariants files (ao_key ob)"

lemma variant_actions_eq:
  "variant_actions pk c flip files ob i =
     (if \<not> wants_variants pk c files ob then []
      else (case compressVariants (pk_enc pk) (ao_file ob) of
          Inl e \<Rightarrow> [FailWith e]
        | Inr vs \<Rightarrow>
            map (\<lambda>(e, d). PutVariant (ao_key ob @ encoding_suffix e) d
                (fst (compressibleContentType (pk_mime pk) (Name (ao_file ob)))) i)
              (filter (\<lambda>(e, d). files (ao_key ob @ encoding_suffix e) = None) (if flip then rev vs else vs))))"
  by (cases "compressibleContentType (pk_mime pk) (Name (ao_file ob))"; cases "compressVariants (pk_enc pk) (ao_file ob)")
    (auto simp: variant_actions_def wants_variants_def Let_def)

lemma variant_actions_cases:
  obtains "variant_actions pk c flip files ob i = []"
  | e where "variant_actions pk c flip files ob i = [FailWith e]"
  | vs ct where "compressVariants (pk_enc pk) (ao_file ob) = Inr vs"
      and "variant_actions pk c flip files ob i =
        map (\<lambda>(e, d). PutVariant (ao_key ob @ encoding_suffix e) d ct i)
          (filter (\<lambda>(e, d). files (ao_key ob @ encoding_suffix e) = None) (if flip then rev vs else vs))"
proof (cases "wants_variants pk c files ob")
  case True
  show thesis
  proof (cases "compressVariants (pk_enc pk) (ao_file ob)")
    case (Inl e)
    with True show thesis using that(2) variant_actions_eq [of pk c flip files ob i] by simp
  next
    case (Inr vs)
    show thesis by (rule that(3) [OF Inr, of "fst (compressibleContentType (pk_mime pk) (Name (ao_file ob)))"]) (simp add: variant_actions_eq True Inr)
  qed
qed (use that(1) variant_actions_eq [of pk c flip files ob i] in simp)

lemma variant_actions_keys:
  "distinct (action_keys (variant_actions pk c flip files ob i))"
  "k \<in> set (action_keys (variant_actions pk c flip files ob i)) \<Longrightarrow>
     files k = None \<and> (\<exists>e \<in> set encodings. k = ao_key ob @ encoding_suffix e)"
proof -
  have "distinct (action_keys (variant_actions pk c flip files ob i)) \<and>
    (\<forall>k \<in> set (action_keys (variant_actions pk c flip files ob i)).
       files k = None \<and> (\<exists>e \<in> set encodings. k = ao_key ob @ encoding_suffix e))"
  proof (cases rule: variant_actions_cases [of pk c flip files ob i])
    case (3 vs ct)
    have vs: "distinct (map fst (if flip then rev vs else vs))" "set (map fst (if flip then rev vs else vs)) \<subseteq> set encodings"
      using compressVariants_fst [OF 3(1)] by (auto simp: rev_map [symmetric])
    show ?thesis unfolding 3(2) action_keys_variants using suffixes_distinct [OF vs] vs(2) by fastforce
  qed simp_all
  then show "distinct (action_keys (variant_actions pk c flip files ob i))"
    and "k \<in> set (action_keys (variant_actions pk c flip files ob i)) \<Longrightarrow>
     files k = None \<and> (\<exists>e \<in> set encodings. k = ao_key ob @ encoding_suffix e)" by blast+
qed

lemma upload_task_keys:
  assumes "files (ao_key ob) \<noteq> None"
  shows "distinct (action_keys (upload_task pk c order files ob))"
    and "k \<in> set (action_keys (upload_task pk c order files ob)) \<Longrightarrow>
      k = ao_key ob \<or> files k = None \<and> (\<exists>e \<in> set encodings. k = ao_key ob @ encoding_suffix e)"
  using variant_actions_keys [where pk = pk and c = c and flip = "order (ao_key ob)" and files = files and ob = ob] assms
  by (auto simp: upload_task_def Let_def split: sum.splits)

lemma archive_map_of_dom: "archive_map_of objs k \<noteq> None \<longleftrightarrow> k \<in> ao_key ` set objs"
  by (auto simp: archive_map_of_def map_of_eq_None_iff image_image)

lemma variant_key_eqD: "k @ encoding_suffix e = k' @ encoding_suffix e' \<Longrightarrow> e \<in> set encodings \<Longrightarrow> e' \<in> set encodings \<Longrightarrow> k = k'"
  using variant_key_inject by blast

lemma tasks_distinct:
  assumes "distinct (map ao_key objs)" and "\<And>ob. ob \<in> set objs \<Longrightarrow> files (ao_key ob) \<noteq> None"
  shows "distinct (group_keys (map (upload_task pk c order files) objs))"
  using assms
proof (induction objs)
  case (Cons ob objs)
  let ?t = "upload_task pk c order files"
  have "k \<notin> set (action_keys (?t ob'))" if k: "k \<in> set (action_keys (?t ob))" and "ob' \<in> set objs" for k ob'
  proof
    assume k': "k \<in> set (action_keys (?t ob'))"
    have ne: "ao_key ob \<noteq> ao_key ob'" and f: "files (ao_key ob) \<noteq> None" "files (ao_key ob') \<noteq> None"
      using Cons.prems that(2) by auto
    from upload_task_keys(2) [OF f(1) k] upload_task_keys(2) [OF f(2) k'] ne f
    show False by (auto dest: variant_key_eqD)
  qed
  then show ?case using Cons upload_task_keys(1) [of files ob] by (auto simp: group_keys_def)
qed (simp add: group_keys_def)

subsection \<open>The outcome of an upload\<close>

lemma archiveKeys_keys:
  assumes "archiveKeys NFC gi files folder = Inr objs"
  shows "distinct (map ao_key objs)" and "ob \<in> set objs \<Longrightarrow> prefix (folder @ ''/'') (ao_key ob)"
proof -
  note o = archiveKeys_objects [OF assms]
  show "distinct (map ao_key objs)" using o(2) unfolding o(1) by (auto simp: distinct_map inj_on_def)
  show "ob \<in> set objs \<Longrightarrow> prefix (folder @ ''/'') (ao_key ob)" unfolding o(1) by auto
qed

lemma tasks_prefix:
  assumes "\<And>ob. ob \<in> set objs \<Longrightarrow> prefix p (ao_key ob)" and "\<And>ob. ob \<in> set objs \<Longrightarrow> files (ao_key ob) \<noteq> None"
    and "k \<in> set (group_keys (map (upload_task pk c order files) objs))"
  shows "prefix p k"
proof -
  from assms(3) obtain ob where ob: "ob \<in> set objs" "k \<in> set (action_keys (upload_task pk c order files ob))"
    by (auto simp: group_keys_def)
  from upload_task_keys(2) [OF assms(2) [OF ob(1)] ob(2)] assms(1) [OF ob(1)] show ?thesis by (auto simp: prefix_append)
qed

text \<open>What stands in the way of an upload before anything is stored.\<close>

definition upload_plan ::
  "'f packages \<Rightarrow> ('w, 'c) ContentService \<Rightarrow> string \<Rightarrow> string \<Rightarrow> 'f \<Rightarrow> int \<Rightarrow> 'w \<Rightarrow> archiveObject list \<Rightarrow> bool" where
  "upload_plan pk svc name version file n w objs \<longleftrightarrow>
     packageNamePattern name \<and> isFullSemver (pk_semver pk) version \<and>
     (0 < MaxSize (uploadLimits svc) \<longrightarrow> n \<le> MaxSize (uploadLimits svc)) \<and>
     (\<exists>archive. pk_zip pk file n = Inr archive \<and> checkArchiveLimits (uploadLimits svc) archive = None \<and>
        archiveKeys (pk_NFC pk) (pk_ignore pk) archive (name @ ''@'' @ version) = Inr objs) \<and>
     \<not> os_ObjectExists (objectStorageManager svc) (name @ ''@'' @ version) w"

lemma CreatePackage_planned:
  assumes "upload_plan pk svc name version file n (gs_storage s) objs"
  shows "CreatePackage pk svc sched order name version file n s =
    (case upload_objects pk svc sched order objs (gs_storage s) of
       (Some err, w) \<Rightarrow> (case rollbackPartialUpload svc (name @ ''@'' @ version) err w of (e, w') \<Rightarrow> (Some e, s\<lparr>gs_storage := w'\<rparr>))
     | (None, w) \<Rightarrow> (None, s\<lparr>gs_storage := w, PackagesUploadedTotal := PackagesUploadedTotal s + 1\<rparr>))"
  using assms unfolding upload_plan_def
  by (auto simp: CreatePackage_def validatePackageIdentity_def Let_def not_less simp del: append.simps)

lemma CreatePackage_unplanned:
  assumes "\<nexists>objs. upload_plan pk svc name version file n (gs_storage s) objs"
  shows "\<exists>e. CreatePackage pk svc sched order name version file n s = (Some e, s)"
  using assms unfolding upload_plan_def
  by (auto simp: CreatePackage_def validatePackageIdentity_def Let_def not_less split: sum.splits option.splits)

lemma upload_plan_keys:
  assumes "upload_plan pk svc name version file n w objs"
  shows "distinct (map ao_key objs)" and "ob \<in> set objs \<Longrightarrow> prefix (name @ ''@'' @ version @ ''/'') (ao_key ob)"
  using assms archiveKeys_keys unfolding upload_plan_def by fastforce+

lemma archive_map_of_some: "ob \<in> set objs \<Longrightarrow> archive_map_of objs (ao_key ob) \<noteq> None"
  by (simp only: archive_map_of_dom) blast

context object_storage
begin

lemma upload_objects_frame:
  assumes "upload_objects pk svc sched order objs w = (e, w')" and "objectStorageManager svc = os"
    and "\<And>ob. ob \<in> set objs \<Longrightarrow> prefix p (ao_key ob)" and "\<not> prefix p k"
  shows "store w' k = store w k"
proof -
  let ?ts = "map (upload_task pk (compressionEnabled svc) order (archive_map_of objs)) objs"
  obtain ts' where "run_group os sched ?ts w = (ts', w', e)"
    using assms(1,2) by (auto simp: upload_objects_def split: prod.splits)
  moreover have "k \<notin> set (group_keys ?ts)"
    using tasks_prefix [where files = "archive_map_of objs" and objs = objs, OF assms(3) archive_map_of_some] assms(4)
    by blast
  ultimately show ?thesis unfolding run_group_def by (rule group_frame)
qed

lemma upload_objects_performed:
  assumes "upload_objects pk svc sched order objs w = (None, w')" and "objectStorageManager svc = os"
    and "distinct (map ao_key objs)" and "ob \<in> set objs"
    and "a \<in> set (upload_task pk (compressionEnabled svc) order (archive_map_of objs) ob)"
  shows "performed a w'"
proof -
  let ?t = "upload_task pk (compressionEnabled svc) order (archive_map_of objs)"
  obtain ts' where run: "run_group os sched (map ?t objs) w = (ts', w', None)"
    using assms(1,2) by (auto simp: upload_objects_def split: prod.splits)
  obtain j where j: "j < length objs" "objs ! j = ob" using assms(4) by (auto simp: in_set_conv_nth)
  have dist: "distinct (group_keys (map ?t objs))" by (rule tasks_distinct [OF assms(3)]) (rule archive_map_of_some)
  have "ts' ! j = []" by (rule run_group_done [OF run]) (use j in simp)
  moreover obtain n where "ts' ! j = drop n (?t ob)" "\<forall>a \<in> set (take n (?t ob)). performed a w'"
    using group_success [OF run [unfolded run_group_def] dist] j by fastforce
  ultimately show ?thesis using assms(5) by simp
qed

end

context object_storage
begin

lemma upload_objects_stored:
  assumes "upload_objects pk svc sched order objs w = (None, w')" and "objectStorageManager svc = os"
    and "distinct (map ao_key objs)" and "ob \<in> set objs"
  obtains token where "fileIntegrity (pk_sha384 pk) (hash_source pk (archive_map_of objs) ob) = Inr token"
    and "\<And>d. sized_entry (ao_file ob) d \<Longrightarrow> \<exists>st. store w' (ao_key ob) = Some st \<and> carries st d token"
    and "\<And>a. a \<in> set (variant_actions pk (compressionEnabled svc) (order (ao_key ob)) (archive_map_of objs) ob token) \<Longrightarrow>
      performed a w'"
proof (cases "fileIntegrity (pk_sha384 pk) (hash_source pk (archive_map_of objs) ob)")
  case (Inl e)
  then have "performed (FailWith e) w'"
    using upload_objects_performed [OF assms, of "FailWith e"] by (simp add: upload_task_def)
  then show thesis by (simp add: performed_def)
next
  case (Inr token)
  note all = upload_objects_performed [OF assms, unfolded upload_task_def Inr sum.case]
  show thesis
  proof (rule that [OF Inr])
    show "\<exists>st. store w' (ao_key ob) = Some st \<and> carries st d token" if "sized_entry (ao_file ob) d" for d
      using all [of "PutFile (ao_key ob) (ao_file ob) token"] that by (simp add: performed_def)
  qed (use all in simp)
qed

lemma variants_stored:
  assumes "\<And>a. a \<in> set (variant_actions pk c flip files ob token) \<Longrightarrow> performed a w"
    and "wants_variants pk c files ob"
  obtains vs where "compressVariants (pk_enc pk) (ao_file ob) = Inr vs"
    and "\<And>e d. (e, d) \<in> set vs \<Longrightarrow> files (ao_key ob @ encoding_suffix e) = None \<Longrightarrow>
      \<exists>st. store w (ao_key ob @ encoding_suffix e) = Some st \<and> carries st d token"
proof (cases "compressVariants (pk_enc pk) (ao_file ob)")
  case (Inl e)
  then have "performed (FailWith e) w" using assms by (simp add: variant_actions_eq)
  then show thesis by (simp add: performed_def)
next
  case (Inr vs)
  show thesis
  proof (rule that [OF Inr])
    fix e d
    assume ed: "(e, d) \<in> set vs" "files (ao_key ob @ encoding_suffix e) = None"
    let ?a = "PutVariant (ao_key ob @ encoding_suffix e) d (fst (compressibleContentType (pk_mime pk) (Name (ao_file ob)))) token"
    have "?a \<in> set (variant_actions pk c flip files ob token)"
      using ed assms(2) Inr by (force simp: variant_actions_eq)
    then show "\<exists>st. store w (ao_key ob @ encoding_suffix e) = Some st \<and> carries st d token"
      using assms(1) [of ?a] by (auto simp: performed_def)
  qed
qed

end

context reliable_storage
begin

definition good_action :: "upload_action \<Rightarrow> bool" where
  "good_action a \<longleftrightarrow> (case a of PutFile k f i \<Rightarrow> (\<exists>d. sized_entry f d) | PutVariant k d ct i \<Rightarrow> True | FailWith e \<Rightarrow> False)"

lemma good_exec: "good_action a \<Longrightarrow> fst (exec_action os a w) = None"
proof (cases a)
  case (PutFile k f i)
  then show "fst (exec_action os a w) = None" if "good_action a"
    using that add_total [of f _ k i w] by (auto simp: good_action_def split: prod.splits option.splits)
next
  case (PutVariant k d ct i)
  then show "fst (exec_action os a w) = None"
    using bytes_total [of k d ct i w] by (auto split: prod.splits option.splits)
qed (simp add: good_action_def)

lemma group_no_error:
  "(\<And>t a. t \<in> set ts \<Longrightarrow> a \<in> set t \<Longrightarrow> good_action a) \<Longrightarrow>
     snd (snd (fold (group_step os) sched (ts, w, None))) = None"
proof (induction sched arbitrary: ts w)
  case (Cons i sched)
  show ?case
  proof (cases i ts w "None :: go_error option" rule: step_cases)
    case (act a as w')
    have "good_action x" if "t \<in> set (ts[i := as])" and "x \<in> set t" for t x
      using that Cons.prems act(1,2) by (metis insertE list.set_intros(2) nth_mem set_update_subset_insert subsetD)
    with Cons.IH act(4) show ?thesis by simp
  next
    case (fail a as e w')
    then have "good_action a" using Cons.prems by (metis list.set_intros(1) nth_mem)
    with good_exec [of a w] fail(3) show ?thesis by simp
  qed (use Cons in simp)
qed simp

end

context reliable_storage
begin

lemma rollback_restores:
  assumes "objectStorageManager svc = os" and plan: "upload_plan pk svc name version file n w objs"
    and up: "upload_objects pk svc sched order objs w = (Some err, w1)"
  shows "store (snd (rollbackPartialUpload svc (name @ ''@'' @ version) err w1)) = store w"
proof -
  let ?p = "name @ ''@'' @ version @ ''/''"
  obtain w2 where rm: "os_RemoveObjects os ?p w1 = (None, w2)"
    using remove_total [of ?p w1] by (cases "os_RemoveObjects os ?p w1") auto
  have "store w2 k = store w k" for k
  proof (cases "prefix ?p k")
    case True
    have "\<not> (\<exists>k \<in> dom (store w). prefix ?p k)"
      using plan exists_iff [of "name @ ''@'' @ version"] assms(1) by (simp add: upload_plan_def)
    with True have "store w k = None" by blast
    with True remove_ok [OF rm] show ?thesis by simp
  next
    case False
    with remove_ok [OF rm] upload_objects_frame [OF up assms(1) upload_plan_keys(2) [OF plan]] show ?thesis by simp
  qed
  then show ?thesis using rm assms(1) by (simp add: rollbackPartialUpload_def fun_eq_iff)
qed

end

lemma CreatePackage_success:
  assumes "CreatePackage pk svc sched order name version file n s = (None, s')"
  obtains objs where "upload_plan pk svc name version file n (gs_storage s) objs"
    and "upload_objects pk svc sched order objs (gs_storage s) = (None, gs_storage s')"
proof -
  obtain objs where plan: "upload_plan pk svc name version file n (gs_storage s) objs"
    using CreatePackage_unplanned assms by (metis Pair_inject option.distinct(1))
  from assms have "upload_objects pk svc sched order objs (gs_storage s) = (None, gs_storage s')"
    unfolding CreatePackage_planned [OF plan] by (auto split: prod.splits option.splits)
  with plan show thesis by (rule that)
qed

end
