(* ===== verification/Gimme_SemverRef.thy ===== *)
theory Gimme_SemverRef
  imports Gimme_Versions "HOL-Library.Product_Lexorder"
begin

text \<open>
  A concrete instance of the semver argument, written from the package's documentation:
  the grammar with shorthands, the accessors and the precedence order of semantic versioning
  (numbers numerically, a prerelease before its release, numeric identifiers before
  alphanumeric ones, build metadata ignored). It shows that \<open>semver_laws\<close> can hold, and
  the concrete runs of the other theories use it. No definition of the program refers to it.
\<close>

definition ident_ok :: "string \<Rightarrow> bool" where
  "ident_ok i \<longleftrightarrow> i \<noteq> '''' \<and> list_all (\<lambda>c. is_digit c \<or> is_alpha c \<or> c = CHR ''-'') i"

definition pre_ident_ok :: "string \<Rightarrow> bool" where
  "pre_ident_ok i \<longleftrightarrow> ident_ok i \<and> (list_all is_digit i \<longrightarrow> is_number i)"

definition tail_ok :: "string \<Rightarrow> bool" where
  "tail_ok t =
     (let build = dropWhile (\<lambda>c. c \<noteq> CHR ''+'') t; pre = takeWhile (\<lambda>c. c \<noteq> CHR ''+'') t
      in (pre = '''' \<or> hd pre = CHR ''-'' \<and> list_all pre_ident_ok (Split (tl pre) (CHR ''.''))) \<and>
         (build = '''' \<or> list_all ident_ok (Split (tl build) (CHR ''.''))))"

definition core_part :: "string \<Rightarrow> string" where
  "core_part s = takeWhile (\<lambda>c. c \<noteq> CHR ''-'' \<and> c \<noteq> CHR ''+'') s"

definition tail_part :: "string \<Rightarrow> string" where
  "tail_part s = dropWhile (\<lambda>c. c \<noteq> CHR ''-'' \<and> c \<noteq> CHR ''+'') s"

definition core_nums :: "string \<Rightarrow> string list" where
  "core_nums s = Split (core_part s) (CHR ''.'')"

definition ref_IsValid :: "string \<Rightarrow> bool" where
  "ref_IsValid v \<longleftrightarrow> v \<noteq> '''' \<and> hd v = CHR ''v'' \<and>
     (let nums = core_nums (tl v); t = tail_part (tl v)
      in length nums \<le> 3 \<and> list_all is_number nums \<and> (t = '''' \<or> length nums = 3 \<and> tail_ok t))"

fun digits_value :: "nat \<Rightarrow> string \<Rightarrow> nat" where
  "digits_value a [] = a"
| "digits_value a (c # s) = digits_value (10 * a + (of_char c - 48)) s"

definition ident_key :: "string \<Rightarrow> bool \<times> nat \<times> string" where
  "ident_key i = (if list_all is_digit i then (False, digits_value 0 i, '''') else (True, 0, i))"

definition ref_key :: "string \<Rightarrow> bool \<times> nat list \<times> bool \<times> (bool \<times> nat \<times> string) list" where
  "ref_key v =
     (if \<not> ref_IsValid v then (False, [], False, [])
      else let nums = map (digits_value 0) (core_nums (tl v));
               pre = prerelease_part (tail_part (tl v))
           in (True, take 3 (nums @ [0, 0]), pre = '''',
               if pre = '''' then [] else map ident_key (Split (tl pre) (CHR ''.''))))"

definition ref_Compare :: "string \<Rightarrow> string \<Rightarrow> int" where
  "ref_Compare a b = (if ref_key a < ref_key b then -1 else if ref_key a = ref_key b then 0 else 1)"

definition ref_semver :: semver_pkg where
  "ref_semver = \<lparr>
     IsValid = ref_IsValid,
     Prerelease = (\<lambda>v. if ref_IsValid v then prerelease_part (tail_part (tl v)) else ''''),
     Major = (\<lambda>v. if ref_IsValid v then ''v'' @ hd (core_nums (tl v)) else ''''),
     MajorMinor = (\<lambda>v. if ref_IsValid v then ''v'' @ Join (take 2 (core_nums (tl v) @ [''0''])) ''.'' else ''''),
     Compare = ref_Compare,
     Sort = sort_key (\<lambda>v. (ref_key v, v))\<rparr>"

lemma core_tail: "core_part s @ tail_part s = s"
  by (simp add: core_part_def tail_part_def)

lemma ident_chars: "ident_ok i \<Longrightarrow> list_all tail_char i"
  by (auto simp: ident_ok_def tail_char_def list_all_iff)

lemma idents_chars:
  assumes "list_all ident_ok (Split s (CHR ''.''))"
  shows "list_all tail_char s"
proof -
  have "set s \<subseteq> (\<Union>p\<in>set (Split s (CHR ''.'')). set p) \<union> {CHR ''.''}"
    using set_Join [of "Split s (CHR ''.'')" "''.''"] by (simp add: Join_Split)
  moreover have "\<And>p. p \<in> set (Split s (CHR ''.'')) \<Longrightarrow> list_all tail_char p"
    using assms ident_chars by (auto simp: list_all_iff)
  ultimately show ?thesis
    unfolding list_all_iff by (auto simp: tail_char_def)
qed

lemma tail_ok_chars: "tail_ok t \<Longrightarrow> list_all tail_char t"
proof -
  assume t: "tail_ok t"
  define pre build where "pre = takeWhile (\<lambda>c. c \<noteq> CHR ''+'') t"
    and "build = dropWhile (\<lambda>c. c \<noteq> CHR ''+'') t"
  have pre: "list_all tail_char pre"
    using t idents_chars [of "tl pre"]
    by (cases pre) (auto simp: tail_ok_def Let_def pre_def [symmetric] list_all_iff pre_ident_ok_def tail_char_def)
  have "build = '''' \<or> hd build = CHR ''+''"
    using hd_dropWhile_cases [of "\<lambda>c. c \<noteq> CHR ''+''" t] by (simp add: build_def)
  then have build: "list_all tail_char build"
    using t idents_chars [of "tl build"]
    by (cases build) (auto simp: tail_ok_def Let_def build_def [symmetric] tail_char_def)
  have "t = pre @ build" by (simp add: pre_def build_def)
  with pre build show ?thesis by simp
qed

lemma ref_valid_form:
  assumes "ref_IsValid v"
  shows "version_form (core_nums (tl v)) (tail_part (tl v))"
    and "v = ''v'' @ Join (core_nums (tl v)) ''.'' @ tail_part (tl v)"
proof -
  let ?t = "tail_part (tl v)"
  have "?t = '''' \<or> hd ?t = CHR ''-'' \<or> hd ?t = CHR ''+''"
    using hd_dropWhile_cases [of "\<lambda>c. c \<noteq> CHR ''-'' \<and> c \<noteq> CHR ''+''" "tl v"]
    unfolding tail_part_def by blast
  with assms show "version_form (core_nums (tl v)) ?t"
    using tail_ok_chars by (auto simp: version_form_def version_tail_def ref_IsValid_def Let_def core_nums_def)
  have "v = CHR ''v'' # tl v" using assms by (cases v) (auto simp: ref_IsValid_def)
  then show "v = ''v'' @ Join (core_nums (tl v)) ''.'' @ ?t"
    by (simp add: core_nums_def Join_Split core_tail)
qed

lemma ref_parse_form:
  assumes "version_form nums t"
  shows "core_nums (Join nums ''.'' @ t) = nums" and "tail_part (Join nums ''.'' @ t) = t"
proof -
  have t: "t = '''' \<or> hd t = CHR ''-'' \<or> hd t = CHR ''+''"
    using assms by (auto simp: version_form_def version_tail_def)
  have "\<forall>c\<in>set (Join nums ''.''). c \<noteq> CHR ''-'' \<and> c \<noteq> CHR ''+''"
    using core_chars [OF assms] by auto
  with t have "core_part (Join nums ''.'' @ t) = Join nums ''.''" "tail_part (Join nums ''.'' @ t) = t"
    by (cases t; auto simp: core_part_def tail_part_def takeWhile_append dropWhile_append)+
  then show "core_nums (Join nums ''.'' @ t) = nums" and "tail_part (Join nums ''.'' @ t) = t"
    using Split_core [OF assms] by (simp_all add: core_nums_def)
qed

lemma lex_le_fst: "(a, x) \<le> (b, y) \<Longrightarrow> a \<le> b" for a b :: "'k::linorder" and x y :: "'v::linorder"
  by auto

lemma ref_Compare_le: "ref_Compare a b \<le> 0 \<longleftrightarrow> ref_key a \<le> ref_key b"
  by (simp add: ref_Compare_def le_less)

lemma sorted_ref_Sort: "sorted_wrt (\<lambda>a b. ref_Compare a b \<le> 0) (Sort ref_semver vs)"
proof -
  have "sorted (map (\<lambda>v. (ref_key v, v)) (sort_key (\<lambda>v. (ref_key v, v)) vs))"
    by (rule sorted_sort_key)
  then have "sorted_wrt (\<lambda>a b. (ref_key a, a) \<le> (ref_key b, b)) (Sort ref_semver vs)"
    by (simp add: ref_semver_def sorted_wrt_map)
  then show ?thesis
    by (rule sorted_wrt_mono_rel [rotated]) (simp only: ref_Compare_le, rule lex_le_fst)
qed

theorem semver_laws_ref: "semver_laws ref_semver"
  unfolding semver_laws_def
proof (intro conjI allI impI)
  fix v assume "IsValid ref_semver v"
  then have "ref_IsValid v" by (simp add: ref_semver_def)
  from ref_valid_form [OF this]
  show "\<exists>nums t. version_form nums t \<and> v = ''v'' @ Join nums ''.'' @ t" by blast
next
  fix nums t
  assume f: "version_form nums t" and v: "IsValid ref_semver (''v'' @ Join nums ''.'' @ t)"
  from v ref_parse_form [OF f]
  show "Major ref_semver (''v'' @ Join nums ''.'' @ t) = ''v'' @ hd nums"
    and "2 \<le> length nums \<Longrightarrow> MajorMinor ref_semver (''v'' @ Join nums ''.'' @ t) = ''v'' @ Join (take 2 nums) ''.''"
    and "Prerelease ref_semver (''v'' @ Join nums ''.'' @ t) = prerelease_part t"
    by (simp_all add: ref_semver_def)
next
  fix vs show "mset (Sort ref_semver vs) = mset vs" by (simp add: ref_semver_def)
  show "sorted_wrt (\<lambda>a b. Compare ref_semver a b \<le> 0) (Sort ref_semver vs)"
    using sorted_ref_Sort by (simp add: ref_semver_def)
next
  fix a b show "Compare ref_semver a b \<le> 0 \<or> Compare ref_semver b a \<le> 0"
    by (simp add: ref_semver_def ref_Compare_le linear)
next
  fix a b c assume "Compare ref_semver a b \<le> 0" and "Compare ref_semver b c \<le> 0"
  then show "Compare ref_semver a c \<le> 0"
    by (simp add: ref_semver_def ref_Compare_le)
qed

end
