(* ===== verification/Gimme_StorageRef.thy ===== *)
theory Gimme_StorageRef
  imports Gimme_Storage
begin

text \<open>
  An in-memory object store with the S3 client's operations. It meets the documented behaviour
  of \<open>s3_service\<close> and \<open>s3_reliable\<close>, so both can hold; the storage manager
  over it is the storage of the concrete examples.
\<close>

type_synonym mem_world = "((bucket \<times> key) \<times> stored_object) list"

definition mem_objs :: "bucket \<Rightarrow> mem_world \<Rightarrow> store" where
  "mem_objs b w k = map_of w (b, k)"

definition mem_keys :: "bucket \<Rightarrow> string \<Rightarrow> string \<Rightarrow> mem_world \<Rightarrow> key list" where
  "mem_keys b pfx after w =
     filter (\<lambda>k. HasPrefix k pfx \<and> (after = '''' \<or> after < k)) (map (snd \<circ> fst) (filter (\<lambda>e. fst (fst e) = b) w))"

definition mem_info :: "bucket \<Rightarrow> mem_world \<Rightarrow> key \<Rightarrow> ObjectInfo" where
  "mem_info b w k =
     (let sto = mem_objs b w k
      in \<lparr>oi_Key = k, oi_Size = (case sto of None \<Rightarrow> 0 | Some st \<Rightarrow> int (length (so_Body st))),
          oi_ETag = ''tag'', oi_LastModified = 1,
          oi_ContentType = (case sto of None \<Rightarrow> '''' | Some st \<Rightarrow> so_ContentType st),
          oi_UserMetadata = (case sto of None \<Rightarrow> Map.empty
            | Some st \<Rightarrow> (\<lambda>m. if m = CanonicalIntegrityMetadataKey then so_UserMetadata st IntegrityMetadataKey else None)),
          oi_Err = None\<rparr>)"

definition mem_list :: "bucket \<Rightarrow> ListObjectsOptions \<Rightarrow> mem_world \<Rightarrow> ObjectInfo list" where
  "mem_list b opts w =
     (let keys = mem_keys b (lo_Prefix opts) (lo_StartAfter opts) w
      in map (mem_info b w)
           (sort (remdups (if lo_Recursive opts then keys else map (common_of (lo_Prefix opts)) keys))))"

definition mem_put :: "bucket \<Rightarrow> key \<Rightarrow> zip_reader \<Rightarrow> int \<Rightarrow> PutObjectOptions \<Rightarrow> mem_world \<Rightarrow> go_error option \<times> mem_world" where
  "mem_put b k rd n opts w =
     (if rd_err rd \<noteq> None \<or> int (length (rd_data rd)) \<noteq> n then (Some (External ''short read''), w)
      else (None, ((b, k), \<lparr>so_Body = rd_data rd, so_ContentType = po_ContentType opts,
                            so_UserMetadata = po_UserMetadata opts\<rparr>) # w))"

definition mem_get :: "bucket \<Rightarrow> key \<Rightarrow> mem_world \<Rightarrow> go_error + s3_object" where
  "mem_get b k w = Inr (case mem_objs b w k of
       None \<Rightarrow> \<lparr>Stat = Inl (External ''The specified key does not exist.''), Body = ''''\<rparr>
     | Some st \<Rightarrow> \<lparr>Stat = Inr (mem_info b w k), Body = so_Body st\<rparr>)"

definition mem_remove :: "bucket \<Rightarrow> ObjectInfo list \<Rightarrow> mem_world \<Rightarrow> (string \<times> go_error option) list \<times> mem_world" where
  "mem_remove b infos w = ([], filter (\<lambda>e. \<not> (fst (fst e) = b \<and> snd (fst e) \<in> set (map oi_Key infos))) w)"

definition mem_s3 :: "mem_world s3_client" where
  "mem_s3 = \<lparr>MakeBucket = (\<lambda>b l w. (None, w)), BucketExists = (\<lambda>b w. Inr True), PutObject = mem_put,
     client_GetObject = mem_get, client_ListObjects = mem_list, client_RemoveObjects = mem_remove\<rparr>"

lemma mem_keys_set: "set (mem_keys b p after w) = {k \<in> dom (mem_objs b w). prefix p k \<and> (after = '''' \<or> after < k)}"
proof -
  have dom: "k \<in> dom (mem_objs b w) \<longleftrightarrow> (b, k) \<in> fst ` set w" for k
    using map_of_eq_None_iff [of w "(b, k)"] by (simp add: mem_objs_def domIff)
  have "k \<in> set (map (snd \<circ> fst) (filter (\<lambda>e. fst (fst e) = b) w)) \<longleftrightarrow> (b, k) \<in> fst ` set w" for k
    by (force simp: image_iff)
  then show ?thesis unfolding mem_keys_def HasPrefix_def set_filter dom by blast
qed

lemma map_of_filter_keep: "(\<And>v. P (k, v)) \<Longrightarrow> map_of (filter P w) k = map_of w k"
  by (induction w) auto

lemma mem_finite: "finite (dom (mem_objs b w))"
proof -
  have "dom (mem_objs b w) \<subseteq> set (mem_keys b '''' '''' w)" by (simp add: mem_keys_set)
  then show ?thesis by (rule finite_subset) simp
qed

lemma mem_info_key [simp]: "oi_Key (mem_info b w k) = k" "oi_Err (mem_info b w k) = None"
  by (simp_all add: mem_info_def Let_def)

lemma mem_info_describes: "mem_objs b w k = Some st \<Longrightarrow> describes (mem_info b w k) st"
  by (simp add: mem_info_def describes_def)

lemma mem_list_keys: "map oi_Key (mem_list b opts w) =
  sort (remdups (if lo_Recursive opts then mem_keys b (lo_Prefix opts) (lo_StartAfter opts) w
                 else map (common_of (lo_Prefix opts)) (mem_keys b (lo_Prefix opts) (lo_StartAfter opts) w)))"
  by (simp add: mem_list_def Let_def comp_def)

interpretation mem: s3_reliable mem_s3 mem_objs
proof
  show "finite (dom (mem_objs b w))" for b w by (rule mem_finite)
  show no_error: "i \<in> set (client_ListObjects mem_s3 b opts w) \<Longrightarrow> oi_Err i = None" for i b opts w
    by (auto simp: mem_s3_def mem_list_def Let_def)
  show "map oi_Key (client_ListObjects mem_s3 b opts w) = keys_after (mem_objs b w) (lo_Prefix opts) (lo_StartAfter opts)"
    if "lo_Recursive opts" for opts b w
    using that mem_keys_set [of b "lo_Prefix opts" "lo_StartAfter opts" w]
    by (simp add: mem_s3_def mem_list_keys keys_after_def flip: sorted_list_of_set_sort_remdups)
  show "prefix (lo_Prefix opts) (oi_Key i) \<and>
      (\<exists>st. mem_objs b w (oi_Key i) = Some st \<and> oi_Size i = int (length (so_Body st)))"
    if "lo_Recursive opts" and "i \<in> set (client_ListObjects mem_s3 b opts w)" for opts i b w
    using that by (auto simp: mem_s3_def mem_list_def mem_keys_set Let_def mem_info_def)
  show "distinct (map oi_Key (client_ListObjects mem_s3 b opts w)) \<and>
      oi_Key ` set (client_ListObjects mem_s3 b opts w) = common_of (lo_Prefix opts) ` matching_keys (mem_objs b w) (lo_Prefix opts)"
    if "\<not> lo_Recursive opts" and "lo_StartAfter opts = ''''" for opts b w
    using that by (simp add: mem_s3_def mem_list_keys mem_keys_set matching_keys_def flip: list.set_map)
  show "oi_Key i \<in> common_of (lo_Prefix opts) ` matching_keys (mem_objs b w) (lo_Prefix opts)"
    if "\<not> lo_Recursive opts" and "lo_StartAfter opts = ''''" and "i \<in> set (client_ListObjects mem_s3 b opts w)" for opts i b w
    using that by (auto simp: mem_s3_def mem_list_def mem_keys_set Let_def matching_keys_def)
  show "mem_objs b w' = (mem_objs b w)(k \<mapsto> \<lparr>so_Body = rd_data rd, so_ContentType = po_ContentType popts,
        so_UserMetadata = po_UserMetadata popts\<rparr>)"
    if "PutObject mem_s3 b k rd n popts w = (None, w')" for b k rd n popts w w'
    using that by (auto simp: mem_s3_def mem_put_def mem_objs_def split: if_splits)
  show "mem_objs b' w' k' = mem_objs b' w k'"
    if "PutObject mem_s3 b k rd n popts w = (e, w')" and "b' \<noteq> b \<or> k' \<noteq> k" for b k rd n popts w e w' b' k'
    using that by (auto simp: mem_s3_def mem_put_def mem_objs_def split: if_splits)
  show "\<exists>st. mem_objs b w k = Some st \<and> Body ob = so_Body st \<and> describes i st"
    if "client_GetObject mem_s3 b k w = Inr ob" and "Stat ob = Inr i" for b k w ob i
    using that by (auto simp: mem_s3_def mem_get_def mem_info_describes split: option.splits)
  show "mem_objs b w' k = None"
    if "client_RemoveObjects mem_s3 b infos w = (errs, w')" and "k \<in> oi_Key ` set infos" for b infos w errs w' k
    using that by (auto simp: mem_s3_def mem_remove_def mem_objs_def map_of_eq_None_iff)
  show "mem_objs b' w' k = mem_objs b' w k"
    if "client_RemoveObjects mem_s3 b infos w = (errs, w')" and "b' \<noteq> b \<or> k \<notin> oi_Key ` set infos" for b infos w errs w' b' k
    using that by (auto simp: mem_s3_def mem_remove_def mem_objs_def intro!: map_of_filter_keep)
  show "fst (PutObject mem_s3 b k rd n popts w) = None"
    if "rd_err rd = None" and "int (length (rd_data rd)) = n" for rd n b k popts w
    using that by (simp add: mem_s3_def mem_put_def)
  show "\<exists>ob. client_GetObject mem_s3 b k w = Inr ob \<and> (mem_objs b w k \<noteq> None \<longrightarrow> (\<exists>i. Stat ob = Inr i))" for b k w
    by (auto simp: mem_s3_def mem_get_def)
  show "fst (client_RemoveObjects mem_s3 b infos w) = []" for b infos w
    by (simp add: mem_s3_def mem_remove_def)
qed

end
