(* ===== verification/Gimme_Ref.thy ===== *)
theory Gimme_Ref
  imports Gimme_Content Gimme_SemverRef Gimme_StorageRef
begin

text \<open>
  A concrete instance of everything the model takes as an argument, for the concrete examples:
  the reference semver package, a small mime table, toy encoders and digest, an archive reader
  that is handed the entries, the in-memory object storage and the in-memory Redis.
\<close>

definition ref_mime :: mime_pkg where
  "ref_mime = \<lparr>TypeByExtension = (\<lambda>e. if e = ''.js'' then ''text/javascript'' else ''''),
     ParseMediaType = Inr\<rparr>"

definition ref_packages :: "zip_file list packages" where
  "ref_packages = \<lparr>pk_semver = ref_semver, pk_mime = ref_mime,
     pk_enc = \<lparr>brotli_encode = (\<lambda>s. Inr (take 2 s)), gzip_encode = (\<lambda>s. Inr (take 3 s))\<rparr>,
     pk_sha384 = (\<lambda>s. take 3 s), pk_NFC = (\<lambda>s. s), pk_ignore = (\<lambda>_ _. False),
     pk_zip = (\<lambda>f n. Inr f)\<rparr>"

definition ref_manager :: "mem_world objectStorageManager" where
  "ref_manager = \<lparr>client = mem_s3, bucketName = ''gimme'', location = ''eu''\<rparr>"

definition ref_service :: "(mem_world, mem_redis_world) ContentService" where
  "ref_service = NewContentService (storage_iface ref_mime ref_manager)
     (Some (NewRedisCache mem_redis mem_codec 3)) 60 \<lparr>MaxSize = 1000, MaxEntries = 10, MaxUncompressedSize = 500\<rparr>
     [WithCompression True]"

definition ref_state :: "mem_world \<Rightarrow> mem_redis_world \<Rightarrow> (mem_world, mem_redis_world) gstate" where
  "ref_state w c = \<lparr>gs_storage = w, gs_cache = c, PackagesUploadedTotal = 0, PackagesDeletedTotal = 0,
     CacheHitsTotal = 0, CacheMissesTotal = 0\<rparr>"

definition ref_file :: "string \<Rightarrow> string \<Rightarrow> zip_file" where
  "ref_file name data = \<lparr>Name = name, UncompressedSize64 = of_nat (length data), ModeDir = False,
     Open = Inr \<lparr>rd_data = data, rd_err = None\<rparr>\<rparr>"

definition ref_object :: "string \<Rightarrow> string \<Rightarrow> (bucket \<times> key) \<times> stored_object" where
  "ref_object k data = ((''gimme'', k), \<lparr>so_Body = data, so_ContentType = ''text/plain'', so_UserMetadata = Map.empty\<rparr>)"

lemma ref_state_sel: "gs_storage (ref_state w c) = w" "gs_cache (ref_state w c) = c"
  by (simp_all add: ref_state_def)

lemma ref_laws: "semver_laws (pk_semver ref_packages)"
  using semver_laws_ref by (simp add: ref_packages_def)

lemma ref_service_sel:
  "objectStorageManager ref_service = storage_iface ref_mime ref_manager"
  "cacheManager ref_service = Some (NewRedisCache mem_redis mem_codec 3)"
  by (simp_all add: ref_service_def NewContentService_def WithCompression_def)

interpretation ref_storage: reliable_storage "objectStorageManager ref_service" "mem_objs ''gimme''"
  unfolding ref_service_sel ref_manager_def by unfold_locales

lemma ref_file_sized:
  assumes "length data < 2 ^ 63 - 1"
  shows "\<not> HasSuffix name ''/'' \<Longrightarrow> sized_entry (ref_file name data) data"
    and "unat (UncompressedSize64 (ref_file name data)) < 2 ^ 63 - 1"
proof -
  have "unat (of_nat (length data) :: 64 word) = length data"
    using assms by (simp add: unsigned_of_nat take_bit_nat_eq_self)
  then show "\<not> HasSuffix name ''/'' \<Longrightarrow> sized_entry (ref_file name data) data"
    and "unat (UncompressedSize64 (ref_file name data)) < 2 ^ 63 - 1"
    using assms by (simp_all add: ref_file_def sized_entry_def IsDir_def)
qed

end
