(* ===== verification/Gimme_Serve.thy ===== *)
theory Gimme_Serve
  imports Gimme_Upload Gimme_Ref
begin

text \<open>
  Serving and deleting packages: package versions do not overlap in the storage, version
  requests resolve to the highest stored match, uploaded files are served back, deletions are
  exact, and the cache of resolved paths stays coherent: no entry survives that leads to a
  deleted version.
\<close>

subsection \<open>Package folders\<close>

lemma folder_key_split:
  assumes "CHR ''@'' \<notin> set n1" and "CHR ''@'' \<notin> set n2" and "CHR ''/'' \<notin> set v1" and "CHR ''/'' \<notin> set v2"
    and "prefix (n1 @ ''@'' @ v1 @ ''/'') (n2 @ ''@'' @ v2 @ ''/'' @ rest)"
  shows "n1 = n2 \<and> v1 = v2"
proof -
  obtain t where "n1 @ CHR ''@'' # (v1 @ CHR ''/'' # t) = n2 @ CHR ''@'' # (v2 @ CHR ''/'' # rest)"
    using assms(5) by (auto simp: prefix_def)
  then show ?thesis using assms(1-4) by (simp add: append_sep_eq_iff)
qed

definition stored_version :: "store \<Rightarrow> string \<Rightarrow> string \<Rightarrow> bool" where
  "stored_version st pkg v \<longleftrightarrow> CHR ''/'' \<notin> set v \<and>
     (\<exists>k \<in> dom st. k = pkg @ ''@'' @ v \<or> prefix (pkg @ ''@'' @ v @ ''/'') k)"

lemma candidate_of_common:
  "candidate_of pkg (common_of (pkg @ ''@'') (pkg @ ''@'' @ rest)) = takeWhile (\<lambda>c. c \<noteq> CHR ''/'') rest"
proof (cases "CHR ''/'' \<in> set rest")
  case True
  have "TrimSuffix (takeWhile (\<lambda>c. c \<noteq> CHR ''/'') rest @ ''/'') ''/'' = takeWhile (\<lambda>c. c \<noteq> CHR ''/'') rest"
    by (simp add: TrimSuffix_def CutSuffix_def HasSuffix_def)
  with True show ?thesis
    using TrimPrefix_append [of "pkg @ ''@''" "takeWhile (\<lambda>c. c \<noteq> CHR ''/'') rest @ ''/''"]
    by (simp add: candidate_of_def common_of_def Let_def)
next
  case False
  have "TrimSuffix rest ''/'' = rest"
    using False by (auto simp: TrimSuffix_def CutSuffix_def HasSuffix_def suffix_def)
  with False show ?thesis
    using TrimPrefix_append [of "pkg @ ''@''" rest] by (simp add: candidate_of_def common_of_def Let_def)
qed

lemma candidates_stored:
  "candidate_of pkg ` common_of (pkg @ ''@'') ` matching_keys st (pkg @ ''@'') = {v. stored_version st pkg v}"
proof (intro equalityI subsetI CollectI)
  fix v
  assume "v \<in> candidate_of pkg ` common_of (pkg @ ''@'') ` matching_keys st (pkg @ ''@'')"
  then obtain rest where r: "pkg @ ''@'' @ rest \<in> dom st" "v = takeWhile (\<lambda>c. c \<noteq> CHR ''/'') rest"
    using candidate_of_common by (fastforce simp: matching_keys_def prefix_def)
  show "stored_version st pkg v"
  proof (cases "CHR ''/'' \<in> set rest")
    case True
    from takeWhile_split [OF this] r(2)
    have "prefix (pkg @ ''@'' @ v @ ''/'') (pkg @ ''@'' @ rest)" by (metis append.assoc append_Cons append_Nil prefixI)
    with r show ?thesis unfolding stored_version_def by (metis not_in_takeWhile)
  qed (use r in \<open>auto simp: stored_version_def\<close>)
next
  fix v
  assume "v \<in> {v. stored_version st pkg v}"
  then obtain k where k: "CHR ''/'' \<notin> set v" "k \<in> dom st" "k = pkg @ ''@'' @ v \<or> prefix (pkg @ ''@'' @ v @ ''/'') k"
    by (auto simp: stored_version_def)
  then obtain rest where rest: "k = pkg @ ''@'' @ rest" "takeWhile (\<lambda>c. c \<noteq> CHR ''/'') rest = v"
    using takeWhile_no_sep [OF k(1)] by (fastforce simp: prefix_def)
  with k(2) candidate_of_common [of pkg rest] show "v \<in> candidate_of pkg ` common_of (pkg @ ''@'') ` matching_keys st (pkg @ ''@'')"
    by (force simp: matching_keys_def)
qed

subsection \<open>Resolution over a reliable storage\<close>

context reliable_storage
begin

lemma listed_candidates:
  "candidate_of pkg ` set (os_ListCommonPrefixes os (pkg @ ''@'') w) = {v. stored_version (store w) pkg v}"
  using prefixes_set [of "pkg @ ''@''" w] candidates_stored [of pkg "store w"] by simp

end

lemma resolved_highest:
  assumes "reliable_storage (objectStorageManager svc) store" and "semver_laws (pk_semver pk)"
  shows "case resolveVersion pk svc pkg version w of
      None \<Rightarrow> \<forall>v. stored_version (store w) pkg v \<longrightarrow> \<not> versionMatches (pk_semver pk) v version
    | Some v \<Rightarrow> stored_version (store w) pkg v \<and> versionMatches (pk_semver pk) v version \<and>
        (\<forall>v'. stored_version (store w) pkg v' \<longrightarrow> versionMatches (pk_semver pk) v' version \<longrightarrow>
           Compare (pk_semver pk) (''v'' @ v') (''v'' @ v) \<le> 0)"
proof -
  let ?ps = "os_ListCommonPrefixes (objectStorageManager svc) (pkg @ ''@'') w"
  have c: "stored_version (store w) pkg v \<longleftrightarrow> v \<in> candidate_of pkg ` set ?ps" for v
    using reliable_storage.listed_candidates [OF assms(1), of pkg w] by blast
  show ?thesis
  proof (cases "resolveVersion pk svc pkg version w")
    case None
    from None [unfolded resolveVersion_def resolve_from_None] None show ?thesis by (auto simp: c)
  next
    case (Some v)
    note r = resolve_from_Some [OF assms(2) Some [unfolded resolveVersion_def]]
    from r(1,2) r(3) Some show ?thesis unfolding c by auto
  qed
qed

text \<open>C31: On a reliable storage, whose listing does not fail, a version request resolves to the
  highest version the storage holds among those it matches, and finds nothing exactly when no stored
  version matches.\<close>

theorem resolveVersion_highest:
  assumes "reliable_storage (objectStorageManager svc) store" and "semver_laws (pk_semver pk)"
  shows "case resolveVersion pk svc pkg version w of
      None \<Rightarrow> \<forall>v. stored_version (store w) pkg v \<longrightarrow> \<not> versionMatches (pk_semver pk) v version
    | Some v \<Rightarrow> stored_version (store w) pkg v \<and> versionMatches (pk_semver pk) v version \<and>
        (\<forall>v'. stored_version (store w) pkg v' \<longrightarrow> versionMatches (pk_semver pk) v' version \<longrightarrow>
           Compare (pk_semver pk) (''v'' @ v') (''v'' @ v) \<le> 0)"
  using assms by (rule resolved_highest)

definition ref_world :: mem_world where
  "ref_world = [ref_object ''p@1.0.0/a.js'' ''old'', ref_object ''p@1.10.0/a.js'' ''new'',
     ref_object ''p@1.9.0/a.js'' ''mid'', ref_object ''p@2.0.0-rc.1/a.js'' ''rc'', ref_object ''pp@1.11.0/a.js'' ''other'']"

theorem resolveVersion_highest_witness:
  "resolveVersion ref_packages ref_service ''p'' ''1'' ref_world = Some ''1.10.0'' \<and>
   stored_version (mem_objs ''gimme'' ref_world) ''p'' ''1.10.0''"
proof -
  have r: "resolveVersion ref_packages ref_service ''p'' ''1'' ref_world = Some ''1.10.0''" by code_simp
  from resolveVersion_highest [OF ref_storage.reliable_storage_axioms ref_laws, where pkg = "''p''" and version = "''1''" and w = ref_world] r
  show ?thesis unfolding r option.case by blast
qed

text \<open>C18: On a reliable storage, whose listing does not fail, the version list of a package with a
  legal name holds exactly the full semver versions the storage has files of, from the highest to
  the lowest: none of another package, none that was never published, and no alias.\<close>

theorem ListVersions_exact:
  assumes "reliable_storage (objectStorageManager svc) store" and "semver_laws (pk_semver pk)" and "packageNamePattern pkg"
  shows "set (ListVersions pk svc pkg w) = {v. stored_version (store w) pkg v \<and> isFullSemver (pk_semver pk) v} \<and>
    sorted_wrt (\<lambda>a b. Compare (pk_semver pk) (''v'' @ b) (''v'' @ a) \<le> 0) (ListVersions pk svc pkg w)"
proof -
  let ?ps = "os_ListCommonPrefixes (objectStorageManager svc) (pkg @ ''@'') w"
  have l: "ListVersions pk svc pkg w = versions_from (pk_semver pk) pkg ?ps"
    using assms(3) by (simp add: ListVersions_def)
  have "set (versions_from (pk_semver pk) pkg ?ps) = {v \<in> candidate_of pkg ` set ?ps. isFullSemver (pk_semver pk) v}"
    using arg_cong [OF versions_from_mset [OF assms(2), of pkg ?ps], of set_mset] by auto
  then show ?thesis
    using reliable_storage.listed_candidates [OF assms(1), of pkg w] versions_from_sorted [OF assms(2), of pkg ?ps]
    unfolding l by auto
qed

theorem ListVersions_exact_witness:
  "set (ListVersions ref_packages ref_service ''p'' ref_world) =
     {v. stored_version (mem_objs ''gimme'' ref_world) ''p'' v \<and> isFullSemver ref_semver v} \<and>
   ListVersions ref_packages ref_service ''p'' ref_world = [''2.0.0-rc.1'', ''1.10.0'', ''1.9.0'', ''1.0.0'']"
proof
  have "packageNamePattern ''p''" by code_simp
  from ListVersions_exact [OF ref_storage.reliable_storage_axioms ref_laws this, of ref_world]
  show "set (ListVersions ref_packages ref_service ''p'' ref_world) =
     {v. stored_version (mem_objs ''gimme'' ref_world) ''p'' v \<and> isFullSemver ref_semver v}" by (simp add: ref_packages_def)
  show "ListVersions ref_packages ref_service ''p'' ref_world = [''2.0.0-rc.1'', ''1.10.0'', ''1.9.0'', ''1.0.0'']" by code_simp
qed

text \<open>Two accepted package versions never share a storage key: a key inside both folders means
  that names and versions are the same.\<close>

lemma packages_disjoint:
  assumes "semver_laws sv" and "validatePackageIdentity sv n1 v1 = None" and "validatePackageIdentity sv n2 v2 = None"
    and "prefix (n1 @ ''@'' @ v1 @ ''/'') k" and "prefix (n2 @ ''@'' @ v2 @ ''/'') k"
  shows "n1 = n2 \<and> v1 = v2"
proof -
  have "CHR ''@'' \<notin> set n \<and> CHR ''/'' \<notin> set v" if "validatePackageIdentity sv n v = None" for n v
    using that packageName_chars(1) semver_no_slash [OF assms(1)]
    by (auto simp: validatePackageIdentity_None isFullSemver_def)
  moreover obtain rest where "k = n2 @ ''@'' @ v2 @ ''/'' @ rest" using assms(5) by (auto simp: prefix_def)
  ultimately show ?thesis using folder_key_split [of n1 n2 v1 v2 rest] assms(2-4) by blast
qed

subsection \<open>Deletion\<close>

lemma DeletePackage_success:
  assumes "DeletePackage pk svc pkg version s = (None, s')"
  obtains w' where "packageNamePattern pkg" and "isFullSemver (pk_semver pk) version"
    and "os_RemoveObjects (objectStorageManager svc) (pkg @ ''@'' @ version @ ''/'') (gs_storage s) = (None, w')"
    and "gs_storage s' = w'"
    and "gs_cache s' = (case cacheManager svc of None \<Rightarrow> gs_cache s
      | Some cm \<Rightarrow> invalidate cm ((pkg @ ''@'' @ version) # mutableAliasPrefixes pkg version) (gs_cache s))"
  using assms by (auto simp: DeletePackage_def validatePackageIdentity_def Let_def split: if_splits prod.splits option.splits)

text \<open>C30: A successful deletion removes every file of the package version and nothing else; every
  other accepted package version keeps all its files.\<close>

theorem DeletePackage_exact:
  assumes "object_storage (objectStorageManager svc) store" and "semver_laws (pk_semver pk)"
    and "DeletePackage pk svc pkg version s = (None, s')"
  shows "store (gs_storage s') = (\<lambda>k. if prefix (pkg @ ''@'' @ version @ ''/'') k then None else store (gs_storage s) k) \<and>
    (\<forall>n v k. validatePackageIdentity (pk_semver pk) n v = None \<and> (n, v) \<noteq> (pkg, version) \<and>
       prefix (n @ ''@'' @ v @ ''/'') k \<longrightarrow> store (gs_storage s') k = store (gs_storage s) k)"
proof -
  obtain w' where d: "packageNamePattern pkg" "isFullSemver (pk_semver pk) version"
    "os_RemoveObjects (objectStorageManager svc) (pkg @ ''@'' @ version @ ''/'') (gs_storage s) = (None, w')" "gs_storage s' = w'"
    using DeletePackage_success [OF assms(3)] .
  have out: "CHR ''@'' \<notin> set n \<and> CHR ''/'' \<notin> set v" if "packageNamePattern n" "isFullSemver (pk_semver pk) v" for n v
    using that packageName_chars(1) semver_no_slash [OF assms(2)] by (auto simp: isFullSemver_def)
  have "\<not> prefix (pkg @ ''@'' @ version @ ''/'') k"
    if "validatePackageIdentity (pk_semver pk) n v = None" and "(n, v) \<noteq> (pkg, version)" and pre: "prefix (n @ ''@'' @ v @ ''/'') k" for n v k
  proof
    assume "prefix (pkg @ ''@'' @ version @ ''/'') k"
    moreover obtain rest where "k = n @ ''@'' @ v @ ''/'' @ rest" using pre by (auto simp: prefix_def)
    ultimately show False
      using folder_key_split [of pkg n version v rest] that(1,2) out d(1,2) by (simp add: validatePackageIdentity_None)
  qed
  with object_storage.remove_ok [OF assms(1) d(3)] show ?thesis unfolding d(4) by (metis (no_types, lifting))
qed

theorem DeletePackage_exact_witness:
  "fst (DeletePackage ref_packages ref_service ''p'' ''1.10.0'' (ref_state ref_world [])) = None \<and>
   mem_objs ''gimme'' (gs_storage (snd (DeletePackage ref_packages ref_service ''p'' ''1.10.0'' (ref_state ref_world [])))) ''p@1.10.0/a.js'' = None"
proof -
  have r: "fst (DeletePackage ref_packages ref_service ''p'' ''1.10.0'' (ref_state ref_world [])) = None" by code_simp
  have p: "prefix (''p'' @ ''@'' @ ''1.10.0'' @ ''/'') ''p@1.10.0/a.js''" by simp
  from r DeletePackage_exact [OF ref_storage.object_storage_axioms ref_laws fst_eq_pair [OF r], THEN conjunct1, THEN fun_cong, of "''p@1.10.0/a.js''"]
  show ?thesis unfolding if_P [OF p] by blast
qed

subsection \<open>Cache coherence\<close>

text \<open>
  An entry of the cache answers a request for \<open>file\<close> in \<open>pkg@r\<close> with the path of that
  file in a folder \<open>pkg@v\<close> whose version the request matches, or in the folder the request names.
\<close>

definition coherent_entry :: "semver_pkg \<Rightarrow> string \<Rightarrow> string \<Rightarrow> bool" where
  "coherent_entry sv k path \<longleftrightarrow>
     (\<exists>pkg r file v. CHR ''@'' \<notin> set pkg \<and> CHR ''/'' \<notin> set r \<and> HasPrefix file ''/'' \<and> CHR ''/'' \<notin> set v \<and>
        k = pkg @ ''@'' @ r @ file \<and> path = pkg @ ''@'' @ v @ ''/'' @ TrimLeft file (CHR ''/'') \<and>
        (v = r \<or> versionMatches sv v r))"

definition coherent :: "semver_pkg \<Rightarrow> (string \<rightharpoonup> CacheEntry) \<Rightarrow> bool" where
  "coherent sv view \<longleftrightarrow> (\<forall>k e. view k = Some e \<longrightarrow> coherent_entry sv k (ObjectPath e))"

lemma coherent_entryI:
  "CHR ''@'' \<notin> set pkg \<Longrightarrow> CHR ''/'' \<notin> set r \<Longrightarrow> HasPrefix file ''/'' \<Longrightarrow> CHR ''/'' \<notin> set v \<Longrightarrow>
     v = r \<or> versionMatches sv v r \<Longrightarrow>
     coherent_entry sv (pkg @ ''@'' @ r @ file) (pkg @ ''@'' @ v @ ''/'' @ TrimLeft file (CHR ''/''))"
  unfolding coherent_entry_def by blast

lemma coherent_entryE:
  assumes "coherent_entry sv (pkg @ ''@'' @ r @ file) path" and "CHR ''@'' \<notin> set pkg" and "CHR ''/'' \<notin> set r" and "HasPrefix file ''/''"
  obtains v where "path = pkg @ ''@'' @ v @ ''/'' @ TrimLeft file (CHR ''/'')" and "CHR ''/'' \<notin> set v"
    and "v = r \<or> versionMatches sv v r"
proof -
  from assms(1) obtain pkg' r' file' v where c: "CHR ''@'' \<notin> set pkg'" "CHR ''/'' \<notin> set r'" "HasPrefix file' ''/''"
    "pkg @ CHR ''@'' # (r @ file) = pkg' @ CHR ''@'' # (r' @ file')" "CHR ''/'' \<notin> set v"
    "path = pkg' @ ''@'' @ v @ ''/'' @ TrimLeft file' (CHR ''/'')" "v = r' \<or> versionMatches sv v r'"
    by (auto simp: coherent_entry_def)
  from append_sep_eq_iff [OF assms(2) c(1)] c(4) have e: "pkg = pkg'" "r @ file = r' @ file'" by simp_all
  obtain f f' where f: "file = CHR ''/'' # f" "file' = CHR ''/'' # f'"
    using assms(4) c(3) by (auto simp: HasPrefix_def prefix_def)
  from append_sep_eq_iff [OF assms(3) c(2)] e(2) f have "r = r'" "file = file'" by simp_all
  with c e(1) show thesis using that by blast
qed

lemma coherent_mono: "view' \<subseteq>\<^sub>m view \<Longrightarrow> coherent sv view \<Longrightarrow> coherent sv view'"
  unfolding coherent_def by (metis map_le_Some)

lemma versionMatches_valid: "versionMatches sv v r \<Longrightarrow> IsValid sv (''v'' @ v)"
  by (auto simp: versionMatches_def Let_def split: if_splits)

lemma resolveVersion_matches:
  "semver_laws (pk_semver pk) \<Longrightarrow> resolveVersion pk svc pkg version w = Some v \<Longrightarrow> versionMatches (pk_semver pk) v version"
  unfolding resolveVersion_def by (rule resolve_from_Some(2))

text \<open>The path of an unpinned request is coherent with its cache key.\<close>

lemma file_path_coherent:
  assumes "semver_laws (pk_semver pk)" and "CHR ''@'' \<notin> set pkg"
    and "version = latestVersionAlias \<or> IsValid (pk_semver pk) (''v'' @ version)"
    and "\<not> IsPinnedVersion (pk_semver pk) version" and "HasPrefix fileName ''/''"
  shows "coherent_entry (pk_semver pk) (pkg @ ''@'' @ version @ fileName) (file_path pk svc pkg version fileName w)"
proof -
  have slash: "CHR ''/'' \<notin> set version"
    using assms(3) semver_no_slash [OF assms(1)] by (auto simp: latestVersionAlias_def)
  show ?thesis
  proof (cases "resolveVersion pk svc pkg version w")
    case None
    then show ?thesis using coherent_entryI [OF assms(2) slash assms(5) slash] assms(4) by (simp add: file_path_def)
  next
    case (Some v)
    note m = resolveVersion_matches [OF assms(1) Some]
    have "CHR ''/'' \<notin> set v" by (rule semver_no_slash [OF assms(1) versionMatches_valid [OF m]])
    from coherent_entryI [OF assms(2) slash assms(5) this] m Some assms(4) show ?thesis by (simp add: file_path_def)
  qed
qed

subsection \<open>Invalidation\<close>

fun invalidations_ok :: "'c cache_iface \<Rightarrow> string list \<Rightarrow> 'c \<Rightarrow> bool" where
  "invalidations_ok cm [] c \<longleftrightarrow> True"
| "invalidations_ok cm (p # ps) c \<longleftrightarrow>
     fst (cache_DeleteByPrefix cm p c) = None \<and> invalidations_ok cm ps (snd (cache_DeleteByPrefix cm p c))"

context cache_manager
begin

lemma invalidate_bound: "view (invalidate ci ps c) \<subseteq>\<^sub>m view c"
proof (induction ps arbitrary: c)
  case (Cons p ps)
  have "view (snd (cache_DeleteByPrefix ci p c)) \<subseteq>\<^sub>m view c" by (rule prefix_bound) (rule prod.collapse [symmetric])
  with Cons show ?case by (auto intro: map_le_trans)
qed simp

lemma invalidate_gone:
  "invalidations_ok ci ps c \<Longrightarrow> p \<in> set ps \<Longrightarrow> glob_free p \<Longrightarrow> prefix p k \<Longrightarrow> view (invalidate ci ps c) k = None"
proof (induction ps arbitrary: c)
  case (Cons q ps)
  let ?c = "snd (cache_DeleteByPrefix ci q c)"
  show ?case
  proof (cases "p = q")
    case True
    have "cache_DeleteByPrefix ci q c = (None, ?c)" by (rule fst_eq_pair) (use Cons.prems(1) in simp)
    from prefix_gone [OF this] True Cons.prems(3,4) have "view ?c k = None" by simp
    with map_le_Some [OF invalidate_bound [of ps ?c], of k] show ?thesis by (cases "view (invalidate ci ps ?c) k") auto
  qed (use Cons in auto)
qed simp

end

lemma glob_free_append: "glob_free (a @ b) \<longleftrightarrow> glob_free a \<and> glob_free b"
  by (simp add: glob_free_def)

lemma plain_char_glob:
  assumes "is_alpha c \<or> is_digit c \<or> c \<in> set ''._-+@''"
  shows "c \<notin> set ''*?[]'' \<and> of_char c \<noteq> (92 :: nat)"
  using assms by (auto simp: is_alpha_def is_digit_def less_eq_char_def)

lemma glob_freeI: "(\<And>c. c \<in> set s \<Longrightarrow> is_alpha c \<or> is_digit c \<or> c \<in> set ''._-+@'') \<Longrightarrow> glob_free s"
  unfolding glob_free_def list_all_iff using plain_char_glob by blast

lemma packageName_glob_free: "packageNamePattern s \<Longrightarrow> glob_free s"
  by (rule glob_freeI) (auto simp: packageNamePattern_def list_all_iff)

lemma number_glob_free: "is_number n \<Longrightarrow> glob_free n"
  by (rule glob_freeI) (auto simp: is_number_def list_all_iff)

lemma tail_glob_free: "version_form nums t \<Longrightarrow> glob_free t"
  by (rule glob_freeI) (auto simp: version_form_def version_tail_def list_all_iff tail_char_def)

lemma invalidated_glob_free:
  assumes "semver_laws sv" and "packageNamePattern pkg" and "isFullSemver sv version"
    and "p \<in> set ((pkg @ ''@'' @ version) # mutableAliasPrefixes pkg version)"
  shows "glob_free p"
proof -
  obtain n1 n2 n3 t where f: "version_form [n1, n2, n3] t" "version = Join [n1, n2, n3] ''.'' @ t"
    using isFullSemver_shape [OF assms(1,3)] .
  have "glob_free n1" "glob_free n2" "glob_free n3" "glob_free t" "glob_free pkg"
    using f(1) number_glob_free tail_glob_free [OF f(1)] packageName_glob_free [OF assms(2)]
    by (auto simp: version_form_def)
  moreover have "glob_free ''@''" "glob_free ''.''" "glob_free ''@latest''" by code_simp+
  ultimately show ?thesis
    using assms(4) alias_prefix_full [OF f(1), of pkg] f(2) by (auto simp: glob_free_append glob_free_def)
qed

subsection \<open>Histories of the service\<close>

text \<open>
  The states a service goes through: any sequence of uploads, downloads and deletions. A
  download comes from the router, which hands over a package name without an at sign and a file
  name that starts with a slash; paths in the cache are ASCII, which JSON keeps.
\<close>

inductive served :: "'f packages \<Rightarrow> ('w, 'c) ContentService \<Rightarrow> ('w, 'c) gstate \<Rightarrow> ('w, 'c) gstate \<Rightarrow> bool"
  for pk svc s0 where
  served_start: "served pk svc s0 s0"
| served_upload: "served pk svc s0 s \<Longrightarrow> CreatePackage pk svc sched order name version f n s = (r, s') \<Longrightarrow> served pk svc s0 s'"
| served_delete: "served pk svc s0 s \<Longrightarrow> DeletePackage pk svc name version s = (r, s') \<Longrightarrow> served pk svc s0 s'"
| served_download: "served pk svc s0 s \<Longrightarrow> GetFile pk svc name version fl accepted s = (q, s') \<Longrightarrow>
    CHR ''@'' \<notin> set name \<Longrightarrow> HasPrefix fl ''/'' \<Longrightarrow> ascii_only (file_path pk svc name version fl (gs_storage s)) \<Longrightarrow>
    served pk svc s0 s'"

lemma CreatePackage_cache:
  "CreatePackage pk svc sched order name version f n s = (r, s') \<Longrightarrow> gs_cache s' = gs_cache s"
  by (auto simp: CreatePackage_def Let_def split: option.splits if_splits sum.splits prod.splits)

lemma GetFile_cache_cases:
  assumes "GetFile pk svc pkg version fl accepted s = (r, s')"
  obtains "gs_cache s' = gs_cache s"
  | cm where "cacheManager svc = Some cm" and "\<not> IsPinnedVersion (pk_semver pk) version"
    and "version = latestVersionAlias \<or> IsValid (pk_semver pk) (''v'' @ version)"
    and "gs_cache s' = snd (cache_Set cm (pkg @ ''@'' @ version @ fl)
      \<lparr>ObjectPath = file_path pk svc pkg version fl (gs_storage s)\<rparr> (cacheTTL svc) (gs_cache s))"
  using assms by (auto simp: GetFile_def Let_def split: if_splits option.splits sum.splits)

context cache_manager
begin

lemma GetFile_coherent:
  assumes "GetFile pk svc name version fl accepted s = (r, s')" and "cacheManager svc = Some ci"
    and "semver_laws (pk_semver pk)" and "CHR ''@'' \<notin> set name" and "HasPrefix fl ''/''"
    and "ascii_only (file_path pk svc name version fl (gs_storage s))"
    and "coherent (pk_semver pk) (view (gs_cache s))"
  shows "coherent (pk_semver pk) (view (gs_cache s'))"
  using assms(1)
proof (cases rule: GetFile_cache_cases)
  case (2 cm)
  let ?k = "name @ ''@'' @ version @ fl" and ?e = "\<lparr>ObjectPath = file_path pk svc name version fl (gs_storage s)\<rparr>"
  have set: "cache_Set ci ?k ?e (cacheTTL svc) (gs_cache s) = (fst (cache_Set ci ?k ?e (cacheTTL svc) (gs_cache s)), gs_cache s')"
    using 2(1,4) assms(2) by simp
  have new: "coherent_entry (pk_semver pk) ?k (ObjectPath ?e)"
    using file_path_coherent [OF assms(3,4) 2(3,2) assms(5)] by simp
  show ?thesis
    unfolding coherent_def using set_bound [OF set] new assms(6,7) by (fastforce simp: coherent_def)
qed (use assms(7) in simp)

lemma DeletePackage_coherent:
  assumes "DeletePackage pk svc name version s = (r, s')" and "cacheManager svc = Some ci"
  shows "view (gs_cache s') \<subseteq>\<^sub>m view (gs_cache s)"
  using assms invalidate_bound
  by (auto simp: DeletePackage_def Let_def split: option.splits prod.splits simp del: invalidate.simps)

lemma served_coherent:
  assumes "served pk svc s0 s" and "cacheManager svc = Some ci" and "semver_laws (pk_semver pk)"
    and "coherent (pk_semver pk) (view (gs_cache s0))"
  shows "coherent (pk_semver pk) (view (gs_cache s))"
  using assms(1)
proof (induction rule: served.induct)
  case (served_delete s name version r s')
  then show ?case using DeletePackage_coherent [OF served_delete.hyps(2) assms(2)] coherent_mono by blast
next
  case (served_download s name version fl accepted q s')
  then show ?case using GetFile_coherent assms(2,3) by metis
next
  case (served_upload s sched order name version f n r s')
  then show ?case using CreatePackage_cache [OF served_upload.hyps(2)] by simp
qed (use assms(4) in simp)

lemma delete_leaves_no_entry:
  assumes "coherent (pk_semver pk) (view (gs_cache s))" and "cacheManager svc = Some ci" and "semver_laws (pk_semver pk)"
    and "DeletePackage pk svc pkg version s = (None, s')"
    and "invalidations_ok ci ((pkg @ ''@'' @ version) # mutableAliasPrefixes pkg version) (gs_cache s)"
    and "view (gs_cache s') k = Some e"
  shows "\<not> prefix (pkg @ ''@'' @ version @ ''/'') (ObjectPath e)"
proof
  assume into: "prefix (pkg @ ''@'' @ version @ ''/'') (ObjectPath e)"
  let ?ps = "(pkg @ ''@'' @ version) # mutableAliasPrefixes pkg version"
  obtain valid: "packageNamePattern pkg" "isFullSemver (pk_semver pk) version"
    and c': "gs_cache s' = invalidate ci ?ps (gs_cache s)"
    using DeletePackage_success [OF assms(4)] assms(2) by (metis option.simps(5))
  have "coherent_entry (pk_semver pk) k (ObjectPath e)"
    using assms(1,6) DeletePackage_coherent [OF assms(4,2)] coherent_mono unfolding coherent_def by (metis map_le_Some)
  then obtain pkg' r fl v where c: "CHR ''@'' \<notin> set pkg'" "CHR ''/'' \<notin> set v" "k = pkg' @ ''@'' @ r @ fl"
    "ObjectPath e = pkg' @ ''@'' @ v @ ''/'' @ TrimLeft fl (CHR ''/'')" "v = r \<or> versionMatches (pk_semver pk) v r"
    unfolding coherent_entry_def by blast
  have "pkg = pkg' \<and> version = v"
    using folder_key_split [of pkg pkg' version v] c(1,2,4) into packageName_chars(1) [OF valid(1)] semver_no_slash [OF assms(3)] valid(2)
    by (simp add: isFullSemver_def)
  then have "\<exists>p \<in> set ?ps. prefix p k"
    using c(3,5) alias_prefixes_cover [OF assms(3) valid(2), of r pkg fl] by auto
  with invalidate_gone [OF assms(5)] invalidated_glob_free [OF assms(3) valid] have "view (gs_cache s') k = None"
    unfolding c' by blast
  with assms(6) show False by simp
qed

end

text \<open>C5: After any history of uploads, downloads and deletions that started with an empty cache,
  a deletion whose invalidations succeed leaves no cache entry, under whatever alias, that leads
  to a file of the deleted version.\<close>

theorem DeletePackage_no_stale_entry:
  assumes "cache_manager cm view" and "cacheManager svc = Some cm" and "semver_laws (pk_semver pk)"
    and "served pk svc s0 s" and "view (gs_cache s0) = Map.empty"
    and "DeletePackage pk svc pkg version s = (None, s')"
    and "invalidations_ok cm ((pkg @ ''@'' @ version) # mutableAliasPrefixes pkg version) (gs_cache s)"
    and "view (gs_cache s') k = Some e"
  shows "\<not> prefix (pkg @ ''@'' @ version @ ''/'') (ObjectPath e)"
proof -
  have "coherent (pk_semver pk) (view (gs_cache s0))" using assms(5) by (simp add: coherent_def)
  from cache_manager.served_coherent [OF assms(1,4,2,3) this] show ?thesis
    by (rule cache_manager.delete_leaves_no_entry [OF assms(1) _ assms(2,3,6,7,8)])
qed

definition ref_downloads :: "(mem_world, mem_redis_world) gstate" where
  "ref_downloads =
     snd (GetFile ref_packages ref_service ''p'' ''1'' ''/a.js'' []
       (snd (GetFile ref_packages ref_service ''pp'' ''latest'' ''/a.js'' [] (ref_state ref_world []))))"

lemma ref_downloads_served: "served ref_packages ref_service (ref_state ref_world []) ref_downloads"
proof -
  let ?s = "snd (GetFile ref_packages ref_service ''pp'' ''latest'' ''/a.js'' [] (ref_state ref_world []))"
  have p: "CHR ''@'' \<notin> set ''pp''" "CHR ''@'' \<notin> set ''p''" "HasPrefix ''/a.js'' ''/''" by code_simp+
  have a: "ascii_only (file_path ref_packages ref_service ''pp'' ''latest'' ''/a.js'' (gs_storage (ref_state ref_world [])))"
    "ascii_only (file_path ref_packages ref_service ''p'' ''1'' ''/a.js'' (gs_storage ?s))" by code_simp+
  have "served ref_packages ref_service (ref_state ref_world []) ?s"
    by (rule served_download [OF served_start prod.collapse [symmetric] p(1,3) a(1)])
  from served_download [OF this prod.collapse [symmetric] p(2,3) a(2)] show ?thesis by (simp only: ref_downloads_def)
qed

lemma ref_downloads_cache:
  "gs_cache ref_downloads = [(''p@1/a.js'', ''p@1.10.0/a.js''), (''pp@latest/a.js'', ''pp@1.11.0/a.js'')]"
  by code_simp

lemma ref_empty_view: "mem_redis.entry_view (gs_cache (ref_state w [])) = Map.empty"
  by (rule ext) (simp add: ref_state_sel mem_redis.entry_view_def)

lemma mem_cache_roundtrip: "cache_Get (NewRedisCache mem_redis mem_codec 3) k (snd (cache_Set (NewRedisCache mem_redis mem_codec 3) k e ttl c)) = Some e"
  by (simp add: NewRedisCache_def redis_cache_Get_def redis_cache_Set_def mem_redis_def mem_codec_def)

theorem DeletePackage_no_stale_entry_witness:
  "fst (DeletePackage ref_packages ref_service ''p'' ''1.10.0'' ref_downloads) = None \<and>
   gs_cache (snd (DeletePackage ref_packages ref_service ''p'' ''1.10.0'' ref_downloads)) = [(''pp@latest/a.js'', ''pp@1.11.0/a.js'')] \<and>
   \<not> prefix (''p'' @ ''@'' @ ''1.10.0'' @ ''/'') (ObjectPath \<lparr>ObjectPath = ''pp@1.11.0/a.js''\<rparr>)"
proof -
  let ?d = "DeletePackage ref_packages ref_service ''p'' ''1.10.0'' ref_downloads"
  have r: "fst ?d = None" by code_simp
  have c: "gs_cache (snd ?d) = [(''pp@latest/a.js'', ''pp@1.11.0/a.js'')]" by code_simp
  have i: "invalidations_ok (NewRedisCache mem_redis mem_codec 3)
      ((''p'' @ ''@'' @ ''1.10.0'') # mutableAliasPrefixes ''p'' ''1.10.0'') (gs_cache ref_downloads)" by code_simp
  have v: "mem_redis.entry_view (gs_cache (snd ?d)) ''pp@latest/a.js'' = Some \<lparr>ObjectPath = ''pp@1.11.0/a.js''\<rparr>"
    unfolding c mem_redis.entry_view_def by (simp add: mem_codec_def)
  from DeletePackage_no_stale_entry [OF mem_redis.cache.cache_manager_axioms [of 3] ref_service_sel(2) ref_laws ref_downloads_served
      ref_empty_view fst_eq_pair [OF r] i v] r c show ?thesis by blast
qed

text \<open>After any such history, the path a cache hit leads to is the requested file, in the same
  package, in the version the request names or in one it matches.\<close>

lemma GetFile_hit_matches:
  assumes "cache_manager cm view" and "cacheManager svc = Some cm" and "semver_laws (pk_semver pk)"
    and "served pk svc s0 s" and "view (gs_cache s0) = Map.empty"
    and "CHR ''@'' \<notin> set pkg" and "CHR ''/'' \<notin> set version" and "HasPrefix fl ''/''"
    and "cache_Get cm (pkg @ ''@'' @ version @ fl) (gs_cache s) = Some e"
  shows "\<exists>v. ObjectPath e = pkg @ ''@'' @ v @ ''/'' @ TrimLeft fl (CHR ''/'') \<and>
    (v = version \<or> versionMatches (pk_semver pk) v version)"
proof -
  have "coherent (pk_semver pk) (view (gs_cache s0))" using assms(5) by (simp add: coherent_def)
  from cache_manager.served_coherent [OF assms(1,4,2,3) this] cache_manager.get_sound [OF assms(1,9)]
  have "coherent_entry (pk_semver pk) (pkg @ ''@'' @ version @ fl) (ObjectPath e)" by (simp add: coherent_def)
  from coherent_entryE [OF this assms(6-8)] show ?thesis by blast
qed

subsection \<open>Serving\<close>

lemma encoded_loop_Some:
  assumes "encoded_loop os p accepted w = Some (obj, e)"
  shows "\<exists>before after. accepted = before @ e # after \<and> os_GetObject os (p @ encoding_suffix e) w = Inr obj \<and> (\<exists>i. Stat obj = Inr i) \<and>
    (\<forall>b \<in> set before. \<forall>o'. os_GetObject os (p @ encoding_suffix b) w = Inr o' \<longrightarrow> (\<exists>x. Stat o' = Inl x))"
  using assms
proof (induction accepted)
  case (Cons a accepted)
  show ?case
  proof (cases "\<exists>o' i. os_GetObject os (p @ encoding_suffix a) w = Inr o' \<and> Stat o' = Inr i")
    case True
    with Cons.prems show ?thesis by (intro exI [of _ "[]"] exI [of _ accepted]) auto
  next
    case False
    with Cons.prems have "encoded_loop os p accepted w = Some (obj, e)" by (auto split: sum.splits)
    from Cons.IH [OF this] obtain before after where ba: "accepted = before @ e # after"
      "os_GetObject os (p @ encoding_suffix e) w = Inr obj" "\<exists>i. Stat obj = Inr i"
      "\<forall>b \<in> set before. \<forall>o'. os_GetObject os (p @ encoding_suffix b) w = Inr o' \<longrightarrow> (\<exists>x. Stat o' = Inl x)" by blast
    moreover have "\<forall>o'. os_GetObject os (p @ encoding_suffix a) w = Inr o' \<longrightarrow> (\<exists>x. Stat o' = Inl x)"
      using False by (metis sum.exhaust)
    ultimately show ?thesis by (intro exI [of _ "a # before"] exI [of _ after]) auto
  qed
qed simp

lemma encoded_loop_None:
  assumes "encoded_loop os p accepted w = None" and "e \<in> set accepted" and "os_GetObject os (p @ encoding_suffix e) w = Inr obj"
  shows "\<exists>x. Stat obj = Inl x"
  using assms by (induction accepted) (auto split: sum.splits)

context reliable_storage
begin

lemma stat_stored: "os_GetObject os k w = Inr ob \<Longrightarrow> (\<exists>i. Stat ob = Inr i) \<longleftrightarrow> store w k \<noteq> None"
  using object_total [of k w] object_sound [of k w ob] by fastforce

lemma object_stored:
  assumes "store w k \<noteq> None"
  obtains ob i st where "os_GetObject os k w = Inr ob" and "Stat ob = Inr i" and "store w k = Some st"
    and "Body ob = so_Body st" and "describes i st"
  using object_total [of k w] assms object_sound [of k w] by blast

lemma stat_missing: "\<forall>o'. os_GetObject os k w = Inr o' \<longrightarrow> (\<exists>x. Stat o' = Inl x) \<Longrightarrow> store w k = None"
  using object_stored [of w k] by (metis sum.distinct(1))

end

lemma negotiated_object:
  assumes "reliable_storage (objectStorageManager svc) store" and "store w path \<noteq> None"
  shows "\<exists>obj e st. getEncodedObject pk svc path fileName accepted w = Inr (obj, e) \<and>
    store w (path @ encoding_suffix e) = Some st \<and> Body obj = so_Body st \<and>
    (if snd (compressibleContentType (pk_mime pk) fileName) \<and> (\<exists>a \<in> set accepted. store w (path @ encoding_suffix a) \<noteq> None)
     then \<exists>before after. accepted = before @ e # after \<and> (\<forall>b \<in> set before. store w (path @ encoding_suffix b) = None)
     else e = '''')"
proof -
  let ?os = "objectStorageManager svc"
  note missing = reliable_storage.stat_missing [OF assms(1)]
  let ?c = "snd (compressibleContentType (pk_mime pk) fileName)"
  let ?loop = "if ?c then encoded_loop ?os path accepted w else None"
  show ?thesis
  proof (cases ?loop)
    case None
    obtain ob st where ob: "os_GetObject ?os path w = Inr ob" and st: "store w path = Some st" "Body ob = so_Body st"
      using reliable_storage.object_stored [OF assms(1,2)] .
    have none: "store w (path @ encoding_suffix a) = None" if "?c" "a \<in> set accepted" for a
      using encoded_loop_None [of ?os path accepted w a] None that by (intro missing) auto
    have "getEncodedObject pk svc path fileName accepted w = Inr (ob, '''')"
      using None ob by (simp add: getEncodedObject_def)
    with st none show ?thesis by (intro exI [of _ ob] exI [of _ "''''"] exI [of _ st]) auto
  next
    case (Some r)
    obtain ob e where r: "r = (ob, e)" by (cases r)
    have c: "?c" and "encoded_loop ?os path accepted w = Some (ob, e)" using Some r by (auto split: if_splits)
    from encoded_loop_Some [OF this(2)] obtain before after i where ba: "accepted = before @ e # after"
      "os_GetObject ?os (path @ encoding_suffix e) w = Inr ob" "Stat ob = Inr i"
      "\<forall>b \<in> set before. \<forall>o'. os_GetObject ?os (path @ encoding_suffix b) w = Inr o' \<longrightarrow> (\<exists>x. Stat o' = Inl x)" by blast
    obtain st where st: "store w (path @ encoding_suffix e) = Some st" "Body ob = so_Body st"
      using object_storage.object_sound [OF reliable_storage.axioms(1) [OF assms(1)] ba(2,3)] by blast
    have "\<forall>b \<in> set before. store w (path @ encoding_suffix b) = None" using ba(4) missing by blast
    moreover have "getEncodedObject pk svc path fileName accepted w = Inr (ob, e)"
      using Some r by (simp add: getEncodedObject_def)
    ultimately show ?thesis using st ba(1) c by (intro exI [of _ ob] exI [of _ e] exI [of _ st]) auto
  qed
qed

text \<open>C32: Content negotiation on a reliable storage: an answer under an encoding is the stored
  variant of the file in the first encoding, in the caller's order, of which the storage has a
  variant; the file itself is answered when it is not compressible or no accepted variant
  exists.\<close>

theorem getEncodedObject_negotiates:
  assumes "reliable_storage (objectStorageManager svc) store" and "store w path \<noteq> None"
  shows "\<exists>obj e st. getEncodedObject pk svc path fileName accepted w = Inr (obj, e) \<and>
    store w (path @ encoding_suffix e) = Some st \<and> Body obj = so_Body st \<and>
    (if snd (compressibleContentType (pk_mime pk) fileName) \<and> (\<exists>a \<in> set accepted. store w (path @ encoding_suffix a) \<noteq> None)
     then \<exists>before after. accepted = before @ e # after \<and> (\<forall>b \<in> set before. store w (path @ encoding_suffix b) = None)
     else e = '''')"
  using assms by (rule negotiated_object)

theorem getEncodedObject_negotiates_witness:
  "\<exists>obj. getEncodedObject ref_packages ref_service ''p@1.0.0/a.js'' ''a.js'' [''br'', ''gzip'']
     [ref_object ''p@1.0.0/a.js'' ''plain'', ref_object ''p@1.0.0/a.js.gz'' ''zipped''] = Inr (obj, ''gzip'') \<and> Body obj = ''zipped''"
proof -
  let ?w = "[ref_object ''p@1.0.0/a.js'' ''plain'', ref_object ''p@1.0.0/a.js.gz'' ''zipped'']"
  let ?g = "getEncodedObject ref_packages ref_service ''p@1.0.0/a.js'' ''a.js'' [''br'', ''gzip''] ?w"
  have k: "mem_objs ''gimme'' ?w ''p@1.0.0/a.js'' \<noteq> None" by code_simp
  have v: "(case ?g of Inl _ \<Rightarrow> False | Inr (obj, e) \<Rightarrow> e = ''gzip'' \<and> Body obj = ''zipped'')" by code_simp
  have "\<exists>obj e. ?g = Inr (obj, e)"
    using getEncodedObject_negotiates [where store = "mem_objs ''gimme''" and w = ?w and path = "''p@1.0.0/a.js''" and
      pk = ref_packages and fileName = "''a.js''" and accepted = "[''br'', ''gzip'']", OF ref_storage.reliable_storage_axioms k] by (elim exE conjE) (intro exI)
  then obtain obj e where "?g = Inr (obj, e)" by (elim exE)
  with v show ?thesis by (simp only: sum.case prod.case) blast
qed

lemma getEncodedObject_described:
  assumes "reliable_storage (objectStorageManager svc) store" and "getEncodedObject pk svc path fileName accepted w = Inr (obj, e)"
    and "store w (path @ encoding_suffix e) = Some st"
  shows "\<exists>i. Stat obj = Inr i \<and> describes i st"
proof -
  note os = reliable_storage.axioms(1) [OF assms(1)]
  have got: "os_GetObject (objectStorageManager svc) (path @ encoding_suffix e) w = Inr obj"
    using assms(2) encoded_loop_Some [of "objectStorageManager svc" path accepted w obj e]
    by (auto simp: getEncodedObject_def split: option.splits if_split_asm sum.splits)
  then obtain i where i: "Stat obj = Inr i" using reliable_storage.stat_stored [OF assms(1) got] assms(3) by auto
  from object_storage.object_sound [OF os got i] assms(3) i show ?thesis by auto
qed

text \<open>A path of which nothing is stored, not even a variant, is answered with a missing object.\<close>

lemma missing_object:
  assumes "reliable_storage (objectStorageManager svc) store" and "\<And>k. prefix path k \<Longrightarrow> store w k = None"
  shows "\<exists>ob x. getEncodedObject pk svc path fileName accepted w = Inr (ob, '''') \<and> Stat ob = Inl x"
proof -
  let ?os = "objectStorageManager svc"
  have gone: "\<exists>x. Stat ob = Inl x" if "os_GetObject ?os (path @ r) w = Inr ob" for ob r
    using reliable_storage.stat_stored [OF assms(1) that] assms(2) [of "path @ r"] by (cases "Stat ob") auto
  have "encoded_loop ?os path accepted w = None"
  proof (cases "encoded_loop ?os path accepted w")
    case (Some r)
    then obtain ob e where "encoded_loop ?os path accepted w = Some (ob, e)" by (cases r) simp
    from encoded_loop_Some [OF this] gone show ?thesis by fastforce
  qed
  moreover obtain ob where ob: "os_GetObject ?os path w = Inr ob" using reliable_storage.object_total [OF assms(1)] by blast
  ultimately show ?thesis using gone [of "''''" ob] by (simp add: getEncodedObject_def)
qed

lemma getEncodedObject_total:
  assumes "reliable_storage (objectStorageManager svc) store"
  shows "\<exists>r. getEncodedObject pk svc path fileName accepted w = Inr r"
proof -
  obtain ob where "os_GetObject (objectStorageManager svc) path w = Inr ob" using reliable_storage.object_total [OF assms] by blast
  then show ?thesis by (auto simp: getEncodedObject_def split: option.split)
qed

lemma CreatePackage_frame:
  assumes "object_storage (objectStorageManager svc) store"
    and "CreatePackage pk svc sched order name version file n s = (None, s')" and "\<not> prefix (name @ ''@'' @ version @ ''/'') k"
  shows "store (gs_storage s') k = store (gs_storage s) k"
proof -
  obtain objs where plan: "upload_plan pk svc name version file n (gs_storage s) objs"
    and up: "upload_objects pk svc sched order objs (gs_storage s) = (None, gs_storage s')"
    by (rule CreatePackage_success [OF assms(2)])
  show ?thesis using object_storage.upload_objects_frame [OF assms(1) up refl upload_plan_keys(2) [OF plan]] assms(3) by auto
qed

lemma CreatePackage_accepted:
  "CreatePackage pk svc sched order name version file n s = (None, s') \<Longrightarrow> packageNamePattern name \<and> isFullSemver (pk_semver pk) version"
  by (erule CreatePackage_success) (auto simp: upload_plan_def)

lemma upload_plan_unique:
  "upload_plan pk svc name version f n w objs \<Longrightarrow> upload_plan pk svc name version f n w objs' \<Longrightarrow> objs = objs'"
  by (auto simp: upload_plan_def)

lemma fileIntegrity_nonempty: "fileIntegrity sha f = Inr token \<Longrightarrow> token \<noteq> ''''"
  by (erule fileIntegrity_Inr) simp

lemma GetFile_pinned:
  assumes "IsPinnedVersion (pk_semver pk) version"
  shows "GetFile pk svc pkg version fl accepted s =
    (getEncodedObject pk svc (pkg @ ''@'' @ version @ fl) fl accepted (gs_storage s), s)"
proof -
  have "IsValid (pk_semver pk) (''v'' @ version)"
    using assms by (auto simp: IsPinnedVersion_def isFullSemver_def split: if_splits)
  with assms show ?thesis by (simp add: GetFile_def Let_def file_path_def)
qed

text \<open>C4: On a reliable storage a pinned upload is served back, whatever codings the client accepts.
  After a successful upload, a request for a published file that reads to its declared size is
  answered with the first accepted coding of which the storage has a variant of this file, or, when
  there is none or the file is not compressible, without a coding and with the whole content of
  the file. The body under a coding is the content of the variant in the archive, if the archive has
  one, or else the variant that the upload generated. Every such answer has the length of
  its body and the integrity token that the upload computed for the decoded content of its object.\<close>

theorem upload_then_GetFile:
  assumes "reliable_storage (objectStorageManager svc) store"
    and "CreatePackage pk svc sched order name version f n s = (None, s')" and "IsPinnedVersion (pk_semver pk) version"
    and "upload_plan pk svc name version f n (gs_storage s) objs" and "ob \<in> set objs"
    and "ao_key ob = name @ ''@'' @ version @ path" and "sized_entry (ao_file ob) d"
  shows "\<exists>obj e i. GetFile pk svc name version path accepted s' = (Inr (obj, e), s') \<and>
    Stat obj = Inr i \<and> oi_Size i = int (length (Body obj)) \<and>
    (if snd (compressibleContentType (pk_mime pk) path) \<and> (\<exists>a \<in> set accepted. store (gs_storage s') (ao_key ob @ encoding_suffix a) \<noteq> None)
     then store (gs_storage s') (ao_key ob @ encoding_suffix e) \<noteq> None \<and>
       (\<exists>before after. accepted = before @ e # after \<and> (\<forall>b \<in> set before. store (gs_storage s') (ao_key ob @ encoding_suffix b) = None))
     else e = '''' \<and> Body obj = d) \<and>
    (\<forall>ob' d'. ob' \<in> set objs \<and> ao_key ob' = ao_key ob @ encoding_suffix e \<and> sized_entry (ao_file ob') d' \<longrightarrow>
       Body obj = d' \<and> (\<exists>token. fileIntegrity (pk_sha384 pk) (hash_source pk (archive_map_of objs) ob') = Inr token \<and>
         oi_UserMetadata i CanonicalIntegrityMetadataKey = Some token)) \<and>
    (\<forall>vs c. wants_variants pk (compressionEnabled svc) (archive_map_of objs) ob \<and>
       archive_map_of objs (ao_key ob @ encoding_suffix e) = None \<and>
       compressVariants (pk_enc pk) (ao_file ob) = Inr vs \<and> (e, c) \<in> set vs \<longrightarrow>
       Body obj = c \<and> (\<exists>token. fileIntegrity (pk_sha384 pk) (hash_source pk (archive_map_of objs) ob) = Inr token \<and>
         oi_UserMetadata i CanonicalIntegrityMetadataKey = Some token))"
proof -
  let ?os = "objectStorageManager svc" and ?k = "ao_key ob" and ?w = "gs_storage s'"
  note os = reliable_storage.axioms(1) [OF assms(1)]
  obtain objs' where "upload_plan pk svc name version f n (gs_storage s) objs'"
    and "upload_objects pk svc sched order objs' (gs_storage s) = (None, ?w)"
    by (rule CreatePackage_success [OF assms(2)])
  then have up: "upload_objects pk svc sched order objs (gs_storage s) = (None, ?w)"
    using upload_plan_unique assms(4) by metis
  note stored = object_storage.upload_objects_stored [OF os up refl upload_plan_keys(1) [OF assms(4)]]
  have archived: "\<exists>token st. fileIntegrity (pk_sha384 pk) (hash_source pk (archive_map_of objs) ob') = Inr token \<and>
      store ?w (ao_key ob') = Some st \<and> carries st d' token" if "ob' \<in> set objs" "sized_entry (ao_file ob') d'" for ob' d'
    using stored [OF that(1)] that(2) by metis
  have generated: "\<exists>token st. fileIntegrity (pk_sha384 pk) (hash_source pk (archive_map_of objs) ob) = Inr token \<and>
      store ?w (?k @ encoding_suffix e) = Some st \<and> carries st c token"
    if "wants_variants pk (compressionEnabled svc) (archive_map_of objs) ob" "archive_map_of objs (?k @ encoding_suffix e) = None"
      "compressVariants (pk_enc pk) (ao_file ob) = Inr vs" "(e, c) \<in> set vs" for e c vs
  proof -
    obtain token where t: "fileIntegrity (pk_sha384 pk) (hash_source pk (archive_map_of objs) ob) = Inr token"
      "\<And>a. a \<in> set (variant_actions pk (compressionEnabled svc) (order ?k) (archive_map_of objs) ob token) \<Longrightarrow>
        object_storage.performed store a ?w" using stored [OF assms(5)] by metis
    from object_storage.variants_stored [OF os t(2) that(1)] that(2-4) t(1) show ?thesis by (metis sum.inject(2))
  qed
  from archived [OF assms(5,7)] obtain st0 where st0: "store ?w ?k = Some st0" "so_Body st0 = d" by (auto simp: carries_def)
  then have "store ?w ?k \<noteq> None" by simp
  from negotiated_object [OF assms(1) this, of pk path accepted] obtain obj e st where
    get: "getEncodedObject pk svc ?k path accepted ?w = Inr (obj, e)"
    and st: "store ?w (?k @ encoding_suffix e) = Some st" "Body obj = so_Body st"
    and chosen: "if snd (compressibleContentType (pk_mime pk) path) \<and> (\<exists>a \<in> set accepted. store ?w (?k @ encoding_suffix a) \<noteq> None)
      then \<exists>before after. accepted = before @ e # after \<and> (\<forall>b \<in> set before. store ?w (?k @ encoding_suffix b) = None) else e = ''''" by blast
  from getEncodedObject_described [OF assms(1) get] st obtain i where i: "Stat obj = Inr i" "describes i st" by blast
  have size: "oi_Size i = int (length (Body obj))" using i(2) st(2) by (simp add: describes_def)
  have carried: "Body obj = c \<and> oi_UserMetadata i CanonicalIntegrityMetadataKey = Some token"
    if "carries st c token" "fileIntegrity sha h = Inr token" for sha h c token
    using that fileIntegrity_nonempty [OF that(2)] i(2) st(2) by (auto simp: describes_def carries_def)
  have got: "GetFile pk svc name version path accepted s' = (Inr (obj, e), s')"
    using get by (simp add: GetFile_pinned [OF assms(3)] assms(6))
  show ?thesis
  proof (intro exI [of _ obj] exI [of _ e] exI [of _ i] conjI got i(1) size)
    show "if snd (compressibleContentType (pk_mime pk) path) \<and> (\<exists>a \<in> set accepted. store ?w (?k @ encoding_suffix a) \<noteq> None)
     then store ?w (?k @ encoding_suffix e) \<noteq> None \<and>
       (\<exists>before after. accepted = before @ e # after \<and> (\<forall>b \<in> set before. store ?w (?k @ encoding_suffix b) = None))
     else e = '''' \<and> Body obj = d"
      using chosen st st0 by (auto split: if_splits)
    show "\<forall>ob' d'. ob' \<in> set objs \<and> ao_key ob' = ?k @ encoding_suffix e \<and> sized_entry (ao_file ob') d' \<longrightarrow>
       Body obj = d' \<and> (\<exists>token. fileIntegrity (pk_sha384 pk) (hash_source pk (archive_map_of objs) ob') = Inr token \<and>
         oi_UserMetadata i CanonicalIntegrityMetadataKey = Some token)"
      using archived carried st(1) by (metis option.inject)
    show "\<forall>vs c. wants_variants pk (compressionEnabled svc) (archive_map_of objs) ob \<and>
       archive_map_of objs (?k @ encoding_suffix e) = None \<and>
       compressVariants (pk_enc pk) (ao_file ob) = Inr vs \<and> (e, c) \<in> set vs \<longrightarrow>
       Body obj = c \<and> (\<exists>token. fileIntegrity (pk_sha384 pk) (hash_source pk (archive_map_of objs) ob) = Inr token \<and>
         oi_UserMetadata i CanonicalIntegrityMetadataKey = Some token)"
      using generated [of e] carried st(1) by (metis option.inject)
  qed
qed

text \<open>An archive with a variant of its own, requested by a client that accepts gzip and Brotli.\<close>

definition ref_variants :: "zip_file list" where
  "ref_variants = [ref_file ''a.js'' ''abc'', ref_file ''a.js.br'' ''zz'']"

definition ref_variant_objects :: "archiveObject list" where
  "ref_variant_objects = [\<lparr>ao_key = ''p@1.0.0/a.js'', ao_file = ref_file ''a.js'' ''abc''\<rparr>,
     \<lparr>ao_key = ''p@1.0.0/a.js.br'', ao_file = ref_file ''a.js.br'' ''zz''\<rparr>]"

theorem upload_then_GetFile_witness:
  "\<exists>obj s'. CreatePackage ref_packages ref_service [] (\<lambda>_. True) ''p'' ''1.0.0'' ref_variants 100 (ref_state [] []) = (None, s') \<and>
     GetFile ref_packages ref_service ''p'' ''1.0.0'' ''/a.js'' [''gzip'', ''br''] s' = (Inr (obj, ''br''), s') \<and> Body obj = ''zz''"
proof -
  let ?up = "CreatePackage ref_packages ref_service [] (\<lambda>_. True) ''p'' ''1.0.0'' ref_variants 100 (ref_state [] [])"
  let ?ob = "ref_variant_objects ! 0" and ?br = "ref_variant_objects ! 1"
  have r: "fst ?up = None" by code_simp
  have pin: "IsPinnedVersion (pk_semver ref_packages) ''1.0.0''" by code_simp
  have "archiveKeys (pk_NFC ref_packages) (pk_ignore ref_packages) ref_variants (''p'' @ ''@'' @ ''1.0.0'') = Inr ref_variant_objects"
    "pk_zip ref_packages ref_variants 100 = Inr ref_variants"
    "checkArchiveLimits (uploadLimits ref_service) ref_variants = None"
    "packageNamePattern ''p'' \<and> isFullSemver (pk_semver ref_packages) ''1.0.0''"
    "100 \<le> MaxSize (uploadLimits ref_service)"
    "\<not> os_ObjectExists (objectStorageManager ref_service) (''p'' @ ''@'' @ ''1.0.0'') []"
    by code_simp+
  then have plan: "upload_plan ref_packages ref_service ''p'' ''1.0.0'' ref_variants 100 (gs_storage (ref_state [] [])) ref_variant_objects"
    unfolding upload_plan_def ref_state_sel by blast
  have ob: "?ob \<in> set ref_variant_objects" "ao_key ?ob = ''p'' @ ''@'' @ ''1.0.0'' @ ''/a.js''"
    and br: "?br \<in> set ref_variant_objects" "ao_key ?br = ao_key ?ob @ encoding_suffix ''br''"
    by (simp_all add: ref_variant_objects_def encoding_suffix_def EncodingBrotli_def)
  have names: "\<not> HasSuffix ''a.js'' ''/''" "\<not> HasSuffix ''a.js.br'' ''/''" by code_simp+
  then have sized: "sized_entry (ao_file ?ob) ''abc''" "sized_entry (ao_file ?br) ''zz''"
    using ref_file_sized(1) [of "''abc''" "''a.js''"] ref_file_sized(1) [of "''zz''" "''a.js.br''"] by (simp_all add: ref_variant_objects_def)
  have coding: "case fst (GetFile ref_packages ref_service ''p'' ''1.0.0'' ''/a.js'' [''gzip'', ''br''] (snd ?up)) of
    Inl _ \<Rightarrow> False | Inr (_, e) \<Rightarrow> e = ''br''" by code_simp
  from upload_then_GetFile [OF ref_storage.reliable_storage_axioms fst_eq_pair [OF r] pin plan ob sized(1), of "[''gzip'', ''br'']"]
  obtain obj e where got: "GetFile ref_packages ref_service ''p'' ''1.0.0'' ''/a.js'' [''gzip'', ''br''] (snd ?up) = (Inr (obj, e), snd ?up)"
    and own: "\<And>ob' d'. ob' \<in> set ref_variant_objects \<Longrightarrow> ao_key ob' = ao_key ?ob @ encoding_suffix e \<Longrightarrow> sized_entry (ao_file ob') d' \<Longrightarrow> Body obj = d'"
    by metis
  from coding [unfolded got] have e: "e = ''br''" by simp
  from own [OF br [folded e] sized(2)] got fst_eq_pair [OF r] show ?thesis unfolding e by blast
qed

end
