(* ===== verification/Gimme_UploadSpec.thy ===== *)
theory Gimme_UploadSpec
  imports Gimme_Upload Gimme_Ref
begin

text \<open>
  The properties of \<open>CreatePackage\<close>, for every schedule of its goroutines: what a
  successful upload stores, that a failed one leaves nothing behind, that a published version
  is never overwritten and that a valid upload succeeds. They are stated for any storage that
  meets the contract of the interface; the examples run on the in-memory storage.
\<close>

lemma fileIntegrity_total:
  assumes "sized_entry f d" and "unat (UncompressedSize64 f) < 2 ^ 63 - 1"
  shows "\<exists>token. fileIntegrity sha f = Inr token"
proof -
  obtain rd where rd: "Open f = Inr rd" "rd_err rd = None" "length (rd_data rd) = unat (UncompressedSize64 f)"
    using assms(1) by (auto simp: sized_entry_def)
  have "\<not> 2 ^ 63 - 1 \<le> UncompressedSize64 f"
    using assms(2) by (simp add: word_le_nat_alt unat_sub word_less_nat_alt)
  with rd show ?thesis by (simp add: fileIntegrity_def Let_def copy_limited_def)
qed

lemma compressVariants_total:
  assumes "sized_entry f d" and "\<And>s. \<exists>r. brotli_encode enc s = Inr r" and "\<And>s. \<exists>r. gzip_encode enc s = Inr r"
  shows "\<exists>vs. compressVariants enc f = Inr vs"
proof -
  obtain rd where rd: "Open f = Inr rd" "rd_err rd = None" using assms(1) by (auto simp: sized_entry_def)
  then obtain c where c: "copy_limited (compressionMaxSize + 1) rd = (c, None)" by (cases "compressionMaxSize + 1 \<le> length (rd_data rd)") (auto simp: copy_limited_def)
  obtain b g where "brotli_encode enc c = Inr b" "gzip_encode enc c = Inr g" using assms(2,3) by blast
  with rd c show ?thesis unfolding compressVariants_def by simp
qed

lemma encodedVariantSource_member:
  assumes "encodedVariantSource mime files k = Some f"
  shows "\<exists>k'. files k' = Some f"
proof -
  have "variant_source_loop mime files k es = Some f \<Longrightarrow> \<exists>k'. files k' = Some f" for es
    by (induction es) (auto split: prod.splits if_splits option.splits)
  with assms show ?thesis unfolding encodedVariantSource_def by blast
qed

lemma hash_source_member:
  assumes "ob \<in> set objs"
  shows "\<exists>ob' \<in> set objs. hash_source pk (archive_map_of objs) ob = ao_file ob'"
proof (cases "encodedVariantSource (pk_mime pk) (archive_map_of objs) (ao_key ob)")
  case (Some f)
  from encodedVariantSource_member [OF this] show ?thesis
    using Some by (auto simp: hash_source_def archive_map_of_def dest!: map_of_SomeD)
qed (use assms in \<open>auto simp: hash_source_def\<close>)

subsection \<open>Properties\<close>

text \<open>C2: A successful upload, whatever the interleaving of its goroutines, has stored every
  published file of the archive under its key with the integrity token of its decoded content, and
  with its whole content when the entry reads to its declared size, together with the compressed
  variants it generates, and has touched nothing outside the folder of the package version.\<close>

theorem CreatePackage_publishes:
  assumes "object_storage (objectStorageManager svc) store"
    and "CreatePackage pk svc sched order name version file n s = (None, s')"
  shows "\<exists>objs. upload_plan pk svc name version file n (gs_storage s) objs \<and>
    (\<forall>ob \<in> set objs. \<exists>token. fileIntegrity (pk_sha384 pk) (hash_source pk (archive_map_of objs) ob) = Inr token \<and>
       (\<forall>d. sized_entry (ao_file ob) d \<longrightarrow> (\<exists>st. store (gs_storage s') (ao_key ob) = Some st \<and> carries st d token)) \<and>
       (wants_variants pk (compressionEnabled svc) (archive_map_of objs) ob \<longrightarrow>
          (\<exists>vs. compressVariants (pk_enc pk) (ao_file ob) = Inr vs \<and>
             (\<forall>(e, d) \<in> set vs. archive_map_of objs (ao_key ob @ encoding_suffix e) = None \<longrightarrow>
                (\<exists>st. store (gs_storage s') (ao_key ob @ encoding_suffix e) = Some st \<and> carries st d token))))) \<and>
    (\<forall>k. \<not> prefix (name @ ''@'' @ version @ ''/'') k \<longrightarrow> store (gs_storage s') k = store (gs_storage s) k)"
proof -
  obtain objs where plan: "upload_plan pk svc name version file n (gs_storage s) objs"
    and up: "upload_objects pk svc sched order objs (gs_storage s) = (None, gs_storage s')"
    by (rule CreatePackage_success [OF assms(2)])
  note keys = upload_plan_keys [OF plan]
  show ?thesis
  proof (intro exI [of _ objs] conjI ballI allI impI)
    fix ob
    assume "ob \<in> set objs"
    from object_storage.upload_objects_stored [OF assms(1) up refl keys(1) this]
    obtain token where t: "fileIntegrity (pk_sha384 pk) (hash_source pk (archive_map_of objs) ob) = Inr token"
      "\<And>d. sized_entry (ao_file ob) d \<Longrightarrow> \<exists>st. store (gs_storage s') (ao_key ob) = Some st \<and> carries st d token"
      "\<And>a. a \<in> set (variant_actions pk (compressionEnabled svc) (order (ao_key ob)) (archive_map_of objs) ob token) \<Longrightarrow>
        object_storage.performed store a (gs_storage s')" by blast
    have "\<exists>vs. compressVariants (pk_enc pk) (ao_file ob) = Inr vs \<and>
             (\<forall>(e, d) \<in> set vs. archive_map_of objs (ao_key ob @ encoding_suffix e) = None \<longrightarrow>
                (\<exists>st. store (gs_storage s') (ao_key ob @ encoding_suffix e) = Some st \<and> carries st d token))"
      if "wants_variants pk (compressionEnabled svc) (archive_map_of objs) ob"
      by (rule object_storage.variants_stored [OF assms(1) t(3) that]) auto
    with t(1,2) show "\<exists>token. fileIntegrity (pk_sha384 pk) (hash_source pk (archive_map_of objs) ob) = Inr token \<and>
       (\<forall>d. sized_entry (ao_file ob) d \<longrightarrow> (\<exists>st. store (gs_storage s') (ao_key ob) = Some st \<and> carries st d token)) \<and>
       (wants_variants pk (compressionEnabled svc) (archive_map_of objs) ob \<longrightarrow>
          (\<exists>vs. compressVariants (pk_enc pk) (ao_file ob) = Inr vs \<and>
             (\<forall>(e, d) \<in> set vs. archive_map_of objs (ao_key ob @ encoding_suffix e) = None \<longrightarrow>
                (\<exists>st. store (gs_storage s') (ao_key ob @ encoding_suffix e) = Some st \<and> carries st d token))))"
      by blast
  qed (use plan object_storage.upload_objects_frame [OF assms(1) up refl keys(2)] in auto)
qed

definition ref_archive :: "zip_file list" where
  "ref_archive = [ref_file ''d/a.js'' ''abcdefgh'', ref_file ''d/b/c.txt'' ''xyz'']"

abbreviation ref_upload :: "nat list \<Rightarrow> zip_file list \<Rightarrow> mem_world \<Rightarrow> GimmeError option \<times> (mem_world, mem_redis_world) gstate" where
  "ref_upload sched archive w \<equiv>
     CreatePackage ref_packages ref_service sched (\<lambda>_. False) ''p'' ''1.0.0'' archive 100 (ref_state w [])"

theorem CreatePackage_publishes_witness:
  "fst (ref_upload [1, 0, 1] ref_archive []) = None \<and>
   map_option so_Body (mem_objs ''gimme'' (gs_storage (snd (ref_upload [1, 0, 1] ref_archive []))) ''p@1.0.0/a.js'') = Some ''abcdefgh'' \<and>
   (\<exists>objs. upload_plan ref_packages ref_service ''p'' ''1.0.0'' ref_archive 100 [] objs)"
proof -
  have r: "fst (ref_upload [1, 0, 1] ref_archive []) = None" by code_simp
  have v: "map_option so_Body (mem_objs ''gimme'' (gs_storage (snd (ref_upload [1, 0, 1] ref_archive []))) ''p@1.0.0/a.js'') = Some ''abcdefgh''"
    by code_simp
  from CreatePackage_publishes [OF ref_storage.object_storage_axioms fst_eq_pair [OF r]] v r show ?thesis
    unfolding ref_state_sel by blast
qed

text \<open>C1: On a storage whose calls do not fail, an upload is all or nothing: if it reports an
  error, the storage holds exactly what it held before and cache and counters are unchanged.\<close>

theorem CreatePackage_atomic:
  assumes "reliable_storage (objectStorageManager svc) store"
    and "CreatePackage pk svc sched order name version file n s = (Some e, s')"
  shows "store (gs_storage s') = store (gs_storage s) \<and> s' = s\<lparr>gs_storage := gs_storage s'\<rparr>"
proof (cases "\<exists>objs. upload_plan pk svc name version file n (gs_storage s) objs")
  case False
  from CreatePackage_unplanned [OF this, of sched order] assms(2) show ?thesis by auto
next
  case True
  then obtain objs where plan: "upload_plan pk svc name version file n (gs_storage s) objs" by blast
  obtain err w1 where up: "upload_objects pk svc sched order objs (gs_storage s) = (Some err, w1)"
    and s': "s' = s\<lparr>gs_storage := snd (rollbackPartialUpload svc (name @ ''@'' @ version) err w1)\<rparr>"
    using assms(2) unfolding CreatePackage_planned [OF plan] by (auto split: prod.splits option.splits)
  from reliable_storage.rollback_restores [OF assms(1) refl plan up] s' show ?thesis by simp
qed

definition ref_broken :: "zip_file list" where
  "ref_broken = [ref_file ''d/a.js'' ''abc'', (ref_file ''d/b.js'' ''xyz'')\<lparr>UncompressedSize64 := 5\<rparr>]"

theorem CreatePackage_atomic_witness:
  "\<exists>e. fst (ref_upload [0] ref_broken [ref_object ''p@2.0.0/x'' ''y'']) = Some e \<and> Kind e = InternalError \<and>
     mem_objs ''gimme'' (gs_storage (snd (ref_upload [0] ref_broken [ref_object ''p@2.0.0/x'' ''y'']))) =
       mem_objs ''gimme'' [ref_object ''p@2.0.0/x'' ''y'']"
proof -
  let ?e = "NewBusinessError InternalError (UploadFailed (UnexpectedSize ''d/b.js'' 3 5))"
  have r: "fst (ref_upload [0] ref_broken [ref_object ''p@2.0.0/x'' ''y'']) = Some ?e" by code_simp
  have "Kind ?e = InternalError" by (simp add: NewBusinessError_def)
  with CreatePackage_atomic [OF ref_storage.reliable_storage_axioms fst_eq_pair [OF r]] r show ?thesis
    unfolding ref_state_sel by blast
qed

text \<open>C29: Whatever calls of the storage fail, a failed upload touches no key outside the folder
  of its package version, and it either stored nothing, or its rollback removed every key of
  the folder, or the error tells the caller that the partial upload has to be removed.\<close>

theorem CreatePackage_failure:
  assumes "object_storage (objectStorageManager svc) store"
    and "CreatePackage pk svc sched order name version file n s = (Some e, s')"
  defines "folder \<equiv> name @ ''@'' @ version"
  shows "(\<forall>k. \<not> prefix (folder @ ''/'') k \<longrightarrow> store (gs_storage s') k = store (gs_storage s) k) \<and>
    (s' = s \<or>
     (\<exists>err. e = NewBusinessError InternalError (UploadFailed err) \<and>
        (\<forall>k. prefix (folder @ ''/'') k \<longrightarrow> store (gs_storage s') k = None)) \<or>
     (\<exists>err. e = NewBusinessError InternalError (UploadFailedNotRemoved err folder)))"
proof (cases "\<exists>objs. upload_plan pk svc name version file n (gs_storage s) objs")
  case False
  from CreatePackage_unplanned [OF this, of sched order] assms(2) show ?thesis by auto
next
  case True
  then obtain objs where plan: "upload_plan pk svc name version file n (gs_storage s) objs" by blast
  obtain err w1 where up: "upload_objects pk svc sched order objs (gs_storage s) = (Some err, w1)"
    and s': "rollbackPartialUpload svc folder err w1 = (e, gs_storage s')"
    using assms(2) unfolding CreatePackage_planned [OF plan] folder_def by (auto split: prod.splits option.splits)
  have out: "store w1 k = store (gs_storage s) k" if "\<not> prefix (folder @ ''/'') k" for k
    using object_storage.upload_objects_frame [OF assms(1) up refl upload_plan_keys(2) [OF plan]] that
    by (simp add: folder_def)
  obtain r where rm: "os_RemoveObjects (objectStorageManager svc) (folder @ ''/'') w1 = (r, gs_storage s')"
    and e: "e = NewBusinessError InternalError (if r = None then UploadFailed err else UploadFailedNotRemoved err folder)"
    using s' by (auto simp: rollbackPartialUpload_def split: prod.splits option.splits)
  have "store (gs_storage s') k = store (gs_storage s) k" if "\<not> prefix (folder @ ''/'') k" for k
    using object_storage.remove_frame [OF assms(1) rm that] out [OF that] by simp
  moreover have "store (gs_storage s') k = None" if "r = None" and "prefix (folder @ ''/'') k" for k
    using object_storage.remove_ok [OF assms(1) rm [unfolded that(1)]] that(2) by simp
  ultimately show ?thesis using e by (cases r) auto
qed

theorem CreatePackage_failure_witness:
  "\<exists>e. fst (ref_upload [1, 1] ref_broken [ref_object ''p@1.0.0-rc/x'' ''y'']) = Some e \<and>
     mem_objs ''gimme'' (gs_storage (snd (ref_upload [1, 1] ref_broken [ref_object ''p@1.0.0-rc/x'' ''y'']))) ''p@1.0.0-rc/x'' \<noteq> None"
proof -
  let ?e = "NewBusinessError InternalError (UploadFailed (UnexpectedSize ''d/b.js'' 3 5))"
  have r: "fst (ref_upload [1, 1] ref_broken [ref_object ''p@1.0.0-rc/x'' ''y'']) = Some ?e" by code_simp
  have "\<not> prefix ((''p'' @ ''@'' @ ''1.0.0'') @ ''/'') ''p@1.0.0-rc/x''" by simp
  with CreatePackage_failure [OF ref_storage.object_storage_axioms fst_eq_pair [OF r]]
  have "mem_objs ''gimme'' (gs_storage (snd (ref_upload [1, 1] ref_broken [ref_object ''p@1.0.0-rc/x'' ''y'']))) ''p@1.0.0-rc/x'' =
    mem_objs ''gimme'' [ref_object ''p@1.0.0-rc/x'' ''y''] ''p@1.0.0-rc/x''"
    unfolding ref_state_sel by blast
  moreover have "mem_objs ''gimme'' [ref_object ''p@1.0.0-rc/x'' ''y''] ''p@1.0.0-rc/x'' \<noteq> None" by code_simp
  ultimately show ?thesis using r by simp
qed

text \<open>C27: On a reliable storage, whose calls do not fail, a published version is immutable: while the
  storage holds any file of it, an upload of the same name and version stores nothing and fails,
  with a conflict when the request itself is acceptable. (When the listing behind the check fails the
  check finds nothing and the upload goes on.)\<close>

theorem CreatePackage_immutable:
  assumes "reliable_storage (objectStorageManager svc) store"
    and "k \<in> dom (store (gs_storage s))" and "prefix (name @ ''@'' @ version @ ''/'') k"
  shows "\<exists>e. CreatePackage pk svc sched order name version file n s = (Some e, s) \<and>
    (packageNamePattern name \<and> isFullSemver (pk_semver pk) version \<and>
       (0 < MaxSize (uploadLimits svc) \<longrightarrow> n \<le> MaxSize (uploadLimits svc)) \<and>
       (\<exists>archive. pk_zip pk file n = Inr archive \<and> checkArchiveLimits (uploadLimits svc) archive = None) \<longrightarrow>
     e = NewBusinessError Conflict (PackageExists (name @ ''@'' @ version)))"
proof -
  have ex: "os_ObjectExists (objectStorageManager svc) (name @ ''@'' @ version) (gs_storage s)"
    using reliable_storage.exists_iff [OF assms(1)] assms(2,3) by fastforce
  then have "\<nexists>objs. upload_plan pk svc name version file n (gs_storage s) objs" by (simp add: upload_plan_def)
  from CreatePackage_unplanned [OF this] obtain e where "CreatePackage pk svc sched order name version file n s = (Some e, s)"
    by blast
  with ex show ?thesis
    by (auto simp: CreatePackage_def validatePackageIdentity_def Let_def)
qed

theorem CreatePackage_immutable_witness:
  "ref_upload [] ref_archive [ref_object ''p@1.0.0/old'' ''y''] =
     (Some (NewBusinessError Conflict (PackageExists ''p@1.0.0'')), ref_state [ref_object ''p@1.0.0/old'' ''y''] [])"
proof -
  have k: "''p@1.0.0/old'' \<in> dom (mem_objs ''gimme'' (gs_storage (ref_state [ref_object ''p@1.0.0/old'' ''y''] [])))"
    unfolding domIff ref_state_sel by code_simp
  have pre: "prefix (''p'' @ ''@'' @ ''1.0.0'' @ ''/'') ''p@1.0.0/old''" by simp
  have c: "fst (ref_upload [] ref_archive [ref_object ''p@1.0.0/old'' ''y'']) = Some (NewBusinessError Conflict (PackageExists ''p@1.0.0''))"
    by code_simp
  obtain e where r: "ref_upload [] ref_archive [ref_object ''p@1.0.0/old'' ''y''] = (Some e, ref_state [ref_object ''p@1.0.0/old'' ''y''] [])"
    using CreatePackage_immutable [OF ref_storage.reliable_storage_axioms k pre,
      where pk = ref_packages and sched = "[]" and order = "\<lambda>_. False" and ?file = ref_archive and n = 100]
    by (elim exE conjE) (rule that)
  from c [unfolded r fst_conv] r show ?thesis by (simp only:)
qed

text \<open>C28: On a storage whose calls do not fail, an acceptable upload succeeds under every schedule
  when its entries read to their declared sizes and the encoders do not fail.\<close>

theorem CreatePackage_succeeds:
  assumes "reliable_storage (objectStorageManager svc) store"
    and "upload_plan pk svc name version file n (gs_storage s) objs"
    and "\<And>ob. ob \<in> set objs \<Longrightarrow> (\<exists>d. sized_entry (ao_file ob) d) \<and> unat (UncompressedSize64 (ao_file ob)) < 2 ^ 63 - 1"
    and "\<And>d. \<exists>r. brotli_encode (pk_enc pk) d = Inr r" and "\<And>d. \<exists>r. gzip_encode (pk_enc pk) d = Inr r"
  shows "\<exists>s'. CreatePackage pk svc sched order name version file n s = (None, s') \<and>
    PackagesUploadedTotal s' = PackagesUploadedTotal s + 1"
proof -
  let ?t = "upload_task pk (compressionEnabled svc) order (archive_map_of objs)"
  have good: "reliable_storage.good_action a" if "t \<in> set (map ?t objs)" and "a \<in> set t" for t a
  proof -
    from that(1) obtain ob where ob: "ob \<in> set objs" "t = ?t ob" by auto
    obtain ob' where "ob' \<in> set objs" "hash_source pk (archive_map_of objs) ob = ao_file ob'"
      using hash_source_member [OF ob(1)] by blast
    then obtain token where tok: "fileIntegrity (pk_sha384 pk) (hash_source pk (archive_map_of objs) ob) = Inr token"
      using fileIntegrity_total assms(3) by metis
    obtain vs where vs: "compressVariants (pk_enc pk) (ao_file ob) = Inr vs"
      using compressVariants_total [OF _ assms(4,5)] assms(3) [OF ob(1)] by blast
    from that(2) ob(2) tok vs assms(3) [OF ob(1)] show ?thesis
      by (auto simp: upload_task_def variant_actions_eq reliable_storage.good_action_def [OF assms(1)] split: if_splits)
  qed
  have "snd (snd (run_group (objectStorageManager svc) sched (map ?t objs) (gs_storage s))) = None"
    unfolding run_group_def by (rule reliable_storage.group_no_error [OF assms(1)]) (rule good)
  then have "fst (upload_objects pk svc sched order objs (gs_storage s)) = None"
    by (simp add: upload_objects_def case_prod_unfold)
  then show ?thesis unfolding CreatePackage_planned [OF assms(2)] by (auto split: prod.splits)
qed

theorem CreatePackage_succeeds_witness:
  "\<exists>s'. ref_upload [1, 1, 0] ref_archive [] = (None, s') \<and> PackagesUploadedTotal s' = 1"
proof -
  let ?objs = "[\<lparr>ao_key = ''p@1.0.0/a.js'', ao_file = ref_file ''d/a.js'' ''abcdefgh''\<rparr>,
    \<lparr>ao_key = ''p@1.0.0/b/c.txt'', ao_file = ref_file ''d/b/c.txt'' ''xyz''\<rparr>]"
  have "archiveKeys (pk_NFC ref_packages) (pk_ignore ref_packages) ref_archive (''p'' @ ''@'' @ ''1.0.0'') = Inr ?objs"
    "pk_zip ref_packages ref_archive 100 = Inr ref_archive"
    "checkArchiveLimits (uploadLimits ref_service) ref_archive = None"
    "packageNamePattern ''p'' \<and> isFullSemver (pk_semver ref_packages) ''1.0.0''"
    "100 \<le> MaxSize (uploadLimits ref_service)"
    "\<not> os_ObjectExists (objectStorageManager ref_service) (''p'' @ ''@'' @ ''1.0.0'') []"
    by code_simp+
  then have plan: "upload_plan ref_packages ref_service ''p'' ''1.0.0'' ref_archive 100 (gs_storage (ref_state [] [])) ?objs"
    unfolding upload_plan_def ref_state_sel by blast
  have files: "\<not> HasSuffix ''d/a.js'' ''/''" "\<not> HasSuffix ''d/b/c.txt'' ''/''" by code_simp+
  have sized: "(\<exists>d. sized_entry (ao_file ob) d) \<and> unat (UncompressedSize64 (ao_file ob)) < 2 ^ 63 - 1" if "ob \<in> set ?objs" for ob
    using that ref_file_sized [of "''abcdefgh''" "''d/a.js''"] ref_file_sized [of "''xyz''" "''d/b/c.txt''"] files by auto
  have enc: "\<exists>r. brotli_encode (pk_enc ref_packages) d = Inr r" "\<exists>r. gzip_encode (pk_enc ref_packages) d = Inr r" for d
    by (simp_all add: ref_packages_def)
  have "PackagesUploadedTotal (ref_state [] []) = 0" by (simp add: ref_state_def)
  then show ?thesis
    using CreatePackage_succeeds [OF ref_storage.reliable_storage_axioms plan sized enc, of "[1, 1, 0]" "\<lambda>_. False"] by simp
qed

end
