(* ===== verification/Gimme_Interleave.thy ===== *)
theory Gimme_Interleave
  imports Gimme_Serve Gimme_UploadSpec
begin

text \<open>
  Requests that run at the same time. \<open>GetFile\<close> and \<open>DeletePackage\<close> of
  internal/content/content-service.go are cut at their calls to the storage and to the cache, and
  \<open>CreatePackage\<close> at its phases: between two steps other requests may run. A download
  looks into the cache, resolves the version, fetches the object and remembers the path; a deletion
  removes the objects and then invalidates one prefix after the other; an upload checks the
  request, stores the files, and removes them again when that fails. Run without interruption, the steps are the operations of
  Gimme_Content. In a pool of requests the storage may also change in any way between two steps,
  which covers the calls inside a step and other servers.
\<close>

subsection \<open>The steps of a download\<close>

record download =
  dl_pkg :: string
  dl_version :: string
  dl_file :: string
  dl_accepted :: "Encoding list"

datatype download_task =
    Lookup
  | Resolve
  | Fetch string bool
  | Remember string "s3_object \<times> Encoding"
  | Answered "GimmeError + (s3_object \<times> Encoding)"

abbreviation cache_key :: "download \<Rightarrow> string" where
  "cache_key d \<equiv> dl_pkg d @ ''@'' @ dl_version d @ dl_file d"

text \<open>The flag of \<open>Fetch\<close> says that the path was resolved and is to be remembered.\<close>

fun download_step ::
  "'f packages \<Rightarrow> ('w, 'c) ContentService \<Rightarrow> download \<Rightarrow> download_task \<times> ('w, 'c) gstate \<Rightarrow> download_task \<times> ('w, 'c) gstate" where
  "download_step pk svc d (Lookup, s) =
     (if \<not> (dl_version d = latestVersionAlias \<or> IsValid (pk_semver pk) (''v'' @ dl_version d))
      then (Answered (Inl (NewBusinessError BadRequest InvalidVersion)), s)
      else (case (if IsPinnedVersion (pk_semver pk) (dl_version d) then None else cacheManager svc) of
              None \<Rightarrow> (Resolve, s)
            | Some cm \<Rightarrow>
                (case cache_Get cm (cache_key d) (gs_cache s) of
                   Some entry \<Rightarrow> (Fetch (ObjectPath entry) False, s\<lparr>CacheHitsTotal := CacheHitsTotal s + 1\<rparr>)
                 | None \<Rightarrow> (Resolve, s\<lparr>CacheMissesTotal := CacheMissesTotal s + 1\<rparr>))))"
| "download_step pk svc d (Resolve, s) =
     (Fetch (file_path pk svc (dl_pkg d) (dl_version d) (dl_file d) (gs_storage s))
        (\<not> IsPinnedVersion (pk_semver pk) (dl_version d) \<and> cacheManager svc \<noteq> None), s)"
| "download_step pk svc d (Fetch objectPath resolved, s) =
     (case getEncodedObject pk svc objectPath (dl_file d) (dl_accepted d) (gs_storage s) of
        Inl err \<Rightarrow> (Answered (Inl err), s)
      | Inr r \<Rightarrow> (if resolved then Remember objectPath r else Answered (Inr r), s))"
| "download_step pk svc d (Remember objectPath r, s) =
     (Answered (Inr r),
      (case cacheManager svc of
         None \<Rightarrow> s
       | Some cm \<Rightarrow> s\<lparr>gs_cache := snd (cache_Set cm (cache_key d) \<lparr>ObjectPath = objectPath\<rparr> (cacheTTL svc) (gs_cache s))\<rparr>))"
| "download_step pk svc d (Answered r, s) = (Answered r, s)"

subsection \<open>The steps of a deletion\<close>

datatype deletion_task =
    Remove
  | Invalidate "string list"
  | Deleted "GimmeError option"

fun deletion_step ::
  "'f packages \<Rightarrow> ('w, 'c) ContentService \<Rightarrow> string \<Rightarrow> string \<Rightarrow> deletion_task \<times> ('w, 'c) gstate \<Rightarrow> deletion_task \<times> ('w, 'c) gstate" where
  "deletion_step pk svc pkg version (Remove, s) =
     (case validatePackageIdentity (pk_semver pk) pkg version of
        Some err \<Rightarrow> (Deleted (Some (NewBusinessError BadRequest err)), s)
      | None \<Rightarrow>
          (case os_RemoveObjects (objectStorageManager svc) (pkg @ ''@'' @ version @ ''/'') (gs_storage s) of
             (Some err, w') \<Rightarrow> (Deleted (Some err), s\<lparr>gs_storage := w'\<rparr>)
           | (None, w') \<Rightarrow>
               (Invalidate (case cacheManager svc of None \<Rightarrow> []
                  | Some cm \<Rightarrow> (pkg @ ''@'' @ version) # mutableAliasPrefixes pkg version), s\<lparr>gs_storage := w'\<rparr>)))"
| "deletion_step pk svc pkg version (Invalidate [], s) =
     (Deleted None, s\<lparr>PackagesDeletedTotal := PackagesDeletedTotal s + 1\<rparr>)"
| "deletion_step pk svc pkg version (Invalidate (p # ps), s) =
     (Invalidate ps,
      (case cacheManager svc of
         None \<Rightarrow> s
       | Some cm \<Rightarrow> s\<lparr>gs_cache := snd (cache_DeleteByPrefix cm p (gs_cache s))\<rparr>))"
| "deletion_step pk svc pkg version (Deleted r, s) = (Deleted r, s)"

subsection \<open>The steps of an upload\<close>

record 'f upload =
  up_name :: string
  up_version :: string
  up_file :: 'f
  up_size :: int
  up_sched :: "nat list"
  up_order :: "key \<Rightarrow> bool"

datatype upload_task =
    Check
  | Store "archiveObject list"
  | Rollback go_error
  | Uploaded "GimmeError option"

text \<open>The check of the request looks into the storage once, for a package of that name and version;
  the calls of the goroutines, for a schedule of theirs, are one step here.\<close>

fun upload_step ::
  "'f packages \<Rightarrow> ('w, 'c) ContentService \<Rightarrow> 'f upload \<Rightarrow> upload_task \<times> ('w, 'c) gstate \<Rightarrow> upload_task \<times> ('w, 'c) gstate" where
  "upload_step pk svc u (Check, s) =
     (case validatePackageIdentity (pk_semver pk) (up_name u) (up_version u) of
        Some err \<Rightarrow> (Uploaded (Some (NewBusinessError BadRequest err)), s)
      | None \<Rightarrow>
     if 0 < MaxSize (uploadLimits svc) \<and> MaxSize (uploadLimits svc) < up_size u
     then (Uploaded (Some (NewBusinessError PayloadTooLarge (RequestTooLarge (MaxSize (uploadLimits svc))))), s)
     else (case pk_zip pk (up_file u) (up_size u) of
        Inl _ \<Rightarrow> (Uploaded (Some (NewBusinessError InternalError ReadingZip)), s)
      | Inr archive \<Rightarrow>
     (case checkArchiveLimits (uploadLimits svc) archive of
        Some limitErr \<Rightarrow> (Uploaded (Some limitErr), s)
      | None \<Rightarrow>
     (let folderName = up_name u @ ''@'' @ up_version u
      in if os_ObjectExists (objectStorageManager svc) folderName (gs_storage s)
         then (Uploaded (Some (NewBusinessError Conflict (PackageExists folderName))), s)
         else (case archiveKeys (pk_NFC pk) (pk_ignore pk) archive folderName of
            Inl validationErr \<Rightarrow> (Uploaded (Some validationErr), s)
          | Inr objects \<Rightarrow> (Store objects, s))))))"
| "upload_step pk svc u (Store objects, s) =
     (case upload_objects pk svc (up_sched u) (up_order u) objects (gs_storage s) of
        (Some err, w) \<Rightarrow> (Rollback err, s\<lparr>gs_storage := w\<rparr>)
      | (None, w) \<Rightarrow> (Uploaded None, s\<lparr>gs_storage := w, PackagesUploadedTotal := PackagesUploadedTotal s + 1\<rparr>))"
| "upload_step pk svc u (Rollback err, s) =
     (case rollbackPartialUpload svc (up_name u @ ''@'' @ up_version u) err (gs_storage s) of
        (e, w) \<Rightarrow> (Uploaded (Some e), s\<lparr>gs_storage := w\<rparr>))"
| "upload_step pk svc u (Uploaded r, s) = (Uploaded r, s)"

subsection \<open>Uninterrupted requests\<close>

lemma download_steps:
  "(download_step pk svc d ^^ 4) t = download_step pk svc d (download_step pk svc d (download_step pk svc d (download_step pk svc d t)))"
  by (simp add: numeral_eq_Suc)

lemma download_uninterrupted:
  "(download_step pk svc d ^^ 4) (Lookup, s) =
     (case GetFile pk svc (dl_pkg d) (dl_version d) (dl_file d) (dl_accepted d) s of (r, s') \<Rightarrow> (Answered r, s'))"
proof (cases "dl_version d = latestVersionAlias \<or> IsValid (pk_semver pk) (''v'' @ dl_version d)")
  case valid: True
  let ?path = "file_path pk svc (dl_pkg d) (dl_version d) (dl_file d) (gs_storage s)"
  show ?thesis
  proof (cases "if IsPinnedVersion (pk_semver pk) (dl_version d) then None else cacheManager svc")
    case None
    then have no: "\<not> (\<not> IsPinnedVersion (pk_semver pk) (dl_version d) \<and> cacheManager svc \<noteq> None)" by (auto split: if_splits)
    show ?thesis
      by (cases "getEncodedObject pk svc ?path (dl_file d) (dl_accepted d) (gs_storage s)")
        (simp_all only: download_steps download_step.simps GetFile_def Let_def valid None no not_True_eq_False if_False option.case sum.case prod.case)
  next
    case (Some cm)
    then have yes: "\<not> IsPinnedVersion (pk_semver pk) (dl_version d)" "cacheManager svc = Some cm" by (auto split: if_splits)
    show ?thesis
    proof (cases "cache_Get cm (cache_key d) (gs_cache s)")
      case None
      then show ?thesis
        by (cases "getEncodedObject pk svc ?path (dl_file d) (dl_accepted d) (gs_storage s)")
          (use valid yes in \<open>simp_all add: download_steps GetFile_def\<close>)
    next
      case (Some entry)
      then show ?thesis
        by (cases "getEncodedObject pk svc (ObjectPath entry) (dl_file d) (dl_accepted d) (gs_storage s)")
          (use valid yes in \<open>simp_all add: download_steps GetFile_def\<close>)
    qed
  qed
qed (simp add: download_steps GetFile_def)

lemma invalidations_uninterrupted:
  "cacheManager svc = Some cm \<Longrightarrow>
     (deletion_step pk svc pkg version ^^ Suc (length ps)) (Invalidate ps, s) =
       (Deleted None, s\<lparr>gs_cache := invalidate cm ps (gs_cache s), PackagesDeletedTotal := PackagesDeletedTotal s + 1\<rparr>)"
  by (induction ps arbitrary: s) (simp_all add: funpow_Suc_right del: funpow.simps)

lemma deletion_answered: "(deletion_step pk svc pkg version ^^ n) (Deleted r, s) = (Deleted r, s)"
  by (induction n) simp_all

lemma deletion_uninterrupted:
  "(deletion_step pk svc pkg version ^^ (3 + length (mutableAliasPrefixes pkg version))) (Remove, s) =
     (case DeletePackage pk svc pkg version s of (r, s') \<Rightarrow> (Deleted r, s'))"
proof -
  let ?ps = "(pkg @ ''@'' @ version) # mutableAliasPrefixes pkg version" and ?step = "deletion_step pk svc pkg version"
  have n: "3 + length (mutableAliasPrefixes pkg version) = Suc (Suc (length ?ps))" by simp
  show ?thesis
  proof (cases "validatePackageIdentity (pk_semver pk) pkg version")
    case valid: None
    obtain r w' where rm: "os_RemoveObjects (objectStorageManager svc) (pkg @ ''@'' @ version @ ''/'') (gs_storage s) = (r, w')"
      by fastforce
    show ?thesis
    proof (cases r)
      case None
      then show ?thesis
      proof (cases "cacheManager svc")
        case off: None
        then show ?thesis
          using valid rm None unfolding n funpow_Suc_right
          by (simp add: DeletePackage_def Let_def deletion_answered funpow_Suc_right del: funpow.simps)
      next
        case (Some cm)
        with valid rm None invalidations_uninterrupted [OF Some, where ps = ?ps and s = "s\<lparr>gs_storage := w'\<rparr>"] show ?thesis
          unfolding n funpow_Suc_right [of "Suc (length ?ps)"] comp_apply
          by (simp add: DeletePackage_def Let_def del: funpow.simps invalidate.simps mutableAliasPrefixes_def)
      qed
    qed (use valid rm in \<open>simp add: n funpow_Suc_right deletion_answered DeletePackage_def Let_def del: funpow.simps\<close>)
  qed (simp add: n funpow_Suc_right deletion_answered DeletePackage_def Let_def del: funpow.simps)
qed

lemma upload_uninterrupted:
  "(upload_step pk svc u ^^ 3) (Check, s) =
     (case CreatePackage pk svc (up_sched u) (up_order u) (up_name u) (up_version u) (up_file u) (up_size u) s of
        (r, s') \<Rightarrow> (Uploaded r, s'))"
  by (auto simp: numeral_eq_Suc CreatePackage_def Let_def split: option.split sum.split prod.split)

text \<open>Cutting the operations into steps changes nothing when nothing comes in between: four steps of a
  download are \<open>GetFile\<close>, three steps of an upload are \<open>CreatePackage\<close>, and a deletion takes
  one step for the storage, one for each prefix it invalidates and one to be counted.\<close>

lemma steps_are_operations:
  "(download_step pk svc d ^^ 4) (Lookup, s) =
     (case GetFile pk svc (dl_pkg d) (dl_version d) (dl_file d) (dl_accepted d) s of (r, s') \<Rightarrow> (Answered r, s')) \<and>
   (deletion_step pk svc pkg version ^^ (3 + length (mutableAliasPrefixes pkg version))) (Remove, s) =
     (case DeletePackage pk svc pkg version s of (r, s') \<Rightarrow> (Deleted r, s')) \<and>
   (upload_step pk svc u ^^ 3) (Check, s) =
     (case CreatePackage pk svc (up_sched u) (up_order u) (up_name u) (up_version u) (up_file u) (up_size u) s of
        (r, s') \<Rightarrow> (Uploaded r, s'))"
  using download_uninterrupted deletion_uninterrupted upload_uninterrupted by blast

subsection \<open>Requests in parallel\<close>

datatype 'f task =
    Download download download_task
  | Deletion string string deletion_task
  | Upload "'f upload" upload_task

fun task_step ::
  "'f packages \<Rightarrow> ('w, 'c) ContentService \<Rightarrow> 'f task \<times> ('w, 'c) gstate \<Rightarrow> 'f task \<times> ('w, 'c) gstate" where
  "task_step pk svc (Download d t, s) = map_prod (Download d) id (download_step pk svc d (t, s))"
| "task_step pk svc (Deletion pkg version t, s) = map_prod (Deletion pkg version) id (deletion_step pk svc pkg version (t, s))"
| "task_step pk svc (Upload u t, s) = map_prod (Upload u) id (upload_step pk svc u (t, s))"

text \<open>A download comes from the router, as in \<open>served\<close>: it hands over a package name without an at
  sign and a file name that starts with a slash. Nothing else is asked of the requests.\<close>

definition routed :: "download \<Rightarrow> bool" where
  "routed d \<longleftrightarrow> CHR ''@'' \<notin> set (dl_pkg d) \<and> HasPrefix (dl_file d) ''/''"

inductive in_parallel :: "'f packages \<Rightarrow> ('w, 'c) ContentService \<Rightarrow> ('w, 'c) gstate \<Rightarrow> 'f task list \<Rightarrow> ('w, 'c) gstate \<Rightarrow> bool"
  for pk svc s0 where
  idle: "in_parallel pk svc s0 [] s0"
| download_arrives: "in_parallel pk svc s0 ts s \<Longrightarrow> routed d \<Longrightarrow> in_parallel pk svc s0 (ts @ [Download d Lookup]) s"
| deletion_arrives: "in_parallel pk svc s0 ts s \<Longrightarrow> in_parallel pk svc s0 (ts @ [Deletion pkg version Remove]) s"
| upload_arrives: "in_parallel pk svc s0 ts s \<Longrightarrow> in_parallel pk svc s0 (ts @ [Upload u Check]) s"
| task_runs: "in_parallel pk svc s0 ts s \<Longrightarrow> i < length ts \<Longrightarrow> task_step pk svc (ts ! i, s) = (t, s') \<Longrightarrow> in_parallel pk svc s0 (ts[i := t]) s'"
| storage_changes: "in_parallel pk svc s0 ts s \<Longrightarrow> in_parallel pk svc s0 ts (s\<lparr>gs_storage := w\<rparr>)"

text \<open>What a download in flight knows: its version is acceptable past the lookup, a path that it
  fetches belongs to the request if the names of the request are ASCII, and one that it will remember is
  coherent with its cache key. JSON keeps the paths of such requests; what the cache holds for other
  requests may be a path that JSON has changed.\<close>

definition coherent_ascii :: "semver_pkg \<Rightarrow> (string \<rightharpoonup> CacheEntry) \<Rightarrow> bool" where
  "coherent_ascii sv view \<longleftrightarrow> (\<forall>k e. view k = Some e \<and> ascii_only k \<longrightarrow> coherent_entry sv k (ObjectPath e))"

definition acceptable :: "semver_pkg \<Rightarrow> download \<Rightarrow> bool" where
  "acceptable sv d \<longleftrightarrow> routed d \<and> (dl_version d = latestVersionAlias \<or> IsValid sv (''v'' @ dl_version d))"

fun task_ok :: "semver_pkg \<Rightarrow> 'f task \<Rightarrow> bool" where
  "task_ok sv (Download d Lookup) \<longleftrightarrow> routed d"
| "task_ok sv (Download d Resolve) \<longleftrightarrow> acceptable sv d"
| "task_ok sv (Download d (Fetch p resolved)) \<longleftrightarrow>
     acceptable sv d \<and> (ascii_only (cache_key d) \<longrightarrow> p = cache_key d \<or> coherent_entry sv (cache_key d) p) \<and>
     (resolved \<longrightarrow> coherent_entry sv (cache_key d) p \<and> (ascii_only (cache_key d) \<longrightarrow> ascii_only p))"
| "task_ok sv (Download d (Remember p r)) \<longleftrightarrow>
     coherent_entry sv (cache_key d) p \<and> (ascii_only (cache_key d) \<longrightarrow> ascii_only p)"
| "task_ok sv (Download d (Answered r)) \<longleftrightarrow> True"
| "task_ok sv (Deletion pkg version t) \<longleftrightarrow> True"
| "task_ok sv (Upload u t) \<longleftrightarrow> True"

lemma ascii_append: "ascii_only (a @ b) \<longleftrightarrow> ascii_only a \<and> ascii_only b"
  by (simp add: ascii_only_def)

lemma ascii_TrimLeft: "ascii_only s \<Longrightarrow> ascii_only (TrimLeft s c)"
  unfolding ascii_only_def TrimLeft_def list_all_iff by (meson set_dropWhileD)

lemma coherent_ascii_mono: "view' \<subseteq>\<^sub>m view \<Longrightarrow> coherent_ascii sv view \<Longrightarrow> coherent_ascii sv view'"
  unfolding coherent_ascii_def by (metis map_le_Some)

lemma version_char_ascii: "is_digit c \<or> is_alpha c \<or> c \<in> set ''.-+'' \<Longrightarrow> of_char c < (128 :: nat)"
  by (auto simp: is_digit_def is_alpha_def less_eq_char_def)

lemma semver_ascii:
  assumes "semver_laws sv" and "IsValid sv (''v'' @ v)"
  shows "ascii_only v"
proof -
  obtain nums t where f: "version_form nums t" "v = Join nums ''.'' @ t" using semver_shape [OF assms] .
  have "is_digit c \<or> is_alpha c \<or> c \<in> set ''.-+''" if "c \<in> set v" for c
    using that f set_Join [of nums "''.''"]
    by (auto simp: version_form_def version_tail_def tail_char_def is_number_def list_all_iff)
  then show ?thesis unfolding ascii_only_def list_all_iff using version_char_ascii by blast
qed

text \<open>A resolved path is ASCII when the names of the request are: versions always are.\<close>

lemma file_path_ascii:
  assumes "semver_laws (pk_semver pk)" and "ascii_only (pkg @ ''@'' @ version @ fl)"
  shows "ascii_only (file_path pk svc pkg version fl w)"
proof -
  have at: "ascii_only ''@''" "ascii_only ''/''" by code_simp+
  have parts: "ascii_only pkg" "ascii_only version" "ascii_only fl" using assms(2) by (simp_all add: ascii_only_def)
  have "ascii_only v" if "resolveVersion pk svc pkg version w = Some v" for v
    by (rule semver_ascii [OF assms(1) versionMatches_valid [OF resolveVersion_matches [OF assms(1) that]]])
  then have v: "ascii_only (case resolveVersion pk svc pkg version w of Some v \<Rightarrow> v | None \<Rightarrow> version)"
    using parts(2) by (simp split: option.split)
  have "ascii_only (pkg @ ''@'' @ v @ ''/'' @ TrimLeft fl (CHR ''/''))" if "ascii_only v" for v
    using that at parts ascii_TrimLeft [OF parts(3)] by (simp only: ascii_append simp_thms)
  from this [OF v] assms(2) show ?thesis by (simp only: file_path_def Let_def split: if_split) blast
qed

lemma upload_step_cache: "gs_cache (snd (upload_step pk svc u (t, s))) = gs_cache s"
  by (cases t) (auto simp: Let_def split: option.split sum.split prod.split)

lemma deletion_step_cache:
  assumes "cache_manager ci view" and "cacheManager svc = Some ci"
  shows "view (gs_cache (snd (deletion_step pk svc pkg version (t, s)))) \<subseteq>\<^sub>m view (gs_cache s)"
proof (cases t)
  case (Invalidate ps)
  then show ?thesis
    using cache_manager.prefix_bound [OF assms(1)] assms(2) by (cases ps) (auto simp: prod_eq_iff)
qed (auto split: option.split prod.split)

context cache_manager
begin

lemma download_step_coherent:
  assumes "download_step pk svc d (t, s) = (t', s')" and "cacheManager svc = Some ci"
    and "coherent_ascii sv (view (gs_cache s))" and "task_ok sv (Download d t)"
  shows "coherent_ascii sv (view (gs_cache s'))"
proof (cases t)
  case (Remember p r)
  let ?e = "\<lparr>ObjectPath = p\<rparr>"
  have s': "cache_Set ci (cache_key d) ?e (cacheTTL svc) (gs_cache s) =
      (fst (cache_Set ci (cache_key d) ?e (cacheTTL svc) (gs_cache s)), gs_cache s')"
    using assms(1,2) Remember by auto
  show ?thesis
    unfolding coherent_ascii_def using set_bound [OF s'] assms(3,4) Remember by (fastforce simp: coherent_ascii_def)
qed (use assms in \<open>auto split: if_splits option.splits sum.splits\<close>)

lemma download_step_ok:
  assumes "download_step pk svc d (t, s) = (t', s')" and "cacheManager svc = Some ci" and "semver_laws (pk_semver pk)"
    and "coherent_ascii (pk_semver pk) (view (gs_cache s))" and "task_ok (pk_semver pk) (Download d t)"
  shows "task_ok (pk_semver pk) (Download d t')"
proof (cases t)
  case Lookup
  have "coherent_entry (pk_semver pk) (cache_key d) (ObjectPath e)"
    if "cache_Get ci (cache_key d) (gs_cache s) = Some e" "ascii_only (cache_key d)" for e
    using assms(4) get_sound [OF that(1)] that(2) by (simp add: coherent_ascii_def)
  with Lookup assms(1,2,5) show ?thesis by (auto simp: acceptable_def split: if_splits option.splits)
next
  case Resolve
  have a: "CHR ''@'' \<notin> set (dl_pkg d)" "HasPrefix (dl_file d) ''/''"
    "dl_version d = latestVersionAlias \<or> IsValid (pk_semver pk) (''v'' @ dl_version d)"
    using assms(5) Resolve by (simp_all add: acceptable_def routed_def)
  have "file_path pk svc (dl_pkg d) (dl_version d) (dl_file d) (gs_storage s) = cache_key d"
    if "IsPinnedVersion (pk_semver pk) (dl_version d)"
    using that by (simp add: file_path_def)
  moreover have "coherent_entry (pk_semver pk) (cache_key d) (file_path pk svc (dl_pkg d) (dl_version d) (dl_file d) (gs_storage s))"
    if "\<not> IsPinnedVersion (pk_semver pk) (dl_version d)"
    by (rule file_path_coherent [OF assms(3) a(1,3) that a(2)])
  moreover have "ascii_only (cache_key d) \<Longrightarrow> ascii_only (file_path pk svc (dl_pkg d) (dl_version d) (dl_file d) (gs_storage s))"
    by (rule file_path_ascii [OF assms(3)])
  ultimately show ?thesis using Resolve assms(1,2,5)
    by (cases "IsPinnedVersion (pk_semver pk) (dl_version d)") auto
next
  case (Fetch p resolved)
  with assms(1,5) show ?thesis by (auto split: sum.splits if_splits)
qed (use assms(1,5) in auto)

lemma in_parallel_ok:
  assumes "in_parallel pk svc s0 ts s" and "cacheManager svc = Some ci" and "semver_laws (pk_semver pk)"
    and "coherent_ascii (pk_semver pk) (view (gs_cache s0))"
  shows "coherent_ascii (pk_semver pk) (view (gs_cache s)) \<and> (\<forall>t \<in> set ts. task_ok (pk_semver pk) t)"
  using assms(1)
proof (induction rule: in_parallel.induct)
  case (task_runs ts s i t s')
  let ?ok = "task_ok (pk_semver pk)"
  have i: "?ok (ts ! i)" using task_runs.IH task_runs.hyps(2) by simp
  have "coherent_ascii (pk_semver pk) (view (gs_cache s')) \<and> ?ok t"
  proof (cases "ts ! i")
    case (Download d u)
    obtain u' where u: "download_step pk svc d (u, s) = (u', s')" "t = Download d u'"
      using task_runs.hyps(3) Download by (cases "download_step pk svc d (u, s)") auto
    show ?thesis
      using download_step_coherent [OF u(1) assms(2) _ i [unfolded Download]]
        download_step_ok [OF u(1) assms(2,3) _ i [unfolded Download]] task_runs.IH Download u(2) by blast
  next
    case (Deletion pkg version u)
    have "view (gs_cache s') \<subseteq>\<^sub>m view (gs_cache s)"
      using deletion_step_cache [OF cache_manager_axioms assms(2), of pk pkg version u s] task_runs.hyps(3) Deletion
      by (auto simp: prod_eq_iff)
    moreover have "?ok t" using task_runs.hyps(3) Deletion by (auto simp: prod_eq_iff)
    ultimately show ?thesis using task_runs.IH coherent_ascii_mono by blast
  next
    case (Upload u v)
    then show ?thesis
      using task_runs.hyps(3) task_runs.IH upload_step_cache [of pk svc u v s] by (auto simp: prod_eq_iff)
  qed
  moreover have "set (ts[i := t]) \<subseteq> insert t (set ts)" by (rule set_update_subset_insert)
  ultimately show ?case using task_runs.IH by blast
qed (use assms(4) in \<open>auto simp: acceptable_def\<close>)

end

subsection \<open>Schedules\<close>

text \<open>The pool after the steps of a schedule, which names the request that runs next.\<close>

fun run_schedule ::
  "'f packages \<Rightarrow> ('w, 'c) ContentService \<Rightarrow> nat list \<Rightarrow> 'f task list \<times> ('w, 'c) gstate \<Rightarrow> 'f task list \<times> ('w, 'c) gstate" where
  "run_schedule pk svc [] (ts, s) = (ts, s)"
| "run_schedule pk svc (i # is) (ts, s) =
     (case task_step pk svc (ts ! i, s) of (t, s') \<Rightarrow> run_schedule pk svc is (ts[i := t], s'))"

fun schedule_ok :: "'f packages \<Rightarrow> ('w, 'c) ContentService \<Rightarrow> nat list \<Rightarrow> 'f task list \<times> ('w, 'c) gstate \<Rightarrow> bool" where
  "schedule_ok pk svc [] (ts, s) \<longleftrightarrow> True"
| "schedule_ok pk svc (i # is) (ts, s) \<longleftrightarrow>
     i < length ts \<and> (case task_step pk svc (ts ! i, s) of (t, s') \<Rightarrow> schedule_ok pk svc is (ts[i := t], s'))"

lemma in_parallel_schedule:
  "in_parallel pk svc s0 ts s \<Longrightarrow> schedule_ok pk svc is (ts, s) \<Longrightarrow>
     in_parallel pk svc s0 (fst (run_schedule pk svc is (ts, s))) (snd (run_schedule pk svc is (ts, s)))"
proof (induction pk svc "is" "(ts, s)" arbitrary: ts s rule: run_schedule.induct)
  case (2 pk svc i js ts s)
  obtain t s' where step: "task_step pk svc (ts ! i, s) = (t, s')" by fastforce
  have "in_parallel pk svc s0 (ts[i := t]) s'"
    using 2(3) by (intro task_runs [OF 2(2) _ step]) auto
  from 2(1) [OF step [symmetric] this] 2(3) step show ?case by simp
qed simp

definition ref_download :: download where
  "ref_download = \<lparr>dl_pkg = ''p'', dl_version = ''1'', dl_file = ''/a.js'', dl_accepted = []\<rparr>"

abbreviation ref_run :: "nat list \<Rightarrow> zip_file list task list \<times> (mem_world, mem_redis_world) gstate" where
  "ref_run sched \<equiv> run_schedule ref_packages ref_service sched
     ([Download ref_download Lookup, Deletion ''p'' ''1.10.0'' Remove], ref_state ref_world [])"

lemma ref_requests:
  "in_parallel ref_packages ref_service s0 [Download ref_download Lookup, Deletion ''p'' ''1.10.0'' Remove] s0"
proof -
  have "routed ref_download" by code_simp
  from deletion_arrives [OF download_arrives [OF idle this]] show ?thesis by simp
qed

lemma fetch_case:
  "(case t of Download d' (Fetch p' True) \<Rightarrow> d' = d \<and> p' = p | _ \<Rightarrow> False) \<Longrightarrow> t = Download d (Fetch p True)"
  by (auto split: task.splits download_task.splits bool.splits)

definition ref_request :: "zip_file list \<Rightarrow> zip_file list upload" where
  "ref_request archive = \<lparr>up_name = ''p'', up_version = ''1.0.0'', up_file = archive, up_size = 100, up_sched = [],
     up_order = (\<lambda>_. False)\<rparr>"

subsection \<open>Properties\<close>

text \<open>C6: Whatever requests run at the same time, in whatever order their steps come, and
  whatever happens to the storage meanwhile, a download whose package and file names are ASCII, with no
  at sign in the package and a slash before the file as the router hands them over, only fetches the
  requested file of the requested package, in the version asked for or in one that matches it:
  another request never makes it serve a different file. (For other names the cache may hold a
  path that JSON has changed.)\<close>

theorem parallel_fetches_requested:
  fixes pk :: "'f packages"
  assumes "cache_manager cm view" and "cacheManager svc = Some cm" and "semver_laws (pk_semver pk)"
    and "in_parallel pk svc s0 ts s" and "view (gs_cache s0) = Map.empty"
    and "Download d (Fetch path resolved) \<in> set ts" and "ascii_only (dl_pkg d)" and "ascii_only (dl_file d)"
  shows "path = dl_pkg d @ ''@'' @ dl_version d @ dl_file d \<or>
    (\<exists>v. path = dl_pkg d @ ''@'' @ v @ ''/'' @ TrimLeft (dl_file d) (CHR ''/'') \<and>
       (v = dl_version d \<or> versionMatches (pk_semver pk) v (dl_version d)))"
proof -
  have "coherent_ascii (pk_semver pk) (view (gs_cache s0))" using assms(5) by (simp add: coherent_ascii_def)
  from cache_manager.in_parallel_ok [OF assms(1,4,2,3) this] assms(6)
  have "task_ok (pk_semver pk) (Download d (Fetch path resolved) :: 'f task)" by blast
  then have ok: "routed d" "dl_version d = latestVersionAlias \<or> IsValid (pk_semver pk) (''v'' @ dl_version d)"
    "ascii_only (cache_key d) \<Longrightarrow> path = cache_key d \<or> coherent_entry (pk_semver pk) (cache_key d) path"
    by (simp_all add: acceptable_def)
  have "ascii_only (dl_version d)"
  proof (cases "dl_version d = latestVersionAlias")
    case True
    moreover have "ascii_only latestVersionAlias" by code_simp
    ultimately show ?thesis by simp
  qed (use ok(2) semver_ascii [OF assms(3)] in blast)
  moreover have "ascii_only ''@''" by code_simp
  ultimately have key: "ascii_only (cache_key d)" using assms(7,8) by (simp add: ascii_only_def)
  have "CHR ''/'' \<notin> set (dl_version d)"
    using ok(2) semver_no_slash [OF assms(3)] by (auto simp: latestVersionAlias_def)
  then show ?thesis using ok(1) ok(3) [OF key] coherent_entryE unfolding routed_def by metis
qed

theorem parallel_fetches_requested_witness:
  "Download ref_download (Fetch ''p@1.10.0/a.js'' True) \<in> set (fst (ref_run [0, 0])) \<and>
   (''p@1.10.0/a.js'' = cache_key ref_download \<or>
    (\<exists>v. ''p@1.10.0/a.js'' = dl_pkg ref_download @ ''@'' @ v @ ''/'' @ TrimLeft (dl_file ref_download) (CHR ''/'') \<and>
       (v = dl_version ref_download \<or> versionMatches (pk_semver ref_packages) v (dl_version ref_download))))"
proof -
  have ok: "schedule_ok ref_packages ref_service [0, 0]
      ([Download ref_download Lookup, Deletion ''p'' ''1.10.0'' Remove], ref_state ref_world [])" by code_simp
  have "case fst (ref_run [0, 0]) ! 0 of Download d (Fetch p True) \<Rightarrow> d = ref_download \<and> p = ''p@1.10.0/a.js'' | _ \<Rightarrow> False"
    by code_simp
  then have "fst (ref_run [0, 0]) ! 0 = Download ref_download (Fetch ''p@1.10.0/a.js'' True)"
    by (rule fetch_case)
  moreover have names: "ascii_only (dl_pkg ref_download)" "ascii_only (dl_file ref_download)" by code_simp+
  moreover have "0 < length (fst (ref_run [0, 0]))" by code_simp
  ultimately have f: "Download ref_download (Fetch ''p@1.10.0/a.js'' True) \<in> set (fst (ref_run [0, 0]))" using nth_mem by metis
  from parallel_fetches_requested [OF mem_redis.cache.cache_manager_axioms [of 3] ref_service_sel(2) ref_laws
      in_parallel_schedule [OF ref_requests ok] ref_empty_view f names] f show ?thesis by blast
qed

lemma run_schedule_append: "run_schedule pk svc (is @ js) p = run_schedule pk svc js (run_schedule pk svc is p)"
  by (induction pk svc "is" p rule: run_schedule.induct) (auto split: prod.split)

lemma schedule_ok_append:
  "schedule_ok pk svc (is @ js) p \<longleftrightarrow> schedule_ok pk svc is p \<and> schedule_ok pk svc js (run_schedule pk svc is p)"
  by (induction pk svc "is" p rule: run_schedule.induct) (auto split: prod.split)

lemma schedule_ok_bounds: "\<forall>i \<in> set is. i < length ts \<Longrightarrow> schedule_ok pk svc is (ts, s)"
  by (induction pk svc "is" "(ts, s)" arbitrary: ts s rule: schedule_ok.induct) (auto split: prod.split)

text \<open>A deletion that runs alone for a while.\<close>

lemma run_deletion:
  "run_schedule pk svc (replicate n 1) ([t, Deletion pkg v u], s) =
     (case (deletion_step pk svc pkg v ^^ n) (u, s) of (u', s') \<Rightarrow> ([t, Deletion pkg v u'], s'))"
proof (induction n arbitrary: u s)
  case (Suc n)
  obtain u1 s1 where "deletion_step pk svc pkg v (u, s) = (u1, s1)" by fastforce
  with Suc show ?case by (simp add: funpow_Suc_right del: funpow.simps)
qed simp

text \<open>C39: A download races a deletion. On a reliable storage, take any download of an alias that is not
  cached, and any deletion of the version that it resolves to. When the deletion runs after the
  download has fetched the file and before it remembers the path, the deletion is answered with
  success, the download then puts the path into the cache that the deletion has emptied, and, as long as
  the cache keeps that entry, the alias is answered with a missing object, whatever other version
  matches it.\<close>

theorem deletion_races_download:
  fixes pk :: "'f packages"
  assumes "reliable_storage (objectStorageManager svc) store" and "cacheManager svc = Some cm" and "routed d"
    and "dl_version d = latestVersionAlias \<or> IsValid (pk_semver pk) (''v'' @ dl_version d)"
    and "\<not> IsPinnedVersion (pk_semver pk) (dl_version d)"
    and "cache_Get cm (cache_key d) (gs_cache s) = None"
    and "resolveVersion pk svc (dl_pkg d) (dl_version d) (gs_storage s) = Some v"
    and "validatePackageIdentity (pk_semver pk) (dl_pkg d) v = None"
    and "\<And>e c. cache_Get cm (cache_key d) (snd (cache_Set cm (cache_key d) e (cacheTTL svc) c)) = Some e"
  defines "sched \<equiv> [0, 0, 0] @ replicate (3 + length (mutableAliasPrefixes (dl_pkg d) v)) 1 @ [0]"
  shows "\<exists>r s'. run_schedule pk svc sched ([Download d Lookup, Deletion (dl_pkg d) v Remove], s) =
      ([Download d (Answered (Inr r)), Deletion (dl_pkg d) v (Deleted None)], s') \<and>
    in_parallel pk svc s ([Download d (Answered (Inr r)), Deletion (dl_pkg d) v (Deleted None)] :: 'f task list) s' \<and>
    cache_Get cm (cache_key d) (gs_cache s') = Some \<lparr>ObjectPath = dl_pkg d @ ''@'' @ v @ ''/'' @ TrimLeft (dl_file d) (CHR ''/'')\<rparr> \<and>
    (\<exists>ob x. fst (GetFile pk svc (dl_pkg d) (dl_version d) (dl_file d) accepted s') = Inr (ob, '''') \<and> Stat ob = Inl x)"
proof -
  let ?path = "dl_pkg d @ ''@'' @ v @ ''/'' @ TrimLeft (dl_file d) (CHR ''/'')"
  let ?pool = "[Download d Lookup, Deletion (dl_pkg d) v Remove] :: 'f task list"
  define s1 where "s1 = s\<lparr>CacheMissesTotal := CacheMissesTotal s + 1\<rparr>"
  have path: "file_path pk svc (dl_pkg d) (dl_version d) (dl_file d) (gs_storage s1) = ?path"
    using assms(5,7) by (simp add: file_path_def s1_def)
  obtain r where r: "getEncodedObject pk svc ?path (dl_file d) (dl_accepted d) (gs_storage s1) = Inr r"
    using getEncodedObject_total [OF assms(1)] by blast
  have first: "run_schedule pk svc [0, 0, 0] (?pool, s) = ([Download d (Remember ?path r), Deletion (dl_pkg d) v Remove], s1)"
    using assms(2,4,5,6) path r by (simp add: s1_def)
  obtain w' where rm: "os_RemoveObjects (objectStorageManager svc) (dl_pkg d @ ''@'' @ v @ ''/'') (gs_storage s1) = (None, w')"
    using reliable_storage.remove_total [OF assms(1)] by (metis prod.collapse)
  obtain s2 where del: "DeletePackage pk svc (dl_pkg d) v s1 = (None, s2)" and w2: "gs_storage s2 = w'"
    using rm assms(8) by (auto simp: DeletePackage_def Let_def)
  define s3 where "s3 = s2\<lparr>gs_cache := snd (cache_Set cm (cache_key d) \<lparr>ObjectPath = ?path\<rparr> (cacheTTL svc) (gs_cache s2))\<rparr>"
  have run: "run_schedule pk svc sched (?pool, s) = ([Download d (Answered (Inr r)), Deletion (dl_pkg d) v (Deleted None)], s3)"
    unfolding sched_def run_schedule_append first run_deletion deletion_uninterrupted del
    using assms(2) by (simp add: s3_def)
  have "in_parallel pk svc s ?pool s"
    using deletion_arrives [OF download_arrives [OF idle assms(3)], of pk svc s "dl_pkg d" v] by simp
  moreover have "schedule_ok pk svc sched (?pool, s)" by (rule schedule_ok_bounds) (auto simp: sched_def)
  ultimately have par: "in_parallel pk svc s ([Download d (Answered (Inr r)), Deletion (dl_pkg d) v (Deleted None)] :: 'f task list) s3"
    using in_parallel_schedule [of pk svc s ?pool s sched] run by simp
  have cached: "cache_Get cm (cache_key d) (gs_cache s3) = Some \<lparr>ObjectPath = ?path\<rparr>" using assms(9) by (simp add: s3_def)
  have "store (gs_storage s3) k = None" if "prefix ?path k" for k
  proof -
    have "prefix (dl_pkg d @ ''@'' @ v @ ''/'') ?path" by simp
    with that have "prefix (dl_pkg d @ ''@'' @ v @ ''/'') k" using prefix_order.trans by blast
    then show ?thesis using object_storage.remove_ok [OF reliable_storage.axioms(1) [OF assms(1)] rm] by (simp add: s3_def w2)
  qed
  from missing_object [OF assms(1) this]
  have "\<exists>ob x. getEncodedObject pk svc ?path (dl_file d) accepted (gs_storage s3) = Inr (ob, '''') \<and> Stat ob = Inl x" by blast
  moreover have "fst (GetFile pk svc (dl_pkg d) (dl_version d) (dl_file d) accepted s3) =
      getEncodedObject pk svc ?path (dl_file d) accepted (gs_storage s3)"
    using assms(2,4,5) cached by (simp add: GetFile_def)
  ultimately show ?thesis using run par cached by metis
qed

theorem deletion_races_download_witness:
  "\<exists>r s'. ref_run ([0, 0, 0] @ replicate (3 + length (mutableAliasPrefixes ''p'' ''1.10.0'')) 1 @ [0]) =
      ([Download ref_download (Answered (Inr r)), Deletion ''p'' ''1.10.0'' (Deleted None)], s') \<and>
    (\<exists>ob x. fst (GetFile ref_packages ref_service ''p'' ''1'' ''/a.js'' [] s') = Inr (ob, '''') \<and> Stat ob = Inl x)"
proof -
  let ?s = "ref_state ref_world []"
  have d: "dl_pkg ref_download = ''p''" "dl_version ref_download = ''1''" "dl_file ref_download = ''/a.js''" by (simp_all add: ref_download_def)
  have routed: "routed ref_download" by code_simp
  have v: "dl_version ref_download = latestVersionAlias \<or> IsValid (pk_semver ref_packages) (''v'' @ dl_version ref_download)"
    "\<not> IsPinnedVersion (pk_semver ref_packages) (dl_version ref_download)" by code_simp+
  have get: "cache_Get (NewRedisCache mem_redis mem_codec 3) (cache_key ref_download) (gs_cache ?s) = None"
    unfolding ref_state_sel by code_simp
  have res: "resolveVersion ref_packages ref_service (dl_pkg ref_download) (dl_version ref_download) (gs_storage ?s) = Some ''1.10.0''"
    unfolding ref_state_sel by code_simp
  have id: "validatePackageIdentity (pk_semver ref_packages) (dl_pkg ref_download) ''1.10.0'' = None"
    unfolding validatePackageIdentity_None by code_simp
  from deletion_races_download [OF ref_storage.reliable_storage_axioms ref_service_sel(2) routed v get res id mem_cache_roundtrip, of "[]"]
  show ?thesis unfolding d by metis
qed

text \<open>C40: Two uploads of the same version race. On a reliable storage, take any two uploads that are both
  acceptable and both find the version missing. When the second stores its files without an error
  and the first, which checked before that, then fails while storing, the second has been answered
  with success and yet the rollback of the first leaves no file of the version, and nothing else changed.\<close>

theorem upload_races_rollback:
  fixes pk :: "'f packages"
  assumes "reliable_storage (objectStorageManager svc) store"
    and "up_name bad = name" and "up_version bad = v" and "up_name good = name" and "up_version good = v"
    and "upload_plan pk svc name v (up_file bad) (up_size bad) (gs_storage s) objs1"
    and "upload_plan pk svc name v (up_file good) (up_size good) (gs_storage s) objs2"
    and "upload_objects pk svc (up_sched good) (up_order good) objs2 (gs_storage s) = (None, w2)"
    and "upload_objects pk svc (up_sched bad) (up_order bad) objs1 w2 = (Some err, w3)"
  shows "\<exists>s'. run_schedule pk svc [0, 1, 1, 0, 0] ([Upload bad Check, Upload good Check], s) =
      ([Upload bad (Uploaded (Some (NewBusinessError InternalError (UploadFailed err)))), Upload good (Uploaded None)], s') \<and>
    in_parallel pk svc s
      ([Upload bad (Uploaded (Some (NewBusinessError InternalError (UploadFailed err)))), Upload good (Uploaded None)] :: 'f task list) s' \<and>
    (\<forall>k. store (gs_storage s') k = (if prefix (name @ ''@'' @ v @ ''/'') k then None else store (gs_storage s) k))"
proof -
  let ?pool = "[Upload bad Check, Upload good Check] :: 'f task list"
  note os = reliable_storage.axioms(1) [OF assms(1)]
  have check: "upload_step pk svc u (Check, s) = (Store objs, s)"
    if "up_name u = name" "up_version u = v" "upload_plan pk svc name v (up_file u) (up_size u) (gs_storage s) objs" for u objs
    using that by (auto simp: upload_plan_def validatePackageIdentity_def Let_def)
  obtain w4 where rm: "os_RemoveObjects (objectStorageManager svc) ((name @ ''@'' @ v) @ ''/'') w3 = (None, w4)"
    using reliable_storage.remove_total [OF assms(1)] by (metis prod.collapse)
  then have rolled: "rollbackPartialUpload svc (name @ ''@'' @ v) err w3 = (NewBusinessError InternalError (UploadFailed err), w4)"
    by (simp add: rollbackPartialUpload_def)
  define s' where "s' = s\<lparr>gs_storage := w4, PackagesUploadedTotal := PackagesUploadedTotal s + 1\<rparr>"
  have run: "run_schedule pk svc [0, 1, 1, 0, 0] (?pool, s) =
      ([Upload bad (Uploaded (Some (NewBusinessError InternalError (UploadFailed err)))), Upload good (Uploaded None)], s')"
    using check [OF assms(2,3,6)] check [OF assms(4,5,7)] assms(2,3,8,9) rolled by (simp add: s'_def)
  have "in_parallel pk svc s ?pool s" using upload_arrives [OF upload_arrives [OF idle]] by simp
  moreover have "schedule_ok pk svc [0, 1, 1, 0, 0] (?pool, s)" by (rule schedule_ok_bounds) simp
  ultimately have par: "in_parallel pk svc s
      ([Upload bad (Uploaded (Some (NewBusinessError InternalError (UploadFailed err)))), Upload good (Uploaded None)] :: 'f task list) s'"
    using in_parallel_schedule [of pk svc s ?pool s "[0, 1, 1, 0, 0]"] run by simp
  have "store w3 k = store (gs_storage s) k" if "\<not> prefix (name @ ''@'' @ v @ ''/'') k" for k
    using object_storage.upload_objects_frame [OF os assms(8) refl upload_plan_keys(2) [OF assms(7)]] that
      object_storage.upload_objects_frame [OF os assms(9) refl upload_plan_keys(2) [OF assms(6)]] by auto
  then have "store w4 k = (if prefix (name @ ''@'' @ v @ ''/'') k then None else store (gs_storage s) k)" for k
    using object_storage.remove_ok [OF os rm] by simp
  with run par show ?thesis by (intro exI [of _ s']) (simp add: s'_def)
qed

theorem upload_races_rollback_witness:
  "\<exists>err s'. run_schedule ref_packages ref_service [0, 1, 1, 0, 0]
      ([Upload (ref_request ref_broken) Check, Upload (ref_request ref_archive) Check], ref_state [] []) =
    ([Upload (ref_request ref_broken) (Uploaded (Some (NewBusinessError InternalError (UploadFailed err)))),
      Upload (ref_request ref_archive) (Uploaded None)], s') \<and>
    mem_objs ''gimme'' (gs_storage s') ''p@1.0.0/a.js'' = None"
proof -
  let ?good = "[\<lparr>ao_key = ''p@1.0.0/a.js'', ao_file = ref_file ''d/a.js'' ''abcdefgh''\<rparr>,
    \<lparr>ao_key = ''p@1.0.0/b/c.txt'', ao_file = ref_file ''d/b/c.txt'' ''xyz''\<rparr>]"
  let ?bad = "[\<lparr>ao_key = ''p@1.0.0/a.js'', ao_file = ref_file ''d/a.js'' ''abc''\<rparr>,
    \<lparr>ao_key = ''p@1.0.0/b.js'', ao_file = (ref_file ''d/b.js'' ''xyz'')\<lparr>UncompressedSize64 := 5\<rparr>\<rparr>]"
  let ?up = "\<lambda>objs w. upload_objects ref_packages ref_service [] (\<lambda>_. False) objs w"
  have "archiveKeys (pk_NFC ref_packages) (pk_ignore ref_packages) ref_archive (''p'' @ ''@'' @ ''1.0.0'') = Inr ?good"
    "archiveKeys (pk_NFC ref_packages) (pk_ignore ref_packages) ref_broken (''p'' @ ''@'' @ ''1.0.0'') = Inr ?bad"
    "pk_zip ref_packages ref_archive 100 = Inr ref_archive" "pk_zip ref_packages ref_broken 100 = Inr ref_broken"
    "checkArchiveLimits (uploadLimits ref_service) ref_archive = None" "checkArchiveLimits (uploadLimits ref_service) ref_broken = None"
    "packageNamePattern ''p'' \<and> isFullSemver (pk_semver ref_packages) ''1.0.0''" "100 \<le> MaxSize (uploadLimits ref_service)"
    "\<not> os_ObjectExists (objectStorageManager ref_service) (''p'' @ ''@'' @ ''1.0.0'') []"
    by code_simp+
  then have plans: "upload_plan ref_packages ref_service ''p'' ''1.0.0'' ref_broken 100 (gs_storage (ref_state [] [])) ?bad"
    "upload_plan ref_packages ref_service ''p'' ''1.0.0'' ref_archive 100 (gs_storage (ref_state [] [])) ?good"
    unfolding upload_plan_def ref_state_sel by blast+
  have stored: "fst (?up ?good []) = None" and "case fst (?up ?bad (snd (?up ?good []))) of None \<Rightarrow> False | Some _ \<Rightarrow> True" by code_simp+
  then obtain err where failed: "fst (?up ?bad (snd (?up ?good []))) = Some err" by (auto split: option.splits)
  have request: "up_name (ref_request a) = ''p''" "up_version (ref_request a) = ''1.0.0''" "up_file (ref_request a) = a" "up_size (ref_request a) = 100"
    "up_sched (ref_request a) = []" "up_order (ref_request a) = (\<lambda>_. False)" for a by (simp_all add: ref_request_def)
  have pre: "prefix (''p'' @ ''@'' @ ''1.0.0'' @ ''/'') ''p@1.0.0/a.js''" by simp
  have up: "upload_objects ref_packages ref_service (up_sched (ref_request a)) (up_order (ref_request a)) objs w = ?up objs w" for a objs w
    by (simp only: request)
  from stored(1) failed
  have good: "upload_objects ref_packages ref_service (up_sched (ref_request ref_archive)) (up_order (ref_request ref_archive)) ?good
      (gs_storage (ref_state [] [])) = (None, snd (?up ?good []))"
    and bad: "upload_objects ref_packages ref_service (up_sched (ref_request ref_broken)) (up_order (ref_request ref_broken)) ?bad
      (snd (?up ?good [])) = (Some err, snd (?up ?bad (snd (?up ?good []))))"
    unfolding up ref_state_sel by (metis fst_eq_pair)+
  let ?run = "run_schedule ref_packages ref_service [0, 1, 1, 0, 0]
      ([Upload (ref_request ref_broken) Check, Upload (ref_request ref_archive) Check], ref_state [] [])"
  note race = upload_races_rollback [where bad = "ref_request ref_broken" and good = "ref_request ref_archive" and s = "ref_state [] []"
    and pk = ref_packages and svc = ref_service and store = "mem_objs ''gimme''" and name = "''p''" and v = "''1.0.0''", unfolded request(3,4)]
  obtain s' where run: "?run = ([Upload (ref_request ref_broken) (Uploaded (Some (NewBusinessError InternalError (UploadFailed err)))),
      Upload (ref_request ref_archive) (Uploaded None)], s')"
    and gone: "\<forall>k. mem_objs ''gimme'' (gs_storage s') k =
      (if prefix (''p'' @ ''@'' @ ''1.0.0'' @ ''/'') k then None else mem_objs ''gimme'' (gs_storage (ref_state [] [])) k)"
    using race [OF ref_storage.reliable_storage_axioms request(1) request(2) request(1) request(2) plans good bad] by (elim exE conjE) (rule that)
  from gone have "mem_objs ''gimme'' (gs_storage s') ''p@1.0.0/a.js'' = None" using pre by (simp only: if_True)
  with run show ?thesis by blast
qed

end
