(* ===== verification/Gimme_Tokens.thy ===== *)
theory Gimme_Tokens
  imports Gimme_Storage
begin

text \<open>
  Access tokens: the entry and the interface TokenStore of internal/auth/token-store.go, and the
  authentication manager of internal/auth/auth-manager.go on top of it. The clock, the random
  source, the UUID generator and SHA-256 are arguments. The interface is the record
  \<open>token_iface\<close>; the locale \<open>token_store\<close> is what every store promises (a store may
  lose entries, by expiry or failure, but never invents, revives or unrevokes one), and
  \<open>complete_token_store\<close> what a store adds that answers every lookup.
\<close>

subsection \<open>Entries\<close>

record TokenEntry =
  te_ID :: string
  te_Name :: string
  TokenHash :: string
  CreatedAt :: go_time
  ExpiresAt :: go_time
  RevokedAt :: go_time

definition IsRevoked :: "TokenEntry \<Rightarrow> bool" where
  "IsRevoked e \<longleftrightarrow> \<not> IsZero (RevokedAt e)"

definition IsExpired :: "go_time \<Rightarrow> TokenEntry \<Rightarrow> bool" where
  "IsExpired now e \<longleftrightarrow> \<not> IsZero (ExpiresAt e) \<and> ExpiresAt e < now"

definition TokenEntry_IsValid :: "go_time \<Rightarrow> TokenEntry \<Rightarrow> bool" where
  "TokenEntry_IsValid now e \<longleftrightarrow> \<not> IsRevoked e \<and> \<not> IsExpired now e"

record 't token_iface =
  ts_Save :: "TokenEntry \<Rightarrow> 't \<Rightarrow> go_error option \<times> 't"
  ts_GetByHash :: "string \<Rightarrow> 't \<Rightarrow> TokenEntry option \<times> 't"
  ts_List :: "'t \<Rightarrow> TokenEntry list \<times> 't"
  ts_Revoke :: "go_time \<Rightarrow> string \<Rightarrow> 't \<Rightarrow> bool \<times> 't"
  ts_Delete :: "string \<Rightarrow> 't \<Rightarrow> bool \<times> 't"

subsection \<open>The authentication manager\<close>

definition tokenPrefix :: string where "tokenPrefix = ''gim_''"
definition tokenRawBytes :: nat where "tokenRawBytes = 32"

text \<open>\<open>hex.EncodeToString\<close>.\<close>

definition hex_char :: "nat \<Rightarrow> char" where
  "hex_char n = ''0123456789abcdef'' ! (n mod 16)"

definition hex_encode :: "string \<Rightarrow> string" where
  "hex_encode s = concat (map (\<lambda>c. [hex_char (of_char c div 16), hex_char (of_char c mod 16)]) s)"

definition hashToken :: "(string \<Rightarrow> string) \<Rightarrow> string \<Rightarrow> string" where
  "hashToken sha256 rawToken = hex_encode (sha256 rawToken)"

text \<open>\<open>rand\<close> is the result of \<open>rand.Read\<close> into a buffer of \<open>tokenRawBytes\<close>.\<close>

definition generateOpaqueToken :: "(string \<Rightarrow> string) \<Rightarrow> (nat \<Rightarrow> go_error + string) \<Rightarrow> go_error + (string \<times> string)" where
  "generateOpaqueToken sha256 rand =
     (case rand tokenRawBytes of
        Inl err \<Rightarrow> Inl (RandomBytesFailed err)
      | Inr buf \<Rightarrow>
          (let rawToken = tokenPrefix @ hex_encode buf in Inr (rawToken, hashToken sha256 rawToken)))"

subsubsection \<open>Dates: \<open>time.Parse\<close> with the layout 2006-01-02\<close>

definition digit_value :: "char \<Rightarrow> int" where
  "digit_value c = of_char c - 48"

definition is_dec :: "char \<Rightarrow> bool" where
  "is_dec c \<longleftrightarrow> CHR ''0'' \<le> c \<and> c \<le> CHR ''9''"

definition leap_year :: "int \<Rightarrow> bool" where
  "leap_year y \<longleftrightarrow> y mod 4 = 0 \<and> (y mod 100 \<noteq> 0 \<or> y mod 400 = 0)"

definition month_days :: "int \<Rightarrow> int list" where
  "month_days y = [31, if leap_year y then 29 else 28, 31, 30, 31, 30, 31, 31, 30, 31, 30, 31]"

definition days_before_year :: "int \<Rightarrow> int" where
  "days_before_year y = (let n = y - 1 in 365 * n + n div 4 - n div 100 + n div 400)"

definition date_time :: "int \<Rightarrow> int \<Rightarrow> int \<Rightarrow> go_time" where
  "date_time y m d =
     (days_before_year y + sum_list (take (nat (m - 1)) (month_days y)) + (d - 1)) * 86400 * 1000000000"

definition parse_date :: "string \<Rightarrow> go_time option" where
  "parse_date s =
     (if length s = 10 \<and> list_all (\<lambda>i. is_dec (s ! i)) [0, 1, 2, 3, 5, 6, 8, 9] \<and> s ! 4 = CHR ''-'' \<and> s ! 7 = CHR ''-''
      then (let v = (\<lambda>i. digit_value (s ! i));
                y = v 0 * 1000 + v 1 * 100 + v 2 * 10 + v 3;
                m = v 5 * 10 + v 6; d = v 8 * 10 + v 9
            in if 1 \<le> m \<and> m \<le> 12 \<and> 1 \<le> d \<and> d \<le> month_days y ! nat (m - 1) then Some (date_time y m d) else None)
      else None)"

text \<open>The instant a call reads from the clock, the random source and the UUID generator.\<close>

record auth_env =
  ae_now :: go_time
  ae_rand :: "nat \<Rightarrow> go_error + string"
  ae_uuid :: string
  ae_sha256 :: "string \<Rightarrow> string"

definition default_lifetime :: int where
  "default_lifetime = 90 * 24 * 3600 * 1000000000"

text \<open>The first part of \<open>CreateToken\<close>: the expiry asked for, or 90 days.\<close>

definition token_expiry :: "auth_env \<Rightarrow> string \<Rightarrow> GimmeError + go_time" where
  "token_expiry env expirationDate =
     (if 0 < length expirationDate
      then (case parse_date expirationDate of
          None \<Rightarrow> Inl (NewBusinessError BadRequest InvalidExpirationFormat)
        | Some end \<Rightarrow>
            if end - ae_now env \<le> 0 then Inl (NewBusinessError BadRequest ExpirationNotInFuture) else Inr end)
      else Inr (ae_now env + default_lifetime))"

definition CreateToken ::
  "'t token_iface \<Rightarrow> auth_env \<Rightarrow> string \<Rightarrow> string \<Rightarrow> 't \<Rightarrow> (GimmeError + (TokenEntry \<times> string)) \<times> 't" where
  "CreateToken store env name expirationDate t =
     (case token_expiry env expirationDate of
        Inl err \<Rightarrow> (Inl err, t)
      | Inr expiresAt \<Rightarrow>
          (case generateOpaqueToken (ae_sha256 env) (ae_rand env) of
             Inl _ \<Rightarrow> (Inl (NewBusinessError InternalError GeneratingToken), t)
           | Inr (rawToken, tokenHash) \<Rightarrow>
               (let entry = \<lparr>te_ID = ae_uuid env, te_Name = name, TokenHash = tokenHash, CreatedAt = ae_now env,
                             ExpiresAt = expiresAt, RevokedAt = 0\<rparr>
                in (case ts_Save store entry t of
                      (Some _, t') \<Rightarrow> (Inl (NewBusinessError InternalError SavingToken), t')
                    | (None, t') \<Rightarrow> (Inr (entry, rawToken), t')))))"

definition ListTokens :: "'t token_iface \<Rightarrow> 't \<Rightarrow> TokenEntry list \<times> 't" where
  "ListTokens store t = ts_List store t"

definition RevokeToken :: "'t token_iface \<Rightarrow> go_time \<Rightarrow> string \<Rightarrow> 't \<Rightarrow> bool \<times> 't" where
  "RevokeToken store now i t = ts_Revoke store now i t"

definition extractToken :: "string \<Rightarrow> string" where
  "extractToken authHeader =
     (let parts = SplitN2 authHeader (CHR '' '')
      in if length parts = 2 \<and> EqualFold (parts ! 0) ''Bearer'' then parts ! 1 else '''')"

text \<open>\<open>True\<close>: the request goes on (\<open>c.Next\<close>); \<open>False\<close>: it is answered with 401.\<close>

definition AuthenticateMiddleware ::
  "'t token_iface \<Rightarrow> (string \<Rightarrow> string) \<Rightarrow> go_time \<Rightarrow> string \<Rightarrow> 't \<Rightarrow> bool \<times> 't" where
  "AuthenticateMiddleware store sha256 now authHeader t =
     (let rawToken = extractToken authHeader
      in if rawToken = '''' then (False, t)
         else (case ts_GetByHash store (hashToken sha256 rawToken) t of
             (None, t') \<Rightarrow> (False, t')
           | (Some entry, t') \<Rightarrow> (TokenEntry_IsValid now entry, t')))"

subsection \<open>The contract of a store\<close>

text \<open>
  The shape of the identifiers of entries (\<open>uuid.New\<close>: lower case hexadecimal digits and
  dashes), and what makes an entry new among the entries of a store; \<open>fresh\<close> is what new
  means for the store at hand. \<open>sweep\<close> is what happens to a store at an
  instant without a call: the sweep of expired entries, or keys reaching the end of their life.
\<close>

definition is_uuid :: "string \<Rightarrow> bool" where
  "is_uuid i \<longleftrightarrow> set i \<subseteq> set ''0123456789abcdef-''"

definition fresh_entry :: "(string \<rightharpoonup> TokenEntry) \<Rightarrow> TokenEntry \<Rightarrow> bool" where
  "fresh_entry v e \<longleftrightarrow> is_uuid (te_ID e) \<and> v (TokenHash e) = None \<and> (\<forall>h e'. v h = Some e' \<longrightarrow> te_ID e' \<noteq> te_ID e)"

text \<open>The resolution at which a store keeps instants: nanoseconds, or microseconds in PostgreSQL.\<close>

definition stamp_entry :: "(go_time \<Rightarrow> go_time) \<Rightarrow> TokenEntry \<Rightarrow> TokenEntry" where
  "stamp_entry stamp e = e\<lparr>CreatedAt := stamp (CreatedAt e), ExpiresAt := stamp (ExpiresAt e), RevokedAt := stamp (RevokedAt e)\<rparr>"

lemma stamp_entry_simps [simp]:
  "te_ID (stamp_entry stamp e) = te_ID e" "TokenHash (stamp_entry stamp e) = TokenHash e"
  "ExpiresAt (stamp_entry stamp e) = stamp (ExpiresAt e)" "RevokedAt (stamp_entry stamp e) = stamp (RevokedAt e)"
  "stamp_entry (\<lambda>t. t) e = e"
  by (simp_all add: stamp_entry_def)

locale token_store =
  fixes ts :: "'t token_iface" and sweep :: "go_time \<Rightarrow> 't \<Rightarrow> 't" and stamp :: "go_time \<Rightarrow> go_time"
    and fresh :: "'t \<Rightarrow> TokenEntry \<Rightarrow> bool" and inv :: "'t \<Rightarrow> bool" and view :: "'t \<Rightarrow> (string \<rightharpoonup> TokenEntry)"
  assumes stamp_zero: "stamp 0 = 0"
    and stamp_pos: "1000 \<le> x \<Longrightarrow> 0 < stamp x"
    and view_hash: "inv t \<Longrightarrow> view t h = Some e \<Longrightarrow> TokenHash e = h"
    and save_inv: "inv t \<Longrightarrow> fresh t e \<Longrightarrow> inv (snd (ts_Save ts e t))"
    and save_bound: "inv t \<Longrightarrow> fresh t e \<Longrightarrow> view (snd (ts_Save ts e t)) \<subseteq>\<^sub>m (view t)(TokenHash e \<mapsto> stamp_entry stamp e)"
    and get_inv: "inv t \<Longrightarrow> inv (snd (ts_GetByHash ts h t)) \<and> view (snd (ts_GetByHash ts h t)) \<subseteq>\<^sub>m view t"
    and get_sound: "inv t \<Longrightarrow> fst (ts_GetByHash ts h t) = Some e \<Longrightarrow> view t h = Some e"
    and list_inv: "inv t \<Longrightarrow> inv (snd (ts_List ts t)) \<and> view (snd (ts_List ts t)) \<subseteq>\<^sub>m view t"
    and revoke_inv: "inv t \<Longrightarrow> inv (snd (ts_Revoke ts now i t))"
    and revoke_bound: "inv t \<Longrightarrow> view (snd (ts_Revoke ts now i t)) h = Some e' \<Longrightarrow>
      \<exists>e. view t h = Some e \<and> (e' = e \<or> te_ID e = i \<and> e' = e\<lparr>RevokedAt := stamp now\<rparr>)"
    and revoke_done: "inv t \<Longrightarrow> fst (ts_Revoke ts now i t) \<Longrightarrow> view (snd (ts_Revoke ts now i t)) h = Some e' \<Longrightarrow>
      te_ID e' = i \<Longrightarrow> RevokedAt e' = stamp now"
    and delete_inv: "inv t \<Longrightarrow> inv (snd (ts_Delete ts i t)) \<and> view (snd (ts_Delete ts i t)) \<subseteq>\<^sub>m view t"
    and delete_done: "inv t \<Longrightarrow> fst (ts_Delete ts i t) \<Longrightarrow> view (snd (ts_Delete ts i t)) h = Some e' \<Longrightarrow> te_ID e' \<noteq> i"
    and sweep_inv: "inv t \<Longrightarrow> inv (sweep now t) \<and> view (sweep now t) \<subseteq>\<^sub>m view t"

locale complete_token_store = token_store +
  assumes get_complete: "inv t \<Longrightarrow> ts_GetByHash ts h t = (view t h, t)"
    and save_complete: "inv t \<Longrightarrow> fresh t e \<Longrightarrow> fst (ts_Save ts e t) = None \<Longrightarrow>
      view (snd (ts_Save ts e t)) (TokenHash e) = Some (stamp_entry stamp e)"
    and list_exact: "inv t \<Longrightarrow> set (fst (ts_List ts t)) = ran (view t)"

text \<open>
  Text that encoding/json keeps as it is: valid UTF-8 (\<open>utf8.ValidString\<close>; other bytes are
  written as the replacement character). The first byte of a character fixes the ranges of the
  bytes that follow it.
\<close>

definition utf8_follow :: "nat \<Rightarrow> (nat \<times> nat) list option" where
  "utf8_follow b =
     (if b < 0x80 then Some []
      else if b < 0xC2 then None
      else if b < 0xE0 then Some [(0x80, 0xBF)]
      else if b < 0xF0 then Some [(if b = 0xE0 then 0xA0 else 0x80, if b = 0xED then 0x9F else 0xBF), (0x80, 0xBF)]
      else if b < 0xF5 then Some [(if b = 0xF0 then 0x90 else 0x80, if b = 0xF4 then 0x8F else 0xBF), (0x80, 0xBF), (0x80, 0xBF)]
      else None)"

fun utf8_from :: "(nat \<times> nat) list \<Rightarrow> string \<Rightarrow> bool" where
  "utf8_from [] [] \<longleftrightarrow> True"
| "utf8_from (_ # _) [] \<longleftrightarrow> False"
| "utf8_from ((lo, hi) # rs) (c # s) \<longleftrightarrow> lo \<le> of_char c \<and> of_char c \<le> hi \<and> utf8_from rs s"
| "utf8_from [] (c # s) \<longleftrightarrow> (case utf8_follow (of_char c) of None \<Rightarrow> False | Some rs \<Rightarrow> utf8_from rs s)"

definition valid_utf8 :: "string \<Rightarrow> bool" where
  "valid_utf8 s \<longleftrightarrow> utf8_from [] s"

definition text_safe :: "TokenEntry \<Rightarrow> bool" where
  "text_safe e \<longleftrightarrow> valid_utf8 (te_ID e) \<and> valid_utf8 (te_Name e) \<and> valid_utf8 (TokenHash e)"

lemma text_safe_revoked [simp]: "text_safe (e\<lparr>RevokedAt := now\<rparr>) = text_safe e"
  by (simp add: text_safe_def)

subsection \<open>Histories\<close>

datatype token_event =
    CreateEv auth_env string string
  | AuthEv go_time string
  | ListEv
  | RevokeEv go_time string
  | DeleteEv string
  | SweepEv go_time

fun token_step :: "'t token_iface \<Rightarrow> (go_time \<Rightarrow> 't \<Rightarrow> 't) \<Rightarrow> (string \<Rightarrow> string) \<Rightarrow> token_event \<Rightarrow> 't \<Rightarrow> 't" where
  "token_step ts sweep sha256 (CreateEv env name expirationDate) t = snd (CreateToken ts env name expirationDate t)"
| "token_step ts sweep sha256 (AuthEv now authHeader) t = snd (AuthenticateMiddleware ts sha256 now authHeader t)"
| "token_step ts sweep sha256 ListEv t = snd (ListTokens ts t)"
| "token_step ts sweep sha256 (RevokeEv now i) t = snd (RevokeToken ts now i t)"
| "token_step ts sweep sha256 (DeleteEv i) t = snd (ts_Delete ts i t)"
| "token_step ts sweep sha256 (SweepEv now) t = sweep now t"

text \<open>
  A token is issued under a new identifier and a hash that is neither stored nor \<open>h\<close>: the
  32 random bytes and the UUID do not collide with earlier ones. Revocation happens at least a microsecond after the zero time.
\<close>

fun token_allowed :: "('t \<Rightarrow> TokenEntry \<Rightarrow> bool) \<Rightarrow> string \<Rightarrow> token_event \<Rightarrow> 't \<Rightarrow> bool" where
  "token_allowed fresh h (CreateEv env name expirationDate) t \<longleftrightarrow>
     (\<forall>raw hash e. generateOpaqueToken (ae_sha256 env) (ae_rand env) = Inr (raw, hash) \<longrightarrow>
        te_ID e = ae_uuid env \<longrightarrow> te_Name e = name \<longrightarrow> TokenHash e = hash \<longrightarrow> fresh t e \<and> hash \<noteq> h)"
| "token_allowed fresh h (RevokeEv now i) t \<longleftrightarrow> 1000 \<le> now"
| "token_allowed fresh h _ t \<longleftrightarrow> True"

inductive token_reach :: "'t token_iface \<Rightarrow> (go_time \<Rightarrow> 't \<Rightarrow> 't) \<Rightarrow> (string \<Rightarrow> string) \<Rightarrow> ('t \<Rightarrow> TokenEntry \<Rightarrow> bool) \<Rightarrow>
    string \<Rightarrow> 't \<Rightarrow> 't \<Rightarrow> bool"
  for ts sweep sha256 fresh h t0 where
  start: "token_reach ts sweep sha256 fresh h t0 t0"
| step: "token_reach ts sweep sha256 fresh h t0 t \<Longrightarrow> token_allowed fresh h ev t \<Longrightarrow>
    token_reach ts sweep sha256 fresh h t0 (token_step ts sweep sha256 ev t)"

definition locked_out :: "(string \<rightharpoonup> TokenEntry) \<Rightarrow> string \<Rightarrow> bool" where
  "locked_out v h \<longleftrightarrow> (\<forall>e. v h = Some e \<longrightarrow> IsRevoked e)"

lemma locked_out_le: "locked_out v h \<Longrightarrow> v' \<subseteq>\<^sub>m v \<Longrightarrow> locked_out v' h"
  unfolding locked_out_def map_le_def dom_def by (metis (mono_tags, lifting) mem_Collect_eq option.distinct(1))

lemma locked_out_upd: "locked_out v h \<Longrightarrow> h' \<noteq> h \<Longrightarrow> locked_out (v(h' \<mapsto> e)) h"
  by (simp add: locked_out_def)

subsection \<open>Issued tokens\<close>

lemma hex_encode_length [simp]: "length (hex_encode s) = 2 * length s"
  by (induction s) (simp_all add: hex_encode_def)

lemma hex_char_hex: "hex_char n \<in> set ''0123456789abcdef''"
proof -
  have "n mod 16 < length ''0123456789abcdef''" by simp
  then show ?thesis unfolding hex_char_def by (rule nth_mem)
qed

lemma hex_encode_hex: "set (hex_encode s) \<subseteq> set ''0123456789abcdef''"
proof
  fix x
  assume "x \<in> set (hex_encode s)"
  then obtain n where "x = hex_char n" by (auto simp: hex_encode_def)
  then show "x \<in> set ''0123456789abcdef''" using hex_char_hex by simp
qed

lemma extractToken_Bearer: "extractToken (''Bearer '' @ raw) = raw"
proof -
  have "SplitN2 (''Bearer'' @ CHR '' '' # raw) (CHR '' '') = [''Bearer'', raw]" by (rule SplitN2_found) simp
  then show ?thesis by (simp add: extractToken_def EqualFold_def)
qed

text \<open>What \<open>CreateToken\<close> returns on success, and what it passed to the store.\<close>

lemma token_expiry_future: "token_expiry env expirationDate = Inr expiresAt \<Longrightarrow> ae_now env < expiresAt"
  by (auto simp: token_expiry_def default_lifetime_def split: option.splits if_split_asm)

lemma CreateToken_cases:
  obtains (err) e where "CreateToken ts env name expirationDate t = (Inl e, t)"
  | (saved) expiresAt buf raw entry where "token_expiry env expirationDate = Inr expiresAt"
      and "ae_rand env tokenRawBytes = Inr buf" and "raw = tokenPrefix @ hex_encode buf"
      and "entry = \<lparr>te_ID = ae_uuid env, te_Name = name, TokenHash = hashToken (ae_sha256 env) raw, CreatedAt = ae_now env,
                    ExpiresAt = expiresAt, RevokedAt = 0\<rparr>"
      and "generateOpaqueToken (ae_sha256 env) (ae_rand env) = Inr (raw, TokenHash entry)"
      and "CreateToken ts env name expirationDate t =
        (case ts_Save ts entry t of
           (Some _, t') \<Rightarrow> (Inl (NewBusinessError InternalError SavingToken), t')
         | (None, t') \<Rightarrow> (Inr (entry, raw), t'))"
proof (cases "token_expiry env expirationDate")
  case (Inl e)
  then show ?thesis by (intro err [of e]) (simp add: CreateToken_def)
next
  case expiry: (Inr expiresAt)
  show ?thesis
  proof (cases "ae_rand env tokenRawBytes")
    case (Inl e)
    with expiry show ?thesis
      by (intro err [of "NewBusinessError InternalError GeneratingToken"]) (simp add: CreateToken_def generateOpaqueToken_def)
  next
    case (Inr buf)
    with expiry show ?thesis
      by (intro saved [OF expiry Inr refl refl]) (simp_all add: CreateToken_def generateOpaqueToken_def Let_def)
  qed
qed

lemma CreateToken_ok:
  assumes "CreateToken ts env name expirationDate t = (Inr (entry, raw), t')"
  obtains buf where "ae_rand env tokenRawBytes = Inr buf" and "raw = tokenPrefix @ hex_encode buf"
    and "generateOpaqueToken (ae_sha256 env) (ae_rand env) = Inr (raw, TokenHash entry)"
    and "TokenHash entry = hashToken (ae_sha256 env) raw" and "te_ID entry = ae_uuid env" and "te_Name entry = name"
    and "CreatedAt entry = ae_now env" and "ae_now env < ExpiresAt entry" and "RevokedAt entry = 0"
    and "ts_Save ts entry t = (None, t')"
proof (cases rule: CreateToken_cases [of ts env name expirationDate t])
  case (err e)
  with assms show ?thesis by simp
next
  case (saved expiresAt buf raw' entry')
  from saved(6) assms have "ts_Save ts entry' t = (None, t')" "entry' = entry" "raw' = raw"
    by (auto split: prod.splits option.splits)
  with saved token_expiry_future [OF saved(1)] show ?thesis by (intro that [of buf]) auto
qed

lemma CreateToken_state:
  obtains "snd (CreateToken ts env name expirationDate t) = t"
  | raw entry where "generateOpaqueToken (ae_sha256 env) (ae_rand env) = Inr (raw, TokenHash entry)" and "te_ID entry = ae_uuid env" and "te_Name entry = name"
      and "snd (CreateToken ts env name expirationDate t) = snd (ts_Save ts entry t)"
proof (cases rule: CreateToken_cases [of ts env name expirationDate t])
  case (err e)
  then show ?thesis by (intro that(1)) simp
next
  case (saved expiresAt buf raw entry)
  then show ?thesis by (intro that(2) [OF saved(5)]) (simp_all split: prod.splits option.splits)
qed

subsection \<open>What every store gives the authentication manager\<close>

lemma AuthenticateMiddleware_state:
  obtains "snd (AuthenticateMiddleware ts sha256 now authHeader t) = t"
  | "snd (AuthenticateMiddleware ts sha256 now authHeader t) = snd (ts_GetByHash ts (hashToken sha256 (extractToken authHeader)) t)"
  by (cases "extractToken authHeader = ''''") (simp_all add: AuthenticateMiddleware_def Let_def split: prod.splits option.splits)

context token_store
begin

lemma authenticate_sound:
  assumes "inv t" and "fst (AuthenticateMiddleware ts sha256 now authHeader t)"
  shows "\<exists>e. view t (hashToken sha256 (extractToken authHeader)) = Some e \<and> \<not> IsRevoked e \<and> \<not> IsExpired now e"
  using assms(2) get_sound [OF assms(1)]
  by (fastforce simp: AuthenticateMiddleware_def Let_def TokenEntry_IsValid_def split: if_split_asm prod.splits option.splits)

lemma step_keeps_inv:
  assumes "inv t" and "token_allowed fresh h ev t"
  shows "inv (token_step ts sweep sha256 ev t)"
proof (cases ev)
  case (CreateEv env name expirationDate)
  show ?thesis
  proof (cases rule: CreateToken_state [of ts env name expirationDate t])
    case (2 raw entry)
    with CreateEv assms(2) have "fresh t entry" by simp
    then show ?thesis using save_inv [OF assms(1)] 2 CreateEv by simp
  qed (simp add: assms(1) CreateEv)
next
  case (AuthEv now authHeader)
  then show ?thesis using get_inv [OF assms(1)] assms(1)
    by (cases rule: AuthenticateMiddleware_state [of ts sha256 now authHeader t]) simp_all
qed (use list_inv revoke_inv delete_inv sweep_inv assms(1) in \<open>simp_all add: ListTokens_def RevokeToken_def\<close>)

lemma step_keeps_locked_out:
  assumes "inv t" and "token_allowed fresh h ev t" and "locked_out (view t) h"
  shows "locked_out (view (token_step ts sweep sha256 ev t)) h"
proof (cases ev)
  case (CreateEv env name expirationDate)
  show ?thesis
  proof (cases rule: CreateToken_state [of ts env name expirationDate t])
    case (2 raw entry)
    with CreateEv assms(2) have "fresh t entry" "TokenHash entry \<noteq> h" by simp_all
    then show ?thesis using locked_out_le [OF locked_out_upd save_bound] assms(1,3) 2 CreateEv by simp
  qed (simp add: assms(3) CreateEv)
next
  case (AuthEv now authHeader)
  then show ?thesis using locked_out_le [OF assms(3)] get_inv [OF assms(1)] assms(3)
    by (cases rule: AuthenticateMiddleware_state [of ts sha256 now authHeader t]) simp_all
next
  case (RevokeEv now i)
  have "IsRevoked e'" if e': "view (snd (ts_Revoke ts now i t)) h = Some e'" for e'
  proof -
    obtain e where "view t h = Some e" and "e' = e \<or> e' = e\<lparr>RevokedAt := stamp now\<rparr>"
      using revoke_bound [OF assms(1) e'] by blast
    then show ?thesis using assms(2,3) RevokeEv stamp_pos [of now] by (auto simp: locked_out_def IsRevoked_def IsZero_def)
  qed
  with RevokeEv show ?thesis by (simp add: locked_out_def RevokeToken_def)
qed (use list_inv delete_inv sweep_inv locked_out_le [OF assms(3)] assms(1) in \<open>simp_all add: ListTokens_def\<close>)

lemma reach_locked_out:
  assumes "token_reach ts sweep sha256 fresh h t0 t" and "inv t0" and "locked_out (view t0) h"
  shows "inv t \<and> locked_out (view t) h"
  using assms(1)
proof induction
  case (step t ev)
  then show ?case using step_keeps_inv step_keeps_locked_out by blast
qed (use assms in simp)

lemma locked_out_rejected:
  assumes "inv t" and "locked_out (view t) (hashToken sha256 (extractToken authHeader))"
  shows "\<not> fst (AuthenticateMiddleware ts sha256 now authHeader t)"
  using authenticate_sound [OF assms(1)] assms(2) by (auto simp: locked_out_def)

lemma revoked_locked_out:
  assumes "inv t" and "fst (RevokeToken ts now i t)" and "view t h = Some e" and "te_ID e = i" and "1000 \<le> now"
  shows "inv (snd (RevokeToken ts now i t)) \<and> locked_out (view (snd (RevokeToken ts now i t))) h"
proof
  show "inv (snd (RevokeToken ts now i t))" using revoke_inv [OF assms(1)] by (simp add: RevokeToken_def)
  show "locked_out (view (snd (RevokeToken ts now i t))) h"
    unfolding locked_out_def
  proof (intro allI impI)
    fix e'
    assume e': "view (snd (RevokeToken ts now i t)) h = Some e'"
    then have "te_ID e' = i" using revoke_bound [OF assms(1), of now i h e'] assms(3,4) by (auto simp: RevokeToken_def)
    then have "RevokedAt e' = stamp now" using revoke_done [OF assms(1)] assms(2) e' by (simp add: RevokeToken_def)
    then show "IsRevoked e'" using stamp_pos [OF assms(5)] by (simp add: IsRevoked_def IsZero_def)
  qed
qed

text \<open>Once revoked, a token is refused for good, whatever happens afterwards.\<close>

lemma revoked_stays_rejected:
  assumes "inv t" and "fst (RevokeToken ts now i t)"
    and "view t (hashToken sha256 (extractToken authHeader)) = Some e" and "te_ID e = i" and "1000 \<le> now"
    and "token_reach ts sweep sha256 fresh (hashToken sha256 (extractToken authHeader)) (snd (RevokeToken ts now i t)) t'"
  shows "\<not> fst (AuthenticateMiddleware ts sha256 now' authHeader t')"
proof -
  note r = revoked_locked_out [OF assms(1-5)]
  from reach_locked_out [OF assms(6)] r show ?thesis by (intro locked_out_rejected) blast+
qed

end

context complete_token_store
begin

lemma created_authenticates:
  assumes "inv t" and "CreateToken ts env name expirationDate t = (Inr (entry, raw), t')"
    and "fresh t entry" and "1000 \<le> ae_now env"
  shows "fst (AuthenticateMiddleware ts (ae_sha256 env) now (''Bearer '' @ raw) t') \<longleftrightarrow> now \<le> stamp (ExpiresAt entry)"
proof -
  obtain buf where c: "raw = tokenPrefix @ hex_encode buf" "TokenHash entry = hashToken (ae_sha256 env) raw"
    "ae_now env < ExpiresAt entry" "RevokedAt entry = 0" "ts_Save ts entry t = (None, t')"
    using CreateToken_ok [OF assms(2)] .
  from c(5) have "inv t'" and "view t' (TokenHash entry) = Some (stamp_entry stamp entry)"
    using save_inv [OF assms(1,3)] save_complete [OF assms(1,3)] by simp_all
  moreover have "raw \<noteq> ''''" using c(1) by (simp add: tokenPrefix_def)
  moreover have "0 < stamp (ExpiresAt entry)" using c(3) assms(4) by (intro stamp_pos) simp
  ultimately show ?thesis using c(2-4) stamp_zero
    by (auto simp: AuthenticateMiddleware_def Let_def extractToken_Bearer [simplified] get_complete TokenEntry_IsValid_def IsRevoked_def
        IsExpired_def IsZero_def)
qed

end

end
