(* ===== verification/Gimme_FileStore.thy ===== *)
theory Gimme_FileStore
  imports Gimme_Tokens "HOL-Library.AList"
begin

text \<open>
  The file-backed token store, internal/auth/file-token-store.go. Both maps of the store point to
  the same entries: an entry lives in \<open>heap\<close>, the maps hold its address, so that revoking
  through one map shows through the other. A map is an association list, iterated in its order;
  nothing proved depends on that order. The disk maps paths to contents; \<open>faults\<close> says
  which step of each coming write of the token file fails, how much was written when the write
  failed, and whether the removal of the temporary file, whose error the code drops, succeeded. AES-GCM, HKDF, the nonce source and
  the JSON codec of the token list are arguments (\<open>file_env\<close>).
\<close>

subsection \<open>State\<close>

text \<open>The failing step; the flag: \<open>os.Remove(tmpName)\<close> succeeded; the number: bytes written.\<close>

datatype flush_step = CreateTemp | WriteTemp nat bool | SyncTemp bool | CloseTemp bool | RenameTemp bool

record FileTokenStore =
  byID :: "(string \<times> nat) list"
  byHash :: "(string \<times> nat) list"
  heap :: "TokenEntry list"
  stopped :: bool
  filePath :: string
  fs_key :: string
  disk :: "string \<rightharpoonup> string"
  faults :: "flush_step option list"

record file_env =
  fe_readErr :: "go_error option"
  fe_hkdf :: "string \<Rightarrow> string \<Rightarrow> go_error + string"
  fe_seal :: "string \<Rightarrow> string \<Rightarrow> string \<Rightarrow> string"
  fe_open :: "string \<Rightarrow> string \<Rightarrow> string \<Rightarrow> go_error + string"
  fe_nonce :: "go_error + string"
  fe_marshal :: "TokenEntry list \<Rightarrow> go_error + string"
  fe_unmarshal :: "string \<Rightarrow> go_error + TokenEntry list"
  fe_temp :: "string \<Rightarrow> (string \<rightharpoonup> string) \<Rightarrow> string"

definition hkdfInfo :: string where "hkdfInfo = ''gimme-file-token-store-v1''"

subsection \<open>Encryption\<close>

definition deriveAESKey :: "file_env \<Rightarrow> string \<Rightarrow> go_error + string" where
  "deriveAESKey env masterSecret = fe_hkdf env masterSecret hkdfInfo"

text \<open>\<open>aes.NewCipher\<close> accepts keys of 16, 24 and 32 bytes; the nonce of GCM has 12 bytes.\<close>

definition new_cipher :: "string \<Rightarrow> go_error option" where
  "new_cipher k = (if length k \<in> {16, 24, 32} then None else Some InvalidKeySize)"

definition gcm_nonce_size :: nat where "gcm_nonce_size = 12"

definition encrypt :: "file_env \<Rightarrow> string \<Rightarrow> string \<Rightarrow> go_error + string" where
  "encrypt env k plain =
     (case new_cipher k of
        Some err \<Rightarrow> Inl err
      | None \<Rightarrow> (case fe_nonce env of Inl err \<Rightarrow> Inl err | Inr nonce \<Rightarrow> Inr (nonce @ fe_seal env k nonce plain)))"

definition decrypt :: "file_env \<Rightarrow> string \<Rightarrow> string \<Rightarrow> go_error + string" where
  "decrypt env k data =
     (case new_cipher k of
        Some err \<Rightarrow> Inl err
      | None \<Rightarrow>
          if length data < gcm_nonce_size then Inl CiphertextTooShort
          else fe_open env k (take gcm_nonce_size data) (drop gcm_nonce_size data))"

subsection \<open>Reading and writing the file\<close>

definition put_entry :: "TokenEntry \<Rightarrow> FileTokenStore \<Rightarrow> FileTokenStore" where
  "put_entry e s =
     s\<lparr>heap := heap s @ [e], byID := AList.update (te_ID e) (length (heap s)) (byID s),
       byHash := AList.update (TokenHash e) (length (heap s)) (byHash s)\<rparr>"

definition load :: "file_env \<Rightarrow> FileTokenStore \<Rightarrow> go_error + FileTokenStore" where
  "load env s =
     (case fe_readErr env of
        Some err \<Rightarrow> Inl err
      | None \<Rightarrow>
          (case disk s (filePath s) of
             None \<Rightarrow> Inr s
           | Some data \<Rightarrow>
               (case decrypt env (fs_key s) data of
                  Inl err \<Rightarrow> Inl (DecryptFailed err)
                | Inr plain \<Rightarrow>
                    (case fe_unmarshal env plain of
                       Inl err \<Rightarrow> Inl (UnmarshalFailed err)
                     | Inr tokens \<Rightarrow> Inr (fold put_entry tokens s)))))"

definition NewFileTokenStore ::
  "file_env \<Rightarrow> string \<Rightarrow> string \<Rightarrow> (string \<rightharpoonup> string) \<Rightarrow> flush_step option list \<Rightarrow> go_error + FileTokenStore" where
  "NewFileTokenStore env masterSecret path dsk flts =
     (case deriveAESKey env masterSecret of
        Inl err \<Rightarrow> Inl (DeriveKeyFailed err)
      | Inr k \<Rightarrow>
          (case load env \<lparr>byID = [], byHash = [], heap = [], stopped = False, filePath = path, fs_key = k,
                          disk = dsk, faults = flts\<rparr> of
             Inl err \<Rightarrow> Inl (LoadFailed path err)
           | Inr s \<Rightarrow> Inr s))"

definition stored_entries :: "FileTokenStore \<Rightarrow> TokenEntry list" where
  "stored_entries s = map (\<lambda>(i, a). heap s ! a) (byID s)"

text \<open>The temporary file, written, synced, closed and renamed; every failure tries to remove it.\<close>

definition remove_temp :: "bool \<Rightarrow> string \<Rightarrow> (string \<rightharpoonup> string) \<Rightarrow> (string \<rightharpoonup> string)" where
  "remove_temp removed tmpName dsk = (if removed then dsk(tmpName := None) else dsk)"

definition write_file ::
  "flush_step option \<Rightarrow> string \<Rightarrow> string \<Rightarrow> string \<Rightarrow> (string \<rightharpoonup> string) \<Rightarrow> go_error option \<times> (string \<rightharpoonup> string)" where
  "write_file fault path tmpName ciphertext dsk =
     (case fault of
        Some CreateTemp \<Rightarrow> (Some CreateTempFailed, dsk)
      | Some (WriteTemp n removed) \<Rightarrow>
          (Some WriteTempFailed, remove_temp removed tmpName (dsk(tmpName \<mapsto> take n ciphertext)))
      | Some (SyncTemp removed) \<Rightarrow> (Some SyncTempFailed, remove_temp removed tmpName (dsk(tmpName \<mapsto> ciphertext)))
      | Some (CloseTemp removed) \<Rightarrow> (Some CloseTempFailed, remove_temp removed tmpName (dsk(tmpName \<mapsto> ciphertext)))
      | Some (RenameTemp removed) \<Rightarrow> (Some RenameFailed, remove_temp removed tmpName (dsk(tmpName \<mapsto> ciphertext)))
      | None \<Rightarrow> (None, (dsk(tmpName := None))(path \<mapsto> ciphertext)))"

definition flush :: "file_env \<Rightarrow> FileTokenStore \<Rightarrow> go_error option \<times> FileTokenStore" where
  "flush env s =
     (case fe_marshal env (stored_entries s) of
        Inl err \<Rightarrow> (Some (MarshalFailed err), s)
      | Inr plain \<Rightarrow>
          (case encrypt env (fs_key s) plain of
             Inl err \<Rightarrow> (Some (EncryptFailed err), s)
           | Inr ciphertext \<Rightarrow>
               (let fault = (case faults s of [] \<Rightarrow> None | f # _ \<Rightarrow> f)
                in (case write_file fault (filePath s) (fe_temp env (filePath s) (disk s)) ciphertext (disk s) of
                      (err, dsk) \<Rightarrow> (err, s\<lparr>disk := dsk, faults := tl (faults s)\<rparr>)))))"

subsection \<open>The operations of the interface\<close>

definition file_Save :: "file_env \<Rightarrow> TokenEntry \<Rightarrow> FileTokenStore \<Rightarrow> go_error option \<times> FileTokenStore" where
  "file_Save env entry s =
     (case flush env (put_entry entry s) of
        (Some err, s') \<Rightarrow> (Some (SaveFlushFailed err), s')
      | (None, s') \<Rightarrow> (None, s'))"

definition file_GetByHash :: "string \<Rightarrow> FileTokenStore \<Rightarrow> TokenEntry option \<times> FileTokenStore" where
  "file_GetByHash hash s =
     ((case map_of (byHash s) hash of None \<Rightarrow> None | Some a \<Rightarrow> Some (heap s ! a)), s)"

definition file_List :: "FileTokenStore \<Rightarrow> TokenEntry list \<times> FileTokenStore" where
  "file_List s = (sort_key (\<lambda>e. - CreatedAt e) (stored_entries s), s)"

definition file_Revoke :: "file_env \<Rightarrow> go_time \<Rightarrow> string \<Rightarrow> FileTokenStore \<Rightarrow> bool \<times> FileTokenStore" where
  "file_Revoke env now i s =
     (case map_of (byID s) i of
        None \<Rightarrow> (False, s)
      | Some a \<Rightarrow> (True, snd (flush env (s\<lparr>heap := (heap s)[a := (heap s ! a)\<lparr>RevokedAt := now\<rparr>]\<rparr>))))"

definition file_Delete :: "file_env \<Rightarrow> string \<Rightarrow> FileTokenStore \<Rightarrow> bool \<times> FileTokenStore" where
  "file_Delete env i s =
     (case map_of (byID s) i of
        None \<Rightarrow> (False, s)
      | Some a \<Rightarrow> (True, snd (flush env (s\<lparr>byID := AList.delete i (byID s),
                                            byHash := AList.delete (TokenHash (heap s ! a)) (byHash s)\<rparr>))))"

fun purge_loop :: "go_time \<Rightarrow> (string \<times> nat) list \<Rightarrow> bool \<Rightarrow> FileTokenStore \<Rightarrow> bool \<times> FileTokenStore" where
  "purge_loop now [] removed s = (removed, s)"
| "purge_loop now ((i, a) # rest) removed s =
     (if \<not> IsZero (ExpiresAt (heap s ! a)) \<and> ExpiresAt (heap s ! a) < now
      then purge_loop now rest True
        (s\<lparr>byID := AList.delete i (byID s), byHash := AList.delete (TokenHash (heap s ! a)) (byHash s)\<rparr>)
      else purge_loop now rest removed s)"

definition purgeExpired :: "file_env \<Rightarrow> go_time \<Rightarrow> FileTokenStore \<Rightarrow> FileTokenStore" where
  "purgeExpired env now s =
     (case purge_loop now (byID s) False s of
        (removed, s') \<Rightarrow> if removed then snd (flush env s') else s')"

text \<open>
  The goroutine that sweeps the store, as the events its \<open>select\<close> receives: a tick
  carries the instant of the sweep, \<open>StopC\<close> is the closed channel.
\<close>

datatype purge_event = TickC go_time | StopC

fun purgeLoop :: "file_env \<Rightarrow> purge_event list \<Rightarrow> FileTokenStore \<Rightarrow> FileTokenStore" where
  "purgeLoop env [] s = s"
| "purgeLoop env (TickC now # events) s = purgeLoop env events (purgeExpired env now s)"
| "purgeLoop env (StopC # events) s = s"

definition file_Close :: "FileTokenStore \<Rightarrow> FileTokenStore" where
  "file_Close s = (if stopped s then s else s\<lparr>stopped := True\<rparr>)"

definition file_iface :: "file_env \<Rightarrow> FileTokenStore token_iface" where
  "file_iface env = \<lparr>ts_Save = file_Save env, ts_GetByHash = file_GetByHash, ts_List = file_List,
     ts_Revoke = file_Revoke env, ts_Delete = file_Delete env\<rparr>"

subsection \<open>The invariant\<close>

text \<open>The two maps point to the same entries, under their own identifiers and hashes.\<close>

definition linked :: "(string \<rightharpoonup> nat) \<Rightarrow> (string \<rightharpoonup> nat) \<Rightarrow> TokenEntry list \<Rightarrow> bool" where
  "linked ids hashes hp \<longleftrightarrow>
     (\<forall>i a. ids i = Some a \<longrightarrow> a < length hp \<and> te_ID (hp ! a) = i \<and> hashes (TokenHash (hp ! a)) = Some a) \<and>
     (\<forall>h a. hashes h = Some a \<longrightarrow> a < length hp \<and> TokenHash (hp ! a) = h \<and> ids (te_ID (hp ! a)) = Some a)"

lemma linked_ids: "linked ids hashes hp \<Longrightarrow> ids i = Some a \<Longrightarrow> a < length hp \<and> te_ID (hp ! a) = i \<and> hashes (TokenHash (hp ! a)) = Some a"
  by (simp add: linked_def)

lemma linked_hashes: "linked ids hashes hp \<Longrightarrow> hashes h = Some a \<Longrightarrow> a < length hp \<and> TokenHash (hp ! a) = h \<and> ids (te_ID (hp ! a)) = Some a"
  by (simp add: linked_def)

lemma linkedI:
  "(\<And>i a. ids i = Some a \<Longrightarrow> a < length hp \<and> te_ID (hp ! a) = i \<and> hashes (TokenHash (hp ! a)) = Some a) \<Longrightarrow>
   (\<And>h a. hashes h = Some a \<Longrightarrow> a < length hp \<and> TokenHash (hp ! a) = h \<and> ids (te_ID (hp ! a)) = Some a) \<Longrightarrow>
   linked ids hashes hp"
  unfolding linked_def by blast

lemma linked_same:
  assumes "linked ids hashes hp" and "ids i = Some a" and "hashes h = Some b"
  shows "te_ID (hp ! b) = i \<longleftrightarrow> b = a" and "b = a \<longleftrightarrow> h = TokenHash (hp ! a)"
proof -
  note a = linked_ids [OF assms(1,2)] and b = linked_hashes [OF assms(1,3)]
  show "te_ID (hp ! b) = i \<longleftrightarrow> b = a" using a b assms(2) by (metis option.inject)
  show "b = a \<longleftrightarrow> h = TokenHash (hp ! a)" using a b assms(3) by (metis option.inject)
qed

lemma linked_add:
  assumes "linked ids hashes hp" and "ids (te_ID e) = None" and "hashes (TokenHash e) = None"
  shows "linked (ids(te_ID e \<mapsto> length hp)) (hashes(TokenHash e \<mapsto> length hp)) (hp @ [e])"
proof (rule linkedI)
  fix i a
  assume "(ids(te_ID e \<mapsto> length hp)) i = Some a"
  then show "a < length (hp @ [e]) \<and> te_ID ((hp @ [e]) ! a) = i \<and> (hashes(TokenHash e \<mapsto> length hp)) (TokenHash ((hp @ [e]) ! a)) = Some a"
    using linked_ids [OF assms(1), of i a] assms(3) by (cases "i = te_ID e") (auto simp: nth_append)
next
  fix h a
  assume "(hashes(TokenHash e \<mapsto> length hp)) h = Some a"
  then show "a < length (hp @ [e]) \<and> TokenHash ((hp @ [e]) ! a) = h \<and> (ids(te_ID e \<mapsto> length hp)) (te_ID ((hp @ [e]) ! a)) = Some a"
    using linked_hashes [OF assms(1), of h a] assms(2) by (cases "h = TokenHash e") (auto simp: nth_append)
qed

lemma linked_remove:
  assumes "linked ids hashes hp" and "ids i = Some a"
  shows "linked (ids(i := None)) (hashes(TokenHash (hp ! a) := None)) hp"
proof (rule linkedI)
  note a = linked_ids [OF assms]
  fix j b
  assume "(ids(i := None)) j = Some b"
  then have j: "j \<noteq> i" "ids j = Some b" by (auto split: if_splits)
  note b = linked_ids [OF assms(1) j(2)]
  have "TokenHash (hp ! b) \<noteq> TokenHash (hp ! a)" using a b j(1) by auto
  with b show "b < length hp \<and> te_ID (hp ! b) = j \<and> (hashes(TokenHash (hp ! a) := None)) (TokenHash (hp ! b)) = Some b" by simp
next
  note a = linked_ids [OF assms]
  fix h b
  assume "(hashes(TokenHash (hp ! a) := None)) h = Some b"
  then have h: "h \<noteq> TokenHash (hp ! a)" "hashes h = Some b" by (auto split: if_splits)
  note b = linked_hashes [OF assms(1) h(2)]
  have "te_ID (hp ! b) \<noteq> i" using a b h(1) assms(2) by auto
  with b show "b < length hp \<and> TokenHash (hp ! b) = h \<and> (ids(i := None)) (te_ID (hp ! b)) = Some b" by simp
qed

lemma linked_update:
  assumes "linked ids hashes hp" and "te_ID e = te_ID (hp ! a)" and "TokenHash e = TokenHash (hp ! a)" 
  shows "linked ids hashes (hp[a := e])"
proof -
  have "te_ID (hp[a := e] ! b) = te_ID (hp ! b)" "TokenHash (hp[a := e] ! b) = TokenHash (hp ! b)" for b
    using assms(2,3) by (cases "a < length hp"; auto simp: nth_list_update list_update_beyond)+
  then show ?thesis using assms(1) by (simp add: linked_def)
qed

definition file_inv :: "FileTokenStore \<Rightarrow> bool" where
  "file_inv s \<longleftrightarrow> distinct (map fst (byID s)) \<and> linked (map_of (byID s)) (map_of (byHash s)) (heap s)"

definition file_view :: "FileTokenStore \<Rightarrow> (string \<rightharpoonup> TokenEntry)" where
  "file_view s h = map_option (\<lambda>a. heap s ! a) (map_of (byHash s) h)"

lemma flush_memory [simp]:
  "byID (snd (flush env s)) = byID s" "byHash (snd (flush env s)) = byHash s" "heap (snd (flush env s)) = heap s"
  "filePath (snd (flush env s)) = filePath s" "fs_key (snd (flush env s)) = fs_key s"
  by (simp_all add: flush_def Let_def split: sum.splits prod.splits)

lemma flush_inv [simp]: "file_inv (snd (flush env s)) = file_inv s" "file_view (snd (flush env s)) = file_view s"
  by (simp_all add: file_inv_def file_view_def fun_eq_iff)

lemma file_inv_ID: "file_inv s \<Longrightarrow> map_of (byID s) i = Some a \<Longrightarrow> file_view s (TokenHash (heap s ! a)) = Some (heap s ! a) \<and> te_ID (heap s ! a) = i"
  unfolding file_inv_def file_view_def by (auto dest: linked_ids)

lemma file_inv_hash:
  assumes "file_inv s" and "file_view s h = Some e"
  obtains a where "map_of (byHash s) h = Some a" and "heap s ! a = e" and "a < length (heap s)"
    and "map_of (byID s) (te_ID e) = Some a" and "TokenHash e = h"
proof -
  from assms(2) obtain a where a: "map_of (byHash s) h = Some a" "heap s ! a = e" by (auto simp: file_view_def)
  with assms(1) linked_hashes [of "map_of (byID s)" "map_of (byHash s)" "heap s" h a] that show thesis
    unfolding file_inv_def by blast
qed

lemma file_view_absent:
  assumes "file_inv s" and "map_of (byID s) i = None" and "file_view s h = Some e"
  shows "te_ID e \<noteq> i"
proof -
  obtain a where "map_of (byID s) (te_ID e) = Some a" using file_inv_hash [OF assms(1,3)] .
  with assms(2) show ?thesis by auto
qed

lemma file_view_TokenHash: "file_inv s \<Longrightarrow> file_view s h = Some e \<Longrightarrow> TokenHash e = h"
  by (erule file_inv_hash)

lemma put_entry_view:
  assumes "file_inv s"
  shows "file_view (put_entry e s) = (file_view s)(TokenHash e \<mapsto> e)"
proof
  fix h
  show "file_view (put_entry e s) h = ((file_view s)(TokenHash e \<mapsto> e)) h"
  proof (cases "map_of (byHash s) h")
    case (Some a)
    then have "a < length (heap s)" using assms linked_hashes unfolding file_inv_def by blast
    with Some show ?thesis by (simp add: file_view_def put_entry_def update_conv' nth_append)
  qed (simp add: file_view_def put_entry_def update_conv')
qed

definition file_fresh :: "FileTokenStore \<Rightarrow> TokenEntry \<Rightarrow> bool" where
  "file_fresh s e \<longleftrightarrow> fresh_entry (file_view s) e"

lemma put_entry_inv:
  assumes inv: "file_inv s" and h: "file_view s (TokenHash e) = None"
    and i: "\<And>h e'. file_view s h = Some e' \<Longrightarrow> te_ID e' \<noteq> te_ID e"
  shows "file_inv (put_entry e s)"
proof -
  have "map_of (byID s) (te_ID e) = None"
    using file_inv_ID [OF inv] i by (metis not_None_eq)
  moreover have "map_of (byHash s) (TokenHash e) = None" using h by (simp add: file_view_def)
  ultimately show ?thesis using inv linked_add [of "map_of (byID s)" "map_of (byHash s)" "heap s" e]
    by (simp add: file_inv_def put_entry_def update_conv' distinct_update)
qed

lemma revoke_heap_inv:
  fixes now :: go_time
  assumes "file_inv s" and "map_of (byID s) i = Some a"
  defines "s' \<equiv> s\<lparr>heap := (heap s)[a := (heap s ! a)\<lparr>RevokedAt := now\<rparr>]\<rparr>"
  shows "file_inv s'" and "file_view s' h = map_option (\<lambda>e. if te_ID e = i then e\<lparr>RevokedAt := now\<rparr> else e) (file_view s h)"
proof -
  have linked: "linked (map_of (byID s)) (map_of (byHash s)) (heap s)" using assms(1) by (simp add: file_inv_def)
  note a = linked_ids [OF linked assms(2)]
  show "file_inv s'" using assms(1) by (simp add: file_inv_def s'_def linked_update)
  show "file_view s' h = map_option (\<lambda>e. if te_ID e = i then e\<lparr>RevokedAt := now\<rparr> else e) (file_view s h)"
  proof (cases "map_of (byHash s) h")
    case (Some b)
    have "te_ID (heap s ! b) = i \<longleftrightarrow> b = a" by (rule linked_same [OF linked assms(2) Some])
    with Some a show ?thesis by (simp add: file_view_def s'_def nth_list_update)
  qed (simp add: file_view_def s'_def)
qed

lemma delete_entry_inv:
  assumes "file_inv s" and "map_of (byID s) i = Some a"
  defines "s' \<equiv> s\<lparr>byID := AList.delete i (byID s), byHash := AList.delete (TokenHash (heap s ! a)) (byHash s)\<rparr>"
  shows "file_inv s'" and "file_view s' h = (case file_view s h of None \<Rightarrow> None | Some e \<Rightarrow> if te_ID e = i then None else Some e)"
proof -
  have linked: "linked (map_of (byID s)) (map_of (byHash s)) (heap s)" using assms(1) by (simp add: file_inv_def)
  note a = linked_ids [OF linked assms(2)]
  show "file_inv s'"
    using assms(1) linked_remove [OF linked assms(2)] by (simp add: file_inv_def s'_def delete_conv' distinct_delete)
  show "file_view s' h = (case file_view s h of None \<Rightarrow> None | Some e \<Rightarrow> if te_ID e = i then None else Some e)"
  proof (cases "map_of (byHash s) h")
    case (Some b)
    have "te_ID (heap s ! b) = i \<longleftrightarrow> h = TokenHash (heap s ! a)" using linked_same [OF linked assms(2) Some] by simp
    with Some show ?thesis by (simp add: file_view_def s'_def delete_conv')
  qed (simp add: file_view_def s'_def delete_conv')
qed

lemma stored_entries_view: "file_inv s \<Longrightarrow> set (stored_entries s) = ran (file_view s)"
proof -
  assume inv: "file_inv s"
  then have "distinct (map fst (byID s))" by (simp add: file_inv_def)
  from map_of_eq_Some_iff [OF this]
  have "e \<in> set (stored_entries s) \<longleftrightarrow> (\<exists>i a. map_of (byID s) i = Some a \<and> heap s ! a = e)" for e
    by (force simp: stored_entries_def)
  moreover have "(\<exists>i a. map_of (byID s) i = Some a \<and> heap s ! a = e) \<longleftrightarrow> (\<exists>h. file_view s h = Some e)" for e
    using file_inv_ID [OF inv] file_inv_hash [OF inv] by metis
  ultimately show ?thesis by (auto simp: ran_def)
qed

subsection \<open>The file store meets the contract\<close>

lemma file_Save_memory:
  "snd (file_Save env e s) = snd (flush env (put_entry e s))"
  by (simp add: file_Save_def split: prod.splits option.splits)

lemma file_Revoke_view:
  assumes "file_inv s"
  shows "file_inv (snd (file_Revoke env now i s))"
    and "file_view (snd (file_Revoke env now i s)) h =
      map_option (\<lambda>e. if te_ID e = i then e\<lparr>RevokedAt := now\<rparr> else e) (file_view s h)"
proof -
  have none: "map_option (\<lambda>e. if te_ID e = i then e\<lparr>RevokedAt := now\<rparr> else e) (file_view s h) = file_view s h"
    if "map_of (byID s) i = None"
    using file_view_absent [OF assms that] by (cases "file_view s h") auto
  show "file_inv (snd (file_Revoke env now i s))"
    using assms revoke_heap_inv(1) [OF assms] by (simp add: file_Revoke_def split: option.splits)
  show "file_view (snd (file_Revoke env now i s)) h =
      map_option (\<lambda>e. if te_ID e = i then e\<lparr>RevokedAt := now\<rparr> else e) (file_view s h)"
    using none revoke_heap_inv(2) [OF assms] by (simp add: file_Revoke_def split: option.splits)
qed

lemma file_Delete_view:
  assumes "file_inv s"
  shows "file_inv (snd (file_Delete env i s))"
    and "file_view (snd (file_Delete env i s)) h =
      (case file_view s h of None \<Rightarrow> None | Some e \<Rightarrow> if te_ID e = i then None else Some e)"
proof -
  have none: "(case file_view s h of None \<Rightarrow> None | Some e \<Rightarrow> if te_ID e = i then None else Some e) = file_view s h"
    if "map_of (byID s) i = None"
    using file_view_absent [OF assms that] by (cases "file_view s h") auto
  show "file_inv (snd (file_Delete env i s))"
    using assms delete_entry_inv(1) [OF assms] by (simp add: file_Delete_def split: option.splits)
  show "file_view (snd (file_Delete env i s)) h =
      (case file_view s h of None \<Rightarrow> None | Some e \<Rightarrow> if te_ID e = i then None else Some e)"
    using none delete_entry_inv(2) [OF assms] by (cases "map_of (byID s) i") (simp_all add: file_Delete_def)
qed

lemma file_Delete_map_le:
  assumes "file_inv s"
  shows "file_view (snd (file_Delete env i s)) \<subseteq>\<^sub>m file_view s"
  unfolding map_le_def
proof
  fix h
  assume "h \<in> dom (file_view (snd (file_Delete env i s)))"
  then show "file_view (snd (file_Delete env i s)) h = file_view s h"
    unfolding dom_def file_Delete_view(2) [OF assms] by (cases "file_view s h") (auto split: if_split_asm)
qed

lemma purge_loop_view:
  assumes "file_inv s" and "distinct (map fst rest)" and "\<And>i a. (i, a) \<in> set rest \<Longrightarrow> map_of (byID s) i = Some a"
  shows "file_inv (snd (purge_loop now rest removed s)) \<and>
    file_view (snd (purge_loop now rest removed s)) h =
      (case file_view s h of None \<Rightarrow> None
       | Some e \<Rightarrow> if te_ID e \<in> fst ` set rest \<and> IsExpired now e then None else Some e)"
  using assms
proof (induction now rest removed s rule: purge_loop.induct)
  case (1 now removed s)
  then show ?case by (simp split: option.split)
next
  case (2 now i a rest removed s)
  have a: "map_of (byID s) i = Some a" using "2.prems"(3) by simp
  show ?case
  proof (cases "IsExpired now (heap s ! a)")
    case True
    let ?s = "s\<lparr>byID := AList.delete i (byID s), byHash := AList.delete (TokenHash (heap s ! a)) (byHash s)\<rparr>"
    note d = delete_entry_inv [OF "2.prems"(1) a]
    have inv: "file_inv ?s" using d(1) .
    have "map_of (byID ?s) j = Some b" if "(j, b) \<in> set rest" for j b
      using that "2.prems"(2,3) by (force simp: delete_conv')
    with 2 True inv have IH: "file_inv (snd (purge_loop now rest True ?s)) \<and>
        file_view (snd (purge_loop now rest True ?s)) h =
          (case file_view ?s h of None \<Rightarrow> None
           | Some e \<Rightarrow> if te_ID e \<in> fst ` set rest \<and> IsExpired now e then None else Some e)"
      by (simp add: IsExpired_def)
    have "IsExpired now e" if "file_view s h = Some e" "te_ID e = i" for e
      using that True a by (elim file_inv_hash [OF "2.prems"(1)]) auto
    then show ?thesis using IH d(2) [of h] True
      by (cases "file_view s h") (auto simp: IsExpired_def)
  next
    case False
    have "\<not> IsExpired now e" if "file_view s h = Some e" "te_ID e = i" for e
      using that False a by (elim file_inv_hash [OF "2.prems"(1)]) auto
    moreover have "file_inv (snd (purge_loop now rest removed s)) \<and>
        file_view (snd (purge_loop now rest removed s)) h =
          (case file_view s h of None \<Rightarrow> None
           | Some e \<Rightarrow> if te_ID e \<in> fst ` set rest \<and> IsExpired now e then None else Some e)"
      using 2 False by (auto simp: IsExpired_def)
    ultimately show ?thesis using False by (cases "file_view s h") (auto simp: IsExpired_def)
  qed
qed

lemma purgeExpired_view:
  assumes "file_inv s"
  shows "file_inv (purgeExpired env now s)"
    and "file_view (purgeExpired env now s) h =
      (case file_view s h of None \<Rightarrow> None | Some e \<Rightarrow> if IsExpired now e then None else Some e)"
proof -
  have distinct: "distinct (map fst (byID s))" using assms by (simp add: file_inv_def)
  have "te_ID e \<in> fst ` set (byID s)" if "file_view s h = Some e" for e
    using that by (elim file_inv_hash [OF assms]) (force dest: map_of_SomeD)
  then have "(case file_view s h of None \<Rightarrow> None | Some e \<Rightarrow> if te_ID e \<in> fst ` set (byID s) \<and> IsExpired now e then None else Some e)
      = (case file_view s h of None \<Rightarrow> None | Some e \<Rightarrow> if IsExpired now e then None else Some e)"
    by (cases "file_view s h") auto
  with purge_loop_view [OF assms distinct, of now False h] distinct
  show "file_inv (purgeExpired env now s)"
    and "file_view (purgeExpired env now s) h =
      (case file_view s h of None \<Rightarrow> None | Some e \<Rightarrow> if IsExpired now e then None else Some e)"
    by (cases "purge_loop now (byID s) False s"; simp add: purgeExpired_def)+
qed

lemma purgeExpired_map_le:
  assumes "file_inv s"
  shows "file_view (purgeExpired env now s) \<subseteq>\<^sub>m file_view s"
  unfolding map_le_def
proof
  fix h
  assume "h \<in> dom (file_view (purgeExpired env now s))"
  then show "file_view (purgeExpired env now s) h = file_view s h"
    unfolding dom_def purgeExpired_view(2) [OF assms] by (cases "file_view s h") (auto split: if_split_asm)
qed

interpretation file_store: complete_token_store "file_iface env" "purgeExpired env" "\<lambda>t. t" file_fresh file_inv file_view for env
proof
  show "TokenHash e = h" if "file_inv t" and "file_view t h = Some e" for t h e
    using file_view_TokenHash [OF that] .
  show "file_inv (snd (ts_Save (file_iface env) e t))" if "file_inv t" and "file_fresh t e" for t e
    using put_entry_inv [OF that(1)] that(2) by (simp add: file_iface_def file_Save_memory file_fresh_def fresh_entry_def)
  show "file_view (snd (ts_Save (file_iface env) e t)) \<subseteq>\<^sub>m (file_view t)(TokenHash e \<mapsto> stamp_entry (\<lambda>t. t) e)" if "file_inv t" for t e
    using put_entry_view [OF that, of e] by (simp add: file_iface_def file_Save_memory)
  show "file_view (snd (ts_Save (file_iface env) e t)) (TokenHash e) = Some (stamp_entry (\<lambda>t. t) e)" if "file_inv t" for t e
    using put_entry_view [OF that, of e] by (simp add: file_iface_def file_Save_memory)
  show "file_inv (snd (ts_GetByHash (file_iface env) h t)) \<and> file_view (snd (ts_GetByHash (file_iface env) h t)) \<subseteq>\<^sub>m file_view t"
    if "file_inv t" for t h
    using that by (simp add: file_iface_def file_GetByHash_def)
  show "file_view t h = Some e" if "fst (ts_GetByHash (file_iface env) h t) = Some e" for t h e
    using that by (simp add: file_iface_def file_GetByHash_def file_view_def split: option.splits)
  show "ts_GetByHash (file_iface env) h t = (file_view t h, t)" for t h
    by (simp add: file_iface_def file_GetByHash_def file_view_def split: option.splits)
  show "file_inv (snd (ts_List (file_iface env) t)) \<and> file_view (snd (ts_List (file_iface env) t)) \<subseteq>\<^sub>m file_view t"
    if "file_inv t" for t
    using that by (simp add: file_iface_def file_List_def)
  show "set (fst (ts_List (file_iface env) t)) = ran (file_view t)" if "file_inv t" for t
    using stored_entries_view [OF that] by (simp add: file_iface_def file_List_def)
  show "file_inv (snd (ts_Revoke (file_iface env) now i t))" if "file_inv t" for t now i
    using file_Revoke_view(1) [OF that] by (simp add: file_iface_def)
  show "\<exists>e. file_view t h = Some e \<and> (e' = e \<or> te_ID e = i \<and> e' = e\<lparr>RevokedAt := now\<rparr>)"
    if "file_inv t" and "file_view (snd (ts_Revoke (file_iface env) now i t)) h = Some e'" for t now i h e'
    using that(2) file_Revoke_view(2) [OF that(1), of env now i h]
    by (cases "file_view t h") (auto simp: file_iface_def split: if_split_asm)
  show "RevokedAt e' = now"
    if "file_inv t" and "file_view (snd (ts_Revoke (file_iface env) now i t)) h = Some e'" and "te_ID e' = i" for t now i h e'
  proof -
    note revoked = file_Revoke_view(2) [OF that(1), of env now i h] and view = that(2)
    obtain e where "(if te_ID e = i then e\<lparr>RevokedAt := now\<rparr> else e) = e'"
      using view revoked by (fastforce simp: file_iface_def)
    then have "e' = (if te_ID e = i then e\<lparr>RevokedAt := now\<rparr> else e)" by (rule sym)
    with that(3) show ?thesis by (cases "te_ID e = i") simp_all
  qed
  show "file_inv (snd (ts_Delete (file_iface env) i t)) \<and> file_view (snd (ts_Delete (file_iface env) i t)) \<subseteq>\<^sub>m file_view t"
    if "file_inv t" for t i
    using file_Delete_view(1) [OF that, of env i] file_Delete_map_le [OF that, of env i] by (simp add: file_iface_def)
  show "file_inv (purgeExpired env now t) \<and> file_view (purgeExpired env now t) \<subseteq>\<^sub>m file_view t" if "file_inv t" for t now
    using purgeExpired_view(1) [OF that] purgeExpired_map_le [OF that] by blast
  show "te_ID e' \<noteq> i"
    if "file_inv t" and "file_view (snd (ts_Delete (file_iface env) i t)) h = Some e'" for t i h e'
    using that(2) file_Delete_view(2) [OF that(1), of env i h]
    by (cases "file_view t h") (auto simp: file_iface_def split: if_split_asm)
qed simp_all

end
