(* ===== verification/Gimme_TokenRef.thy ===== *)
theory Gimme_TokenRef
  imports Gimme_Tokens
begin

text \<open>
  A concrete encoding of token entries as strings, with its decoder: the instance on which the
  laws assumed of the JSON codec (decoding gives back what was encoded) are shown to hold. Numbers
  are written in binary, least significant digit first, and end with a dot; a string is preceded by
  its length. Decoders return the value and the rest of the input.
\<close>

type_synonym 'a decoder = "string \<Rightarrow> ('a \<times> string) option"

definition dec_bind :: "'a decoder \<Rightarrow> ('a \<Rightarrow> 'b decoder) \<Rightarrow> 'b decoder" where
  "dec_bind p f s = (case p s of None \<Rightarrow> None | Some (x, r) \<Rightarrow> f x r)"

function enc_pos :: "int \<Rightarrow> string" where
  "enc_pos i = (if i \<le> 0 then ''.'' else (if even i then CHR ''0'' else CHR ''1'') # enc_pos (i div 2))"
  by auto
termination by (relation "measure nat") auto

declare enc_pos.simps [simp del]

fun dec_pos :: "int decoder" where
  "dec_pos [] = None"
| "dec_pos (c # s) =
     (if c = CHR ''.'' then Some (0, s)
      else (case dec_pos s of None \<Rightarrow> None | Some (i, r) \<Rightarrow> Some ((if c = CHR ''1'' then 1 else 0) + 2 * i, r)))"

definition enc_int :: "int \<Rightarrow> string" where
  "enc_int i = (if i < 0 then CHR ''-'' else CHR ''+'') # enc_pos \<bar>i\<bar>"

fun dec_int :: "int decoder" where
  "dec_int [] = None"
| "dec_int (c # s) = (case dec_pos s of None \<Rightarrow> None | Some (i, r) \<Rightarrow> Some (if c = CHR ''-'' then - i else i, r))"

definition enc_str :: "string \<Rightarrow> string" where
  "enc_str s = enc_pos (int (length s)) @ s"

definition dec_str :: "string decoder" where
  "dec_str = dec_bind dec_pos (\<lambda>n s. Some (take (nat n) s, drop (nat n) s))"

definition enc_entry :: "TokenEntry \<Rightarrow> string" where
  "enc_entry e = enc_str (te_ID e) @ enc_str (te_Name e) @ enc_str (TokenHash e) @
     enc_int (CreatedAt e) @ enc_int (ExpiresAt e) @ enc_int (RevokedAt e)"

definition dec_entry :: "TokenEntry decoder" where
  "dec_entry = dec_bind dec_str (\<lambda>i. dec_bind dec_str (\<lambda>n. dec_bind dec_str (\<lambda>h.
     dec_bind dec_int (\<lambda>c. dec_bind dec_int (\<lambda>x. dec_bind dec_int (\<lambda>r s.
       Some (\<lparr>te_ID = i, te_Name = n, TokenHash = h, CreatedAt = c, ExpiresAt = x, RevokedAt = r\<rparr>, s)))))))"

fun dec_times :: "nat \<Rightarrow> 'a decoder \<Rightarrow> 'a list decoder" where
  "dec_times 0 p s = Some ([], s)"
| "dec_times (Suc n) p s = dec_bind p (\<lambda>x. dec_bind (dec_times n p) (\<lambda>xs r. Some (x # xs, r))) s"

definition enc_entries :: "TokenEntry list \<Rightarrow> string" where
  "enc_entries es = enc_pos (int (length es)) @ concat (map enc_entry es)"

definition dec_entries :: "TokenEntry list decoder" where
  "dec_entries = dec_bind dec_pos (\<lambda>n. dec_times (nat n) dec_entry)"

lemma dec_pos_enc [simp]: "0 \<le> i \<Longrightarrow> dec_pos (enc_pos i @ r) = Some (i, r)"
proof (induction i rule: enc_pos.induct)
  case (1 i)
  show ?case
  proof (cases "i = 0")
    case False
    with 1 show ?thesis by (subst enc_pos.simps) (auto elim: oddE)
  qed (simp add: enc_pos.simps)
qed

lemma dec_int_enc [simp]: "dec_int (enc_int i @ r) = Some (i, r)"
  by (simp add: enc_int_def)

lemma dec_str_enc [simp]: "dec_str (enc_str s @ r) = Some (s, r)"
  by (simp add: dec_str_def enc_str_def dec_bind_def)

lemma dec_entry_enc [simp]: "dec_entry (enc_entry e @ r) = Some (e, r)"
  by (simp add: dec_entry_def enc_entry_def dec_bind_def)

lemma dec_times_enc [simp]: "dec_times (length es) dec_entry (concat (map enc_entry es) @ r) = Some (es, r)"
  by (induction es) (simp_all add: dec_bind_def)

lemma dec_entries_enc [simp]: "dec_entries (enc_entries es @ r) = Some (es, r)"
  by (simp add: dec_entries_def enc_entries_def dec_bind_def)

definition decode_entry :: "string \<Rightarrow> go_error + TokenEntry" where
  "decode_entry s = (case dec_entry s of Some (e, []) \<Rightarrow> Inr e | _ \<Rightarrow> Inl (External ''invalid JSON''))"

definition decode_entries :: "string \<Rightarrow> go_error + TokenEntry list" where
  "decode_entries s = (case dec_entries s of Some (es, []) \<Rightarrow> Inr es | _ \<Rightarrow> Inl (External ''invalid JSON''))"

lemma decode_entry_enc [simp]: "decode_entry (enc_entry e) = Inr e"
  using dec_entry_enc [of e "[]"] by (simp add: decode_entry_def del: dec_entry_enc)

lemma decode_entries_enc [simp]: "decode_entries (enc_entries es) = Inr es"
  using dec_entries_enc [of es "[]"] by (simp add: decode_entries_def del: dec_entries_enc)

end
