(* ===== verification/Gimme_FileSpec.thy ===== *)
theory Gimme_FileSpec
  imports Gimme_FileStore Gimme_TokenRef
begin

text \<open>
  What the file store and the authentication manager on top of it guarantee: a stored token
  authenticates until it expires or is revoked and never again afterwards, a write of the token
  file either happens completely or leaves the token file as it was (and at most the temporary
  file behind), and a restart restores exactly what the last successful write saw. The laws assumed
  of HKDF, AES-GCM, the nonce source and the JSON codec are the locale \<open>file_codec\<close>: the
  codec gives back entries whose strings are valid UTF-8. \<open>ref_file_env\<close> is an instance.
\<close>

subsection \<open>The libraries the store relies on\<close>

locale file_codec =
  fixes env :: file_env
  assumes hkdf_size: "fe_hkdf env secret info = Inr k \<Longrightarrow> length k = 32"
    and nonce_size: "fe_nonce env = Inr nonce \<Longrightarrow> length nonce = gcm_nonce_size"
    and open_seal: "fe_open env k nonce (fe_seal env k nonce plain) = Inr plain"
    and unmarshal_marshal: "(\<And>e. e \<in> set es \<Longrightarrow> text_safe e) \<Longrightarrow> fe_marshal env es = Inr plain \<Longrightarrow> fe_unmarshal env plain = Inr es"

text \<open>The path with letters appended until the name is free (a hundred at most).\<close>

fun unused_from :: "nat \<Rightarrow> string \<Rightarrow> (string \<rightharpoonup> string) \<Rightarrow> string" where
  "unused_from 0 name dsk = name"
| "unused_from (Suc n) name dsk = (if dsk name = None then name else unused_from n (name @ ''x'') dsk)"

definition unused_name :: "string \<Rightarrow> (string \<rightharpoonup> string) \<Rightarrow> string" where
  "unused_name path dsk = unused_from 100 (path @ ''.tmp'') dsk"

lemma unused_from_free: "dsk name = None \<Longrightarrow> unused_from n name dsk = name"
  by (cases n) simp_all

definition ref_file_env :: file_env where
  "ref_file_env = \<lparr>fe_readErr = None, fe_hkdf = (\<lambda>secret info. Inr (take 32 (secret @ info @ replicate 32 CHR ''0''))),
     fe_seal = (\<lambda>k nonce plain. k @ nonce @ plain),
     fe_open = (\<lambda>k nonce data. if take (length (k @ nonce)) data = k @ nonce then Inr (drop (length (k @ nonce)) data)
                            else Inl (External ''message authentication failed'')),
     fe_nonce = Inr (replicate 12 CHR ''n''), fe_marshal = (\<lambda>es. Inr (enc_entries es)), fe_unmarshal = decode_entries,
     fe_temp = unused_name\<rparr>"

interpretation ref_codec: file_codec ref_file_env
  by unfold_locales (auto simp: ref_file_env_def gcm_nonce_size_def)

context file_codec
begin

lemma decrypt_encrypt: "encrypt env k plain = Inr data \<Longrightarrow> decrypt env k data = Inr plain"
  using nonce_size open_seal by (auto simp: encrypt_def decrypt_def split: option.splits sum.splits)

end

subsection \<open>Writing the token file\<close>

fun temp_removed :: "flush_step \<Rightarrow> bool" where
  "temp_removed CreateTemp \<longleftrightarrow> True"
| "temp_removed (WriteTemp n removed) \<longleftrightarrow> removed"
| "temp_removed (SyncTemp removed) \<longleftrightarrow> removed"
| "temp_removed (CloseTemp removed) \<longleftrightarrow> removed"
| "temp_removed (RenameTemp removed) \<longleftrightarrow> removed"

lemma write_file_failed:
  assumes "write_file fault path tmp data dsk = (Some err, dsk')" and "dsk tmp = None"
  shows "dsk' = dsk \<or> (\<exists>f left. fault = Some f \<and> \<not> temp_removed f \<and> dsk' = dsk(tmp \<mapsto> left))"
  using assms by (auto simp: write_file_def remove_temp_def fun_upd_idem split: option.splits flush_step.splits if_split_asm)

lemma write_file_done:
  "write_file fault path tmp data dsk = (None, dsk') \<Longrightarrow> dsk tmp = None \<Longrightarrow> dsk' = dsk(path \<mapsto> data)"
  by (auto simp: write_file_def fun_upd_idem split: option.splits flush_step.splits)

text \<open>\<open>os.CreateTemp\<close> creates a file that did not exist, under a name of its own.\<close>

definition temp_new :: "file_env \<Rightarrow> FileTokenStore \<Rightarrow> bool" where
  "temp_new env s \<longleftrightarrow> disk s (fe_temp env (filePath s) (disk s)) = None \<and> fe_temp env (filePath s) (disk s) \<noteq> filePath s"

lemma flush_failed:
  assumes "temp_new env s" and "flush env s = (Some err, s')"
  shows "disk s' = disk s \<or> (\<exists>f left. faults s \<noteq> [] \<and> hd (faults s) = Some f \<and> \<not> temp_removed f \<and>
    disk s' = (disk s)(fe_temp env (filePath s) (disk s) \<mapsto> left))"
proof (cases "disk s' = disk s")
  case False
  define fault where "fault = (case faults s of [] \<Rightarrow> None | f # _ \<Rightarrow> f)"
  from False assms(2) obtain data where
    "write_file fault (filePath s) (fe_temp env (filePath s) (disk s)) data (disk s) = (Some err, disk s')"
    by (auto simp: flush_def fault_def Let_def split: sum.splits prod.splits)
  from write_file_failed [OF this] assms(1) False show ?thesis
    by (cases "faults s") (auto simp: temp_new_def fault_def)
qed simp

lemma flush_done:
  assumes "temp_new env s" and "flush env s = (None, s')"
  obtains plain data where "fe_marshal env (stored_entries s) = Inr plain" and "encrypt env (fs_key s) plain = Inr data"
    and "disk s' = (disk s)(filePath s \<mapsto> data)"
proof -
  from assms(2) obtain plain data fault where p: "fe_marshal env (stored_entries s) = Inr plain"
    "encrypt env (fs_key s) plain = Inr data"
    "write_file fault (filePath s) (fe_temp env (filePath s) (disk s)) data (disk s) = (None, disk s')"
    by (fastforce simp: flush_def Let_def split: sum.splits prod.splits)
  with write_file_done [OF p(3)] assms(1) that show ?thesis by (simp add: temp_new_def)
qed

subsection \<open>Reading it back\<close>

lemma fold_put_entry:
  assumes "file_inv s" and "distinct (map te_ID es)" and "distinct (map TokenHash es)"
    and "\<And>e h e'. e \<in> set es \<Longrightarrow> file_view s h = Some e' \<Longrightarrow> te_ID e' \<noteq> te_ID e \<and> h \<noteq> TokenHash e"
  shows "file_inv (fold put_entry es s) \<and>
    file_view (fold put_entry es s) = file_view s ++ map_of (map (\<lambda>e. (TokenHash e, e)) es)"
  using assms
proof (induction es arbitrary: s)
  case (Cons e es)
  have view: "file_view (put_entry e s) = (file_view s)(TokenHash e \<mapsto> e)" by (rule put_entry_view [OF Cons.prems(1)])
  have "file_view s (TokenHash e) = None" using Cons.prems(4) [of e "TokenHash e"] by (cases "file_view s (TokenHash e)") auto
  then have inv: "file_inv (put_entry e s)" using Cons.prems(4) by (intro put_entry_inv [OF Cons.prems(1)]) auto
  have "file_inv (fold put_entry es (put_entry e s)) \<and>
      file_view (fold put_entry es (put_entry e s)) = file_view (put_entry e s) ++ map_of (map (\<lambda>e. (TokenHash e, e)) es)"
  proof (rule Cons.IH [OF inv])
    show "te_ID e'' \<noteq> te_ID e' \<and> h \<noteq> TokenHash e'" if "e' \<in> set es" "file_view (put_entry e s) h = Some e''" for e' h e''
      using that Cons.prems(2-4) by (auto simp: view split: if_split_asm)
  qed (use Cons.prems in simp_all)
  moreover have "TokenHash e \<notin> dom (map_of (map (\<lambda>e. (TokenHash e, e)) es))"
    using Cons.prems(3) by (auto simp: dom_map_of_conv_image_fst)
  ultimately show ?case by (auto simp: view map_add_def fun_eq_iff split: option.splits)
qed (simp add: map_add_def)

lemma stored_entries_distinct:
  assumes "file_inv s"
  shows "distinct (map te_ID (stored_entries s))" and "distinct (map TokenHash (stored_entries s))"
proof -
  have d: "distinct (map fst (byID s))" using assms by (simp add: file_inv_def)
  have ids: "map te_ID (stored_entries s) = map fst (byID s)"
    using file_inv_ID [OF assms] map_of_eq_Some_iff [OF d] by (force simp: stored_entries_def)
  with d show "distinct (map te_ID (stored_entries s))" by simp
  have "inj_on TokenHash (set (stored_entries s))"
  proof (rule inj_onI)
    fix e e'
    assume "e \<in> set (stored_entries s)" "e' \<in> set (stored_entries s)" "TokenHash e = TokenHash e'"
    then show "e = e'" using stored_entries_view [OF assms] file_view_TokenHash [OF assms]
      by (auto simp: ran_def)
  qed
  moreover have "distinct (stored_entries s)" using d unfolding ids [symmetric] by (simp add: distinct_map)
  ultimately show "distinct (map TokenHash (stored_entries s))" by (simp add: distinct_map)
qed

lemma stored_entries_map:
  assumes "file_inv s"
  shows "map_of (map (\<lambda>e. (TokenHash e, e)) (stored_entries s)) = file_view s"
proof
  fix h
  have d: "distinct (map fst (map (\<lambda>e. (TokenHash e, e)) (stored_entries s)))"
    using stored_entries_distinct(2) [OF assms] by (simp add: comp_def)
  show "map_of (map (\<lambda>e. (TokenHash e, e)) (stored_entries s)) h = file_view s h"
  proof (cases "file_view s h")
    case None
    then have "TokenHash e \<noteq> h" if "e \<in> set (stored_entries s)" for e
      using that stored_entries_view [OF assms] file_view_TokenHash [OF assms] by (auto simp: ran_def)
    with None show ?thesis by (simp add: map_of_eq_None_iff image_iff) blast
  next
    case (Some e)
    then have "(h, e) \<in> set (map (\<lambda>e. (TokenHash e, e)) (stored_entries s))"
      using stored_entries_view [OF assms] file_view_TokenHash [OF assms] by (force simp: ran_def)
    with Some d show ?thesis by (simp only: map_of_is_SomeI)
  qed
qed

abbreviation new_store :: "string \<Rightarrow> string \<Rightarrow> (string \<rightharpoonup> string) \<Rightarrow> flush_step option list \<Rightarrow> FileTokenStore" where
  "new_store k path dsk flts \<equiv> \<lparr>byID = [], byHash = [], heap = [], stopped = False, filePath = path, fs_key = k,
     disk = dsk, faults = flts\<rparr>"

lemma new_store_inv [simp]: "file_inv (new_store k path dsk flts)" "file_view (new_store k path dsk flts) = Map.empty"
  by (simp_all add: file_inv_def linked_def file_view_def fun_eq_iff)

context file_codec
begin

text \<open>After a successful write a process that starts with the same secret sees the same tokens.\<close>

lemma restart:
  assumes "file_inv s" and "temp_new env s" and "flush env s = (None, s')"
    and "deriveAESKey env secret = Inr (fs_key s)" and "fe_readErr env = None"
    and "\<And>e. e \<in> ran (file_view s) \<Longrightarrow> text_safe e"
  shows "\<exists>s''. NewFileTokenStore env secret (filePath s) (disk s') flts = Inr s'' \<and> file_inv s'' \<and> file_view s'' = file_view s"
proof -
  obtain plain data where w: "fe_marshal env (stored_entries s) = Inr plain" "encrypt env (fs_key s) plain = Inr data"
    "disk s' = (disk s)(filePath s \<mapsto> data)" using flush_done [OF assms(2,3)] .
  have safe: "text_safe e" if "e \<in> set (stored_entries s)" for e
    using that assms(6) stored_entries_view [OF assms(1)] by simp
  let ?s0 = "new_store (fs_key s) (filePath s) (disk s') flts"
  have "NewFileTokenStore env secret (filePath s) (disk s') flts = Inr (fold put_entry (stored_entries s) ?s0)"
    using assms(4,5) decrypt_encrypt [OF w(2)] unmarshal_marshal [OF safe w(1)] w(3)
    by (simp add: NewFileTokenStore_def load_def)
  moreover have "file_inv (fold put_entry (stored_entries s) ?s0) \<and> file_view (fold put_entry (stored_entries s) ?s0) = file_view s"
    using fold_put_entry [of ?s0 "stored_entries s"] stored_entries_distinct [OF assms(1)] stored_entries_map [OF assms(1)]
    by simp
  ultimately show ?thesis by blast
qed

end

subsection \<open>Properties\<close>

text \<open>C14: the write of the token file by \<open>Save\<close> is all or nothing. When \<open>Save\<close> reports
  success, a process started afterwards with the same secret loads exactly the tokens held before
  and the new one. When it reports an error, whichever step failed and however much had been
  written, the token file and every other file are as they were; only when the removal of the
  temporary file failed too is that file left behind. The identifiers, names and hashes of the
  tokens are valid UTF-8 (the JSON codec replaces other bytes).\<close>

theorem file_Save_durable:
  assumes "file_codec env" and "file_inv s" and "file_fresh s e" and "temp_new env s"
    and "deriveAESKey env secret = Inr (fs_key s)" and "fe_readErr env = None"
    and "text_safe e" and "\<And>e'. e' \<in> ran (file_view s) \<Longrightarrow> text_safe e'"
  shows "case file_Save env e s of
      (None, s') \<Rightarrow> (\<exists>s''. NewFileTokenStore env secret (filePath s) (disk s') flts = Inr s'' \<and> file_inv s'' \<and>
                       file_view s'' = (file_view s)(TokenHash e \<mapsto> e))
    | (Some err, s') \<Rightarrow> disk s' (filePath s) = disk s (filePath s) \<and>
        (disk s' = disk s \<or>
         (\<exists>f left. faults s \<noteq> [] \<and> hd (faults s) = Some f \<and> \<not> temp_removed f \<and>
            disk s' = (disk s)(fe_temp env (filePath s) (disk s) \<mapsto> left)))"
proof -
  have inv: "file_inv (put_entry e s)" using assms(3) by (intro put_entry_inv [OF assms(2)]) (auto simp: file_fresh_def fresh_entry_def)
  have same: "filePath (put_entry e s) = filePath s" "disk (put_entry e s) = disk s" "fs_key (put_entry e s) = fs_key s"
    "faults (put_entry e s) = faults s" by (simp_all add: put_entry_def)
  have temp: "temp_new env (put_entry e s)" using assms(4) by (simp add: temp_new_def same)
  have safe: "text_safe e'" if "e' \<in> ran (file_view (put_entry e s))" for e'
    using that assms(7,8) by (auto simp: put_entry_view [OF assms(2)] ran_def split: if_split_asm)
  obtain r s' where f: "flush env (put_entry e s) = (r, s')" by fastforce
  show ?thesis
  proof (cases r)
    case None
    with f file_codec.restart [OF assms(1) inv temp, of s' secret flts] assms(5,6) safe show ?thesis
      by (simp add: file_Save_def same put_entry_view [OF assms(2)])
  next
    case (Some err)
    with f flush_failed [OF temp, of err s'] assms(4) show ?thesis by (auto simp: file_Save_def same temp_new_def)
  qed
qed

definition ref_entry :: TokenEntry where
  "ref_entry = \<lparr>te_ID = ''0a'', te_Name = ''ci'', TokenHash = ''7f'', CreatedAt = 10, ExpiresAt = 500, RevokedAt = 0\<rparr>"

definition ref_file_store :: FileTokenStore where
  "ref_file_store = new_store (take 32 (''s3cret'' @ hkdfInfo @ replicate 32 CHR ''0'')) ''tokens.enc'' (Map.empty(''other'' \<mapsto> ''x''))
     [None, Some (SyncTemp True)]"

lemma fresh_entry_empty [simp]: "fresh_entry Map.empty e \<longleftrightarrow> is_uuid (te_ID e)"
  by (simp add: fresh_entry_def)

lemma ref_file_store_ok:
  "file_inv ref_file_store" "file_view ref_file_store = Map.empty" "temp_new ref_file_env ref_file_store"
  "deriveAESKey ref_file_env ''s3cret'' = Inr (fs_key ref_file_store)" "fe_readErr ref_file_env = None"
  by (simp_all add: ref_file_store_def temp_new_def deriveAESKey_def ref_file_env_def unused_name_def unused_from_free)

lemma ref_entry_safe: "text_safe ref_entry"
  by code_simp

theorem file_Save_durable_witness:
  "\<exists>s''. NewFileTokenStore ref_file_env ''s3cret'' (filePath ref_file_store) (disk (snd (file_Save ref_file_env ref_entry ref_file_store))) [] = Inr s'' \<and>
     file_inv s'' \<and> file_view s'' = (file_view ref_file_store)(TokenHash ref_entry \<mapsto> ref_entry)"
proof -
  have "fst (file_Save ref_file_env ref_entry ref_file_store) = None" by code_simp
  then obtain s' where s': "file_Save ref_file_env ref_entry ref_file_store = (None, s')"
    by (cases "file_Save ref_file_env ref_entry ref_file_store") simp
  have "file_fresh ref_file_store ref_entry" by (simp add: file_fresh_def ref_file_store_ok is_uuid_def ref_entry_def)
  from file_Save_durable [OF ref_codec.file_codec_axioms ref_file_store_ok(1) this ref_file_store_ok(3-5), of "[]"] s'
    ref_entry_safe
  show ?thesis by (simp add: ref_file_store_ok(2))
qed

text \<open>A request is let through by \<open>AuthenticateMiddleware\<close> only when the hash of the bearer
  token it presents is stored, for an entry that is neither revoked nor expired at that instant.\<close>

lemma file_authenticate_sound:
  assumes "file_inv s" and "fst (AuthenticateMiddleware (file_iface env) sha256 now authHeader s)"
  shows "\<exists>e. file_view s (hashToken sha256 (extractToken authHeader)) = Some e \<and> \<not> IsRevoked e \<and> \<not> IsExpired now e"
  using assms by (rule file_store.authenticate_sound)

text \<open>C15: a token returned by \<open>CreateToken\<close> authenticates as \<open>Bearer\<close> token exactly until
  the instant its entry carries as expiry.\<close>

theorem file_created_authenticates:
  assumes "file_inv s" and "CreateToken (file_iface env) aenv name expirationDate s = (Inr (entry, raw), s')"
    and "file_fresh s entry" and "1000 \<le> ae_now aenv"
  shows "fst (AuthenticateMiddleware (file_iface env) (ae_sha256 aenv) now (''Bearer '' @ raw) s') \<longleftrightarrow> now \<le> ExpiresAt entry"
  using assms by (rule file_store.created_authenticates)

text \<open>C7: once \<open>RevokeToken\<close> has returned true for the identifier of a token, no later request
  that presents this token is let through: not after any sequence of issuing other tokens,
  authenticating, listing, revoking, deleting and sweeping, and at no later or earlier clock.\<close>

theorem file_revoked_stays_rejected:
  assumes "file_inv s" and "fst (RevokeToken (file_iface env) now i s)"
    and "file_view s (hashToken sha256 (extractToken authHeader)) = Some e" and "te_ID e = i" and "1000 \<le> now"
    and "token_reach (file_iface env) (purgeExpired env) sha256 file_fresh (hashToken sha256 (extractToken authHeader))
      (snd (RevokeToken (file_iface env) now i s)) s'"
  shows "\<not> fst (AuthenticateMiddleware (file_iface env) sha256 now' authHeader s')"
  using assms by (rule file_store.revoked_stays_rejected)

text \<open>The sweep of \<open>purgeExpired\<close> removes exactly the expired entries, from both maps.\<close>

lemma purgeExpired_exact:
  assumes "file_inv s"
  shows "file_inv (purgeExpired env now s) \<and>
    (\<forall>h. file_view (purgeExpired env now s) h = (case file_view s h of None \<Rightarrow> None | Some e \<Rightarrow> if IsExpired now e then None else Some e))"
  using purgeExpired_view [OF assms] by blast

definition ref_auth_env :: auth_env where
  "ref_auth_env = \<lparr>ae_now = 5000, ae_rand = (\<lambda>n. Inr (replicate n CHR ''k'')), ae_uuid = ''0a'', ae_sha256 = (\<lambda>s. take 8 s)\<rparr>"

definition ref_created :: "(GimmeError + (TokenEntry \<times> string)) \<times> FileTokenStore" where
  "ref_created = CreateToken (file_iface ref_file_env) ref_auth_env ''ci'' '''' ref_file_store"

definition ref_raw :: string where
  "ref_raw = tokenPrefix @ hex_encode (replicate 32 CHR ''k'')"

definition ref_token :: TokenEntry where
  "ref_token = \<lparr>te_ID = ''0a'', te_Name = ''ci'', TokenHash = hex_encode (take 8 ref_raw), CreatedAt = 5000,
     ExpiresAt = 7776000000005000, RevokedAt = 0\<rparr>"

lemma ref_created_eq: "ref_created = (Inr (ref_token, ref_raw), snd ref_created)"
proof -
  have "case fst ref_created of Inl _ \<Rightarrow> False | Inr (e, r) \<Rightarrow> e = ref_token \<and> r = ref_raw" by code_simp
  then show ?thesis by (auto simp: prod_eq_iff split: sum.splits)
qed

lemma ref_created_ok:
  "file_inv (snd ref_created)" "file_view (snd ref_created) (hashToken (ae_sha256 ref_auth_env) (extractToken (''Bearer '' @ ref_raw))) = Some ref_token"
proof -
  have "is_uuid ''0a''" by code_simp
  then have fresh: "file_fresh ref_file_store ref_token" by (simp add: file_fresh_def ref_file_store_ok ref_token_def)
  have c: "CreateToken (file_iface ref_file_env) ref_auth_env ''ci'' '''' ref_file_store = (Inr (ref_token, ref_raw), snd ref_created)"
    using ref_created_eq by (simp only: ref_created_def)
  obtain buf where saved: "TokenHash ref_token = hashToken (ae_sha256 ref_auth_env) ref_raw"
      "ts_Save (file_iface ref_file_env) ref_token ref_file_store = (None, snd ref_created)"
    using CreateToken_ok [OF c] .
  then show "file_inv (snd ref_created)" using file_store.save_inv [OF ref_file_store_ok(1) fresh, of ref_file_env] by simp
  show "file_view (snd ref_created) (hashToken (ae_sha256 ref_auth_env) (extractToken (''Bearer '' @ ref_raw))) = Some ref_token"
    using saved file_store.save_complete [OF ref_file_store_ok(1) fresh, of ref_file_env] unfolding extractToken_Bearer by simp
qed

theorem file_created_authenticates_witness:
  "fst (AuthenticateMiddleware (file_iface ref_file_env) (ae_sha256 ref_auth_env) 6000 (''Bearer '' @ ref_raw) (snd ref_created)) \<longleftrightarrow>
     6000 \<le> ExpiresAt ref_token"
proof (rule file_created_authenticates [OF ref_file_store_ok(1)])
  show "CreateToken (file_iface ref_file_env) ref_auth_env ''ci'' '''' ref_file_store = (Inr (ref_token, ref_raw), snd ref_created)"
    using ref_created_eq by (simp only: ref_created_def)
  show "file_fresh ref_file_store ref_token" unfolding file_fresh_def ref_file_store_ok fresh_entry_empty by code_simp
  show "1000 \<le> ae_now ref_auth_env" by code_simp
qed

theorem file_revoked_stays_rejected_witness:
  "\<not> fst (AuthenticateMiddleware (file_iface ref_file_env) (ae_sha256 ref_auth_env) 7000 (''Bearer '' @ ref_raw)
       (purgeExpired ref_file_env 6500 (snd (RevokeToken (file_iface ref_file_env) 6000 ''0a'' (snd ref_created)))))"
proof (rule file_revoked_stays_rejected [OF ref_created_ok(1) _ ref_created_ok(2), of ref_file_env 6000 "''0a''"])
  show "fst (RevokeToken (file_iface ref_file_env) 6000 ''0a'' (snd ref_created))" by code_simp
  show "te_ID ref_token = ''0a''" by (simp add: ref_token_def)
  show "1000 \<le> (6000 :: go_time)" by simp
  let ?reach = "token_reach (file_iface ref_file_env) (purgeExpired ref_file_env) (ae_sha256 ref_auth_env) file_fresh
    (hashToken (ae_sha256 ref_auth_env) (extractToken (''Bearer '' @ ref_raw))) (snd (RevokeToken (file_iface ref_file_env) 6000 ''0a'' (snd ref_created)))"
  have "?reach (token_step (file_iface ref_file_env) (purgeExpired ref_file_env) (ae_sha256 ref_auth_env) (SweepEv 6500)
      (snd (RevokeToken (file_iface ref_file_env) 6000 ''0a'' (snd ref_created))))"
    by (rule token_reach.step [OF token_reach.start]) simp
  then show "?reach (purgeExpired ref_file_env 6500 (snd (RevokeToken (file_iface ref_file_env) 6000 ''0a'' (snd ref_created))))"
    by (simp only: token_step.simps)
qed

end
