(* ===== verification/Gimme_RedisStore.thy ===== *)
theory Gimme_RedisStore
  imports Gimme_TokenRef
begin

text \<open>
  The Redis token store, internal/auth/redis-token-store.go. The connection is an argument
  (\<open>redis_conn\<close>) whose documented behaviour is the locale \<open>redis_tokens\<close>: keys may
  reach the end of their life during any call, a pipeline that fails may have run in part, a script
  whose reply is lost may have run. The string keys and the sets (the index of identifiers) are the
  observations \<open>kv\<close> and \<open>smem\<close> of the connection. The revocation script is Lua code
  of the store and is translated. The store is proved to meet the contract \<open>token_store\<close>
  and to keep its index of identifiers (\<open>keeps_index\<close>).
\<close>

subsection \<open>Keys and the stored form of an entry\<close>

definition tokenKeyPrefix :: string where "tokenKeyPrefix = ''token:''"
definition tokenIndexKey :: string where "tokenIndexKey = ''token:__index__''"
definition tokenHashPrefix :: string where "tokenHashPrefix = ''token:hash:''"

record redisTokenEntry =
  r_ID :: string
  r_Name :: string
  r_TokenHash :: string
  r_CreatedAt :: go_time
  r_ExpiresAt :: go_time
  r_RevokedAt :: go_time

definition toRedisEntry :: "TokenEntry \<Rightarrow> redisTokenEntry" where
  "toRedisEntry e = \<lparr>r_ID = te_ID e, r_Name = te_Name e, r_TokenHash = TokenHash e, r_CreatedAt = CreatedAt e,
     r_ExpiresAt = ExpiresAt e, r_RevokedAt = RevokedAt e\<rparr>"

definition fromRedisEntry :: "redisTokenEntry \<Rightarrow> TokenEntry" where
  "fromRedisEntry r = \<lparr>te_ID = r_ID r, te_Name = r_Name r, TokenHash = r_TokenHash r, CreatedAt = r_CreatedAt r,
     ExpiresAt = r_ExpiresAt r, RevokedAt = r_RevokedAt r\<rparr>"

definition redis_key :: "string \<Rightarrow> string" where "redis_key i = tokenKeyPrefix @ i"
definition redis_hashKey :: "string \<Rightarrow> string" where "redis_hashKey h = tokenHashPrefix @ h"

subsection \<open>The connection\<close>

datatype redis_cmd = SET string string int | DEL string | SADD string string | SREM string string

record 'r redis_conn =
  rt_Now :: "'r \<Rightarrow> go_time"
  rt_Get :: "string \<Rightarrow> 'r \<Rightarrow> (go_error + string) \<times> 'r"
  rt_Exec :: "redis_cmd list \<Rightarrow> 'r \<Rightarrow> (go_error + int list) \<times> 'r"
  rt_SMembers :: "string \<Rightarrow> 'r \<Rightarrow> (go_error + string list) \<times> 'r"
  rt_SRem :: "string \<Rightarrow> string \<Rightarrow> 'r \<Rightarrow> go_error option \<times> 'r"
  rt_Run :: "('r \<Rightarrow> int \<times> 'r) \<Rightarrow> 'r \<Rightarrow> (go_error + int) \<times> 'r"
  rt_PTTL :: "string \<Rightarrow> 'r \<Rightarrow> int"
  rt_SET :: "string \<Rightarrow> string \<Rightarrow> int option \<Rightarrow> 'r \<Rightarrow> 'r"

record redis_codec =
  rj_Marshal :: "redisTokenEntry \<Rightarrow> go_error + string"
  rj_Unmarshal :: "string \<Rightarrow> go_error + redisTokenEntry"

subsection \<open>The operations\<close>

definition redis_getByID :: "'r redis_conn \<Rightarrow> redis_codec \<Rightarrow> string \<Rightarrow> 'r \<Rightarrow> TokenEntry option \<times> 'r" where
  "redis_getByID rc js i w =
     (case rt_Get rc (redis_key i) w of
        (Inl _, w') \<Rightarrow> (None, w')
      | (Inr data, w') \<Rightarrow>
          (case rj_Unmarshal js data of Inl _ \<Rightarrow> (None, w') | Inr r \<Rightarrow> (Some (fromRedisEntry r), w')))"

definition save_cmds :: "TokenEntry \<Rightarrow> string \<Rightarrow> int \<Rightarrow> redis_cmd list" where
  "save_cmds entry data ttl =
     (if 0 < ttl then [SET (redis_key (te_ID entry)) data ttl, SET (redis_hashKey (TokenHash entry)) (te_ID entry) ttl]
      else [SET (redis_key (te_ID entry)) data 0, SET (redis_hashKey (TokenHash entry)) (te_ID entry) 0]) @
     [SADD tokenIndexKey (te_ID entry)]"

definition redis_Save :: "'r redis_conn \<Rightarrow> redis_codec \<Rightarrow> TokenEntry \<Rightarrow> 'r \<Rightarrow> go_error option \<times> 'r" where
  "redis_Save rc js entry w =
     (case rj_Marshal js (toRedisEntry entry) of
        Inl err \<Rightarrow> (Some (MarshalFailed err), w)
      | Inr data \<Rightarrow>
          (let ttl = (if \<not> IsZero (ExpiresAt entry) then ExpiresAt entry - rt_Now rc w else 0)
           in if \<not> IsZero (ExpiresAt entry) \<and> ttl \<le> 0 then (Some TokenAlreadyExpired, w)
              else (case rt_Exec rc (save_cmds entry data ttl) w of
                      (Inl err, w') \<Rightarrow> (Some (SavingEntryFailed err), w')
                    | (Inr _, w') \<Rightarrow> (None, w'))))"

definition redis_GetByHash :: "'r redis_conn \<Rightarrow> redis_codec \<Rightarrow> string \<Rightarrow> 'r \<Rightarrow> TokenEntry option \<times> 'r" where
  "redis_GetByHash rc js hash w =
     (case rt_Get rc (redis_hashKey hash) w of
        (Inl _, w') \<Rightarrow> (None, w')
      | (Inr i, w') \<Rightarrow>
          (case redis_getByID rc js i w' of
             (Some entry, w'') \<Rightarrow> (Some entry, w'')
           | (None, w'') \<Rightarrow> (None, snd (rt_SRem rc tokenIndexKey i w''))))"

fun redis_list_loop :: "'r redis_conn \<Rightarrow> redis_codec \<Rightarrow> string list \<Rightarrow> TokenEntry list \<Rightarrow> 'r \<Rightarrow> TokenEntry list \<times> 'r" where
  "redis_list_loop rc js [] entries w = (entries, w)"
| "redis_list_loop rc js (i # ids) entries w =
     (case redis_getByID rc js i w of
        (Some entry, w') \<Rightarrow> redis_list_loop rc js ids (entries @ [entry]) w'
      | (None, w') \<Rightarrow> redis_list_loop rc js ids entries (snd (rt_SRem rc tokenIndexKey i w')))"

definition redis_List :: "'r redis_conn \<Rightarrow> redis_codec \<Rightarrow> 'r \<Rightarrow> TokenEntry list \<times> 'r" where
  "redis_List rc js w =
     (case rt_SMembers rc tokenIndexKey w of
        (Inl _, w') \<Rightarrow> ([], w')
      | (Inr ids, w') \<Rightarrow>
          (case redis_list_loop rc js ids [] w' of (entries, w'') \<Rightarrow> (sort_key (\<lambda>e. - CreatedAt e) entries, w'')))"

definition revokeScript :: "'r redis_conn \<Rightarrow> string \<Rightarrow> string \<Rightarrow> 'r \<Rightarrow> int \<times> 'r" where
  "revokeScript rc key data w =
     (let pttl = rt_PTTL rc key w
      in if pttl = - 2 then (0, w)
         else if 0 < pttl then (1, rt_SET rc key data (Some pttl) w)
         else (1, rt_SET rc key data None w))"

definition redis_Revoke :: "'r redis_conn \<Rightarrow> redis_codec \<Rightarrow> go_time \<Rightarrow> string \<Rightarrow> 'r \<Rightarrow> bool \<times> 'r" where
  "redis_Revoke rc js now i w =
     (case redis_getByID rc js i w of
        (None, w') \<Rightarrow> (False, w')
      | (Some entry, w') \<Rightarrow>
          (case rj_Marshal js (toRedisEntry (entry\<lparr>RevokedAt := now\<rparr>)) of
             Inl _ \<Rightarrow> (False, w')
           | Inr data \<Rightarrow>
               (case rt_Run rc (revokeScript rc (redis_key i) data) w' of
                  (Inl _, w'') \<Rightarrow> (False, w'')
                | (Inr result, w'') \<Rightarrow> (result \<noteq> 0, w''))))"

definition redis_Delete :: "'r redis_conn \<Rightarrow> redis_codec \<Rightarrow> string \<Rightarrow> 'r \<Rightarrow> bool \<times> 'r" where
  "redis_Delete rc js i w =
     (case redis_getByID rc js i w of
        (None, w') \<Rightarrow> (False, w')
      | (Some entry, w') \<Rightarrow>
          (case rt_Exec rc [DEL (redis_key i), DEL (redis_hashKey (TokenHash entry)), SREM tokenIndexKey i] w' of
             (Inl _, w'') \<Rightarrow> (False, w'')
           | (Inr replies, w'') \<Rightarrow> (case replies of [] \<Rightarrow> False | deleted # _ \<Rightarrow> 0 < deleted, w'')))"

definition NewRedisTokenStore :: "'r redis_conn \<Rightarrow> redis_codec \<Rightarrow> 'r token_iface" where
  "NewRedisTokenStore rc js = \<lparr>ts_Save = redis_Save rc js, ts_GetByHash = redis_GetByHash rc js, ts_List = redis_List rc js,
     ts_Revoke = redis_Revoke rc js, ts_Delete = redis_Delete rc js\<rparr>"

subsection \<open>What the connection and the codec document\<close>

text \<open>The effect of a command on the string keys.\<close>

fun cmd_kv :: "redis_cmd \<Rightarrow> (string \<rightharpoonup> string) \<Rightarrow> (string \<rightharpoonup> string)" where
  "cmd_kv (SET k v ttl) m = m(k \<mapsto> v)"
| "cmd_kv (DEL k) m = m(k := None)"
| "cmd_kv (SADD k v) m = m"
| "cmd_kv (SREM k v) m = m"

text \<open>The effect of a command on the sets: the members stored under each key.\<close>

fun cmd_smem :: "redis_cmd \<Rightarrow> (string \<Rightarrow> string set) \<Rightarrow> string \<Rightarrow> string set" where
  "cmd_smem (SET k v ttl) S = S(k := {})"
| "cmd_smem (DEL k) S = S(k := {})"
| "cmd_smem (SADD k v) S = S(k := insert v (S k))"
| "cmd_smem (SREM k v) S = S(k := S k - {v})"

text \<open>Text that JSON keeps: the three strings of a stored entry are valid UTF-8.\<close>

definition record_safe :: "redisTokenEntry \<Rightarrow> bool" where
  "record_safe r \<longleftrightarrow> text_safe (fromRedisEntry r)"

locale redis_tokens =
  fixes rc :: "'r redis_conn" and js :: redis_codec and sweep :: "go_time \<Rightarrow> 'r \<Rightarrow> 'r" and kv :: "'r \<Rightarrow> (string \<rightharpoonup> string)"
    and smem :: "'r \<Rightarrow> string \<Rightarrow> string set"
  assumes get_keeps: "kv (snd (rt_Get rc k w)) \<subseteq>\<^sub>m kv w"
    and get_sets: "smem (snd (rt_Get rc k w)) = smem w"
    and get_value: "fst (rt_Get rc k w) = Inr v \<Longrightarrow> kv w k = Some v"
    and exec_some: "\<exists>ds. subseq ds cs \<and> kv (snd (rt_Exec rc cs w)) \<subseteq>\<^sub>m fold cmd_kv ds (kv w) \<and>
      smem (snd (rt_Exec rc cs w)) = fold cmd_smem ds (smem w)"
    and exec_done: "fst (rt_Exec rc cs w) = Inr replies \<Longrightarrow> kv (snd (rt_Exec rc cs w)) \<subseteq>\<^sub>m fold cmd_kv cs (kv w) \<and>
      smem (snd (rt_Exec rc cs w)) = fold cmd_smem cs (smem w)"
    and smembers_keeps: "kv (snd (rt_SMembers rc k w)) \<subseteq>\<^sub>m kv w \<and> smem (snd (rt_SMembers rc k w)) = smem w"
    and smembers_value: "fst (rt_SMembers rc k w) = Inr ms \<Longrightarrow> distinct ms \<and> set ms = smem w k"
    and srem_keeps: "kv (snd (rt_SRem rc k m w)) \<subseteq>\<^sub>m kv w"
    and srem_sets: "smem (snd (rt_SRem rc k m w)) \<in> {smem w, cmd_smem (SREM k m) (smem w)}"
    and run_done: "fst (rt_Run rc f w) = Inr n \<Longrightarrow>
      \<exists>w0. kv w0 \<subseteq>\<^sub>m kv w \<and> smem w0 = smem w \<and> n = fst (f w0) \<and> kv (snd (rt_Run rc f w)) \<subseteq>\<^sub>m kv (snd (f w0)) \<and>
        smem (snd (rt_Run rc f w)) = smem (snd (f w0))"
    and run_failed: "fst (rt_Run rc f w) = Inl err \<Longrightarrow>
      \<exists>w0. kv w0 \<subseteq>\<^sub>m kv w \<and> smem w0 = smem w \<and>
        (kv (snd (rt_Run rc f w)) \<subseteq>\<^sub>m kv w0 \<and> smem (snd (rt_Run rc f w)) = smem w0 \<or>
         kv (snd (rt_Run rc f w)) \<subseteq>\<^sub>m kv (snd (f w0)) \<and> smem (snd (rt_Run rc f w)) = smem (snd (f w0)))"
    and pttl_absent: "rt_PTTL rc k w = - 2 \<longleftrightarrow> kv w k = None"
    and script_set: "kv (rt_SET rc k v px w) = (kv w)(k \<mapsto> v) \<and> smem (rt_SET rc k v px w) = (smem w)(k := {})"
    and sweep_keeps: "kv (sweep now w) \<subseteq>\<^sub>m kv w"
    and sweep_sets: "smem (sweep now w) = smem w"
    and codec: "record_safe r \<Longrightarrow> rj_Marshal js r = Inr data \<Longrightarrow> rj_Unmarshal js data = Inr r"
    and codec_safe: "rj_Unmarshal js data = Inr r \<Longrightarrow> record_safe r"
    and codec_uuid: "is_uuid s \<Longrightarrow> \<exists>err. rj_Unmarshal js s = Inl err"

subsection \<open>Invariant and view\<close>

text \<open>
  A key of the hash index holds an identifier; a key of an entry holds the entry of that
  identifier; an index key and the entry it leads to agree on the hash.
\<close>

definition redis_inv :: "redis_codec \<Rightarrow> (string \<rightharpoonup> string) \<Rightarrow> bool" where
  "redis_inv js m \<longleftrightarrow>
     (\<forall>h i. m (redis_hashKey h) = Some i \<longrightarrow> is_uuid i) \<and>
     (\<forall>i data. m (redis_key i) = Some data \<longrightarrow> \<not> prefix ''hash:'' i \<longrightarrow> (\<exists>r. rj_Unmarshal js data = Inr r \<and> r_ID r = i)) \<and>
     (\<forall>h i data r. m (redis_hashKey h) = Some i \<longrightarrow> m (redis_key i) = Some data \<longrightarrow> rj_Unmarshal js data = Inr r \<longrightarrow> r_TokenHash r = h)"

definition stored_at :: "redis_codec \<Rightarrow> (string \<rightharpoonup> string) \<Rightarrow> string \<Rightarrow> TokenEntry option" where
  "stored_at js m i =
     (case m (redis_key i) of None \<Rightarrow> None
      | Some data \<Rightarrow> (case rj_Unmarshal js data of Inl _ \<Rightarrow> None | Inr r \<Rightarrow> Some (fromRedisEntry r)))"

definition redis_view :: "redis_codec \<Rightarrow> (string \<rightharpoonup> string) \<Rightarrow> (string \<rightharpoonup> TokenEntry)" where
  "redis_view js m h = (case m (redis_hashKey h) of None \<Rightarrow> None | Some i \<Rightarrow> stored_at js m i)"

definition redis_fresh :: "(string \<rightharpoonup> string) \<Rightarrow> TokenEntry \<Rightarrow> bool" where
  "redis_fresh m e \<longleftrightarrow> is_uuid (te_ID e) \<and> text_safe e \<and> m (redis_hashKey (TokenHash e)) = None \<and> m (redis_key (te_ID e)) = None \<and>
     (\<forall>h. m (redis_hashKey h) \<noteq> Some (te_ID e))"

lemma from_toRedisEntry [simp]: "fromRedisEntry (toRedisEntry e) = e"
  by (simp add: fromRedisEntry_def toRedisEntry_def)

lemma to_fromRedisEntry [simp]: "toRedisEntry (fromRedisEntry r) = r"
  by (simp add: fromRedisEntry_def toRedisEntry_def)

lemma redis_key_inject [simp]: "redis_key i = redis_key j \<longleftrightarrow> i = j" "redis_hashKey h = redis_hashKey h' \<longleftrightarrow> h = h'"
  by (simp_all add: redis_key_def redis_hashKey_def)

lemma redis_hashKey_eq: "redis_hashKey h = redis_key (''hash:'' @ h)"
  by (simp add: redis_key_def redis_hashKey_def tokenHashPrefix_def tokenKeyPrefix_def)

lemma redis_key_hash: "redis_key i = redis_hashKey h \<longleftrightarrow> i = ''hash:'' @ h"
  unfolding redis_hashKey_eq by (simp only: redis_key_inject)

lemma uuid_plain: "is_uuid i \<Longrightarrow> \<not> prefix ''hash:'' i"
  by (auto simp: is_uuid_def elim!: prefixE)

lemma plain_key_hash: "\<not> prefix ''hash:'' i \<Longrightarrow> redis_key i \<noteq> redis_hashKey h"
  by (auto simp: redis_key_hash)

lemma uuid_key_hash: "is_uuid i \<Longrightarrow> redis_key i \<noteq> redis_hashKey h"
  using uuid_plain [of i] by (auto simp: redis_key_hash)

lemma redis_inv_mono:
  assumes "redis_inv js m" and "m' \<subseteq>\<^sub>m m"
  shows "redis_inv js m'"
proof -
  have "m' k = Some v \<Longrightarrow> m k = Some v" for k v using assms(2) by (metis domI map_le_def)
  with assms(1) show ?thesis unfolding redis_inv_def by meson
qed

lemma redis_view_mono:
  assumes "m' \<subseteq>\<^sub>m m"
  shows "redis_view js m' \<subseteq>\<^sub>m redis_view js m"
proof -
  have le: "m' k = Some v \<Longrightarrow> m k = Some v" for k v using assms by (metis domI map_le_def)
  have "redis_view js m h = Some e" if "redis_view js m' h = Some e" for h e
    using that by (auto simp: redis_view_def stored_at_def dest!: le split: option.splits sum.splits)
  then show ?thesis by (auto simp: map_le_def)
qed

lemma redis_view_Some:
  assumes "redis_inv js m" and "redis_view js m h = Some e"
  shows "m (redis_hashKey h) = Some (te_ID e) \<and> stored_at js m (te_ID e) = Some e \<and> TokenHash e = h \<and> is_uuid (te_ID e)"
proof -
  obtain i data r where i: "m (redis_hashKey h) = Some i" "m (redis_key i) = Some data" "rj_Unmarshal js data = Inr r" "e = fromRedisEntry r"
    using assms(2) by (auto simp: redis_view_def stored_at_def split: option.splits sum.splits)
  have "is_uuid i" using assms(1) i(1) unfolding redis_inv_def by blast
  moreover from this have "r_ID r = i" using assms(1) i(2,3) uuid_plain unfolding redis_inv_def by fastforce
  moreover have "r_TokenHash r = h" using assms(1) i(1-3) unfolding redis_inv_def by blast
  ultimately show ?thesis using i by (simp add: fromRedisEntry_def stored_at_def)
qed

text \<open>Writing an entry under its own key, and its index key.\<close>

lemma write_entry_inv:
  assumes "redis_inv js m" and "\<not> prefix ''hash:'' i" and "rj_Unmarshal js data = Inr r" and "r_ID r = i"
    and "\<And>h. m (redis_hashKey h) = Some i \<Longrightarrow> r_TokenHash r = h"
  shows "redis_inv js (m(redis_key i \<mapsto> data))"
proof -
  have "redis_key i \<noteq> redis_hashKey h" for h using plain_key_hash [OF assms(2)] .
  then have "redis_hashKey h \<noteq> redis_key i" for h by metis
  with assms show ?thesis unfolding redis_inv_def by auto
qed

lemma write_entry_view:
  assumes "\<not> prefix ''hash:'' i" and "rj_Unmarshal js data = Inr r"
  shows "redis_view js (m(redis_key i \<mapsto> data)) h =
    (if m (redis_hashKey h) = Some i then Some (fromRedisEntry r) else redis_view js m h)"
proof -
  have "redis_hashKey h \<noteq> redis_key i" using plain_key_hash [OF assms(1), of h] by metis
  with assms(2) show ?thesis by (simp add: redis_view_def stored_at_def split: option.split)
qed

lemma save_inv_view:
  assumes "redis_inv js m" and "redis_fresh m e" and "rj_Unmarshal js data = Inr (toRedisEntry e)"
  defines "m1 \<equiv> m(redis_key (te_ID e) \<mapsto> data)"
  defines "m2 \<equiv> m1(redis_hashKey (TokenHash e) \<mapsto> te_ID e)"
  shows "redis_inv js m1" and "redis_view js m1 = redis_view js m"
    and "redis_inv js m2" and "redis_view js m2 = (redis_view js m)(TokenHash e \<mapsto> e)"
proof -
  have u: "is_uuid (te_ID e)" and new: "\<And>h. m (redis_hashKey h) \<noteq> Some (te_ID e)" using assms(2) by (simp_all add: redis_fresh_def)
  have r: "r_ID (toRedisEntry e) = te_ID e" "r_TokenHash (toRedisEntry e) = TokenHash e" by (simp_all add: toRedisEntry_def)
  have sep: "redis_hashKey h \<noteq> redis_key (te_ID e)" for h using uuid_key_hash [OF u, of h] by metis
  show i1: "redis_inv js m1" unfolding m1_def using new by (intro write_entry_inv [OF assms(1) uuid_plain [OF u] assms(3) r(1)]) simp
  show v1: "redis_view js m1 = redis_view js m" by (rule ext) (simp add: m1_def write_entry_view [OF uuid_plain [OF u] assms(3)] new)
  have other: "redis_key i = redis_hashKey (TokenHash e) \<Longrightarrow> prefix ''hash:'' i" for i
    by (simp add: redis_key_hash)
  have uother: "redis_key i \<noteq> redis_hashKey (TokenHash e)" if "is_uuid i" for i using uuid_key_hash [OF that] .
  have idx: "m1 (redis_hashKey h) = m (redis_hashKey h)" for h by (simp add: m1_def sep)
  have uuid_of: "is_uuid i" if "m (redis_hashKey h) = Some i" for h i using that assms(1) unfolding redis_inv_def by blast
  show "redis_inv js m2"
    unfolding redis_inv_def
  proof (intro conjI allI impI)
    show "is_uuid i" if "m2 (redis_hashKey h) = Some i" for h i
      using that u uuid_of idx by (auto simp: m2_def split: if_split_asm)
    show "\<exists>r. rj_Unmarshal js d = Inr r \<and> r_ID r = i" if "m2 (redis_key i) = Some d" and "\<not> prefix ''hash:'' i" for i d
      using that other [of i] i1 unfolding redis_inv_def by (auto simp: m2_def split: if_split_asm)
    show "r_TokenHash ra = h" if "m2 (redis_hashKey h) = Some i" and "m2 (redis_key i) = Some d" and "rj_Unmarshal js d = Inr ra" for h i d ra
    proof (cases "h = TokenHash e")
      case True
      with that(1) have "i = te_ID e" by (simp add: m2_def)
      with that(2) uother [OF u] have "d = data" by (simp add: m2_def m1_def)
      with that(3) assms(3) r(2) True show ?thesis by simp
    next
      case False
      with that(1) have "m1 (redis_hashKey h) = Some i" by (simp add: m2_def)
      moreover from this have "m1 (redis_key i) = Some d" using that(2) uother [of i] uuid_of idx by (auto simp: m2_def)
      ultimately show ?thesis using i1 that(3) unfolding redis_inv_def by blast
    qed
  qed
  have key: "m2 (redis_key i) = m1 (redis_key i)" if "is_uuid i" for i using uother [OF that] by (simp add: m2_def)
  show "redis_view js m2 = (redis_view js m)(TokenHash e \<mapsto> e)"
  proof
    fix h
    show "redis_view js m2 h = ((redis_view js m)(TokenHash e \<mapsto> e)) h"
    proof (cases "h = TokenHash e")
      case True
      then show ?thesis using key [OF u] assms(3) by (simp add: redis_view_def m2_def stored_at_def m1_def)
    next
      case False
      then have "redis_view js m2 h = redis_view js m1 h"
        using key uuid_of idx by (auto simp: redis_view_def m2_def stored_at_def split: option.split)
      with False v1 show ?thesis by simp
    qed
  qed
qed

text \<open>The index key alone leads nowhere.\<close>

lemma save_index_view:
  assumes "redis_inv js m" and "redis_fresh m e"
  shows "redis_inv js (m(redis_hashKey (TokenHash e) \<mapsto> te_ID e))"
    and "redis_view js (m(redis_hashKey (TokenHash e) \<mapsto> te_ID e)) = redis_view js m"
proof -
  let ?m = "m(redis_hashKey (TokenHash e) \<mapsto> te_ID e)"
  have u: "is_uuid (te_ID e)" and none: "m (redis_key (te_ID e)) = None" "m (redis_hashKey (TokenHash e)) = None"
    using assms(2) by (simp_all add: redis_fresh_def)
  have key: "?m (redis_key i) = m (redis_key i)" if "\<not> prefix ''hash:'' i" for i
    using plain_key_hash [OF that, of "TokenHash e"] by simp
  have ids: "is_uuid i" if "?m (redis_hashKey h) = Some i" for h i
    using that assms(1) u unfolding redis_inv_def by (auto split: if_split_asm)
  have old: "m (redis_hashKey h) = Some i" if "?m (redis_hashKey h) = Some i" "?m (redis_key i) = Some d" for h i d
    using that none key [OF uuid_plain [OF ids [OF that(1)]]] by (auto split: if_split_asm)
  show "redis_inv js ?m"
    unfolding redis_inv_def
  proof (intro conjI allI impI)
    show "is_uuid i" if "?m (redis_hashKey h) = Some i" for h i using ids [OF that] .
    show "\<exists>r. rj_Unmarshal js d = Inr r \<and> r_ID r = i" if "?m (redis_key i) = Some d" "\<not> prefix ''hash:'' i" for i d
      using that(1) assms(1) that(2) unfolding key [OF that(2)] redis_inv_def by blast
    show "r_TokenHash r = h" if "?m (redis_hashKey h) = Some i" "?m (redis_key i) = Some d" "rj_Unmarshal js d = Inr r" for h i d r
      using old [OF that(1,2)] that(2,3) assms(1) unfolding key [OF uuid_plain [OF ids [OF that(1)]]] redis_inv_def by blast
  qed
  show "redis_view js ?m = redis_view js m"
  proof
    fix h
    have "stored_at js ?m i = stored_at js m i" if "is_uuid i" for i
      using key [OF uuid_plain [OF that]] by (simp only: stored_at_def)
    moreover have "stored_at js m (te_ID e) = None" using none(1) by (simp add: stored_at_def)
    ultimately show "redis_view js ?m h = redis_view js m h"
      using ids [of h] none u by (auto simp: redis_view_def split: option.split)
  qed
qed

lemma stored_at_mono: "m' \<subseteq>\<^sub>m m \<Longrightarrow> stored_at js m' i = Some e \<Longrightarrow> stored_at js m i = Some e"
  unfolding stored_at_def map_le_def by (fastforce simp: dom_def split: option.splits sum.splits)

subsection \<open>The store meets the contract\<close>

context redis_tokens
begin

lemma getByID_keeps: "kv (snd (redis_getByID rc js i w)) \<subseteq>\<^sub>m kv w"
  using get_keeps [of "redis_key i" w] by (auto simp: redis_getByID_def split: prod.splits sum.splits)

lemma stored_safe: "stored_at js m i = Some e \<Longrightarrow> text_safe e"
  using codec_safe by (auto simp: stored_at_def record_safe_def split: option.splits sum.splits)

lemma getByID_value: "fst (redis_getByID rc js i w) = Some e \<Longrightarrow> stored_at js (kv w) i = Some e"
  using get_value [of "redis_key i" w]
  by (auto simp: redis_getByID_def stored_at_def split: prod.splits sum.splits)

lemma stored_plain:
  assumes "redis_inv js (kv w)" and "stored_at js (kv w) i = Some e"
  shows "\<not> prefix ''hash:'' i \<and> te_ID e = i"
proof -
  obtain data r where d: "kv w (redis_key i) = Some data" "rj_Unmarshal js data = Inr r" "e = fromRedisEntry r"
    using assms(2) by (auto simp: stored_at_def split: option.splits sum.splits)
  have plain: "\<not> prefix ''hash:'' i"
  proof
    assume "prefix ''hash:'' i"
    then obtain h where "i = ''hash:'' @ h" by (rule prefixE)
    then have "kv w (redis_hashKey h) = Some data" using d(1) by (simp only: redis_hashKey_eq)
    then have "is_uuid data" using assms(1) unfolding redis_inv_def by blast
    with codec_uuid d(2) show False by fastforce
  qed
  with assms(1) d(1,2) have "r_ID r = i" unfolding redis_inv_def by fastforce
  with plain d(3) show ?thesis by (simp add: fromRedisEntry_def)
qed

lemma list_loop_keeps: "kv (snd (redis_list_loop rc js ids es w)) \<subseteq>\<^sub>m kv w"
proof (induction ids arbitrary: es w)
  case (Cons i ids)
  obtain r w' where g: "redis_getByID rc js i w = (r, w')" by fastforce
  then have le: "kv w' \<subseteq>\<^sub>m kv w" using getByID_keeps [of i w] by simp
  show ?case
  proof (cases r)
    case None
    have "kv (snd (redis_list_loop rc js ids es (snd (rt_SRem rc tokenIndexKey i w')))) \<subseteq>\<^sub>m kv w"
      by (rule map_le_trans [OF Cons.IH map_le_trans [OF srem_keeps le]])
    with g None show ?thesis by simp
  next
    case (Some e)
    with g map_le_trans [OF Cons.IH le] show ?thesis by simp
  qed
qed simp

lemma Save_cases:
  obtains err where "redis_Save rc js e w = (Some err, w)"
  | data ttl where "rj_Marshal js (toRedisEntry e) = Inr data" and "redis_Save rc js e w =
      (case rt_Exec rc (save_cmds e data ttl) w of (Inl err, w') \<Rightarrow> (Some (SavingEntryFailed err), w') | (Inr _, w') \<Rightarrow> (None, w'))"
proof (cases "rj_Marshal js (toRedisEntry e)")
  case (Inl err)
  then show ?thesis using that(1) by (simp add: redis_Save_def)
next
  case (Inr data)
  define ttl where "ttl = (if \<not> IsZero (ExpiresAt e) then ExpiresAt e - rt_Now rc w else 0)"
  show ?thesis
  proof (cases "\<not> IsZero (ExpiresAt e) \<and> ttl \<le> 0")
    case True
    then show ?thesis using that(1) Inr by (auto simp: redis_Save_def ttl_def)
  next
    case False
    with Inr show ?thesis by (intro that(2) [of data ttl]) (auto simp: redis_Save_def Let_def ttl_def)
  qed
qed

lemma save_effect:
  assumes "text_safe e"
  obtains "kv (snd (redis_Save rc js e w)) \<subseteq>\<^sub>m kv w"
  | data where "rj_Unmarshal js data = Inr (toRedisEntry e)"
      and "kv (snd (redis_Save rc js e w)) \<subseteq>\<^sub>m (kv w)(redis_key (te_ID e) \<mapsto> data)"
  | "kv (snd (redis_Save rc js e w)) \<subseteq>\<^sub>m (kv w)(redis_hashKey (TokenHash e) \<mapsto> te_ID e)"
  | data where "rj_Unmarshal js data = Inr (toRedisEntry e)"
      and "kv (snd (redis_Save rc js e w)) \<subseteq>\<^sub>m (kv w)(redis_key (te_ID e) \<mapsto> data, redis_hashKey (TokenHash e) \<mapsto> te_ID e)"
proof (cases rule: Save_cases [of e w])
  case (1 err)
  then show ?thesis using that(1) by simp
next
  case (2 data ttl)
  have u: "rj_Unmarshal js data = Inr (toRedisEntry e)" using codec [OF _ 2(1)] assms by (simp add: record_safe_def)
  have s: "snd (redis_Save rc js e w) = snd (rt_Exec rc (save_cmds e data ttl) w)"
    using 2(2) by (simp split: prod.splits sum.splits)
  obtain ds where ds: "subseq ds (save_cmds e data ttl)" and le: "kv (snd (redis_Save rc js e w)) \<subseteq>\<^sub>m fold cmd_kv ds (kv w)"
    unfolding s using exec_some by blast
  let ?key = "redis_key (te_ID e)" and ?hash = "redis_hashKey (TokenHash e)"
  have "ds \<in> set (subseqs (save_cmds e data ttl))" using ds by (simp only: in_set_subseqs)
  then have "fold cmd_kv ds (kv w) \<in> {kv w, (kv w)(?key \<mapsto> data), (kv w)(?hash \<mapsto> te_ID e), (kv w)(?key \<mapsto> data, ?hash \<mapsto> te_ID e)}"
    by (auto simp: save_cmds_def Let_def simp del: in_set_subseqs split: if_split_asm)
  with le that(1) that(2) [OF u] that(3) that(4) [OF u] show ?thesis by auto
qed

lemma revoke_write:
  assumes "redis_inv js m" and "m0 \<subseteq>\<^sub>m m" and "stored_at js m i = Some e" and "\<not> prefix ''hash:'' i" and "te_ID e = i"
    and "rj_Unmarshal js data = Inr (toRedisEntry (e\<lparr>RevokedAt := now\<rparr>))"
  shows "redis_inv js (m0(redis_key i \<mapsto> data))"
    and "redis_view js (m0(redis_key i \<mapsto> data)) h = Some e' \<Longrightarrow>
      redis_view js m h = Some e' \<and> te_ID e' \<noteq> i \<or> redis_view js m h = Some e \<and> e' = e\<lparr>RevokedAt := now\<rparr>"
proof -
  have le: "m0 k = Some v \<Longrightarrow> m k = Some v" for k v using assms(2) by (metis domI map_le_def)
  have at: "redis_view js m h = Some e" if "m (redis_hashKey h) = Some i" for h
    using that assms(3) by (simp add: redis_view_def)
  have hash: "TokenHash e = h" if "m (redis_hashKey h) = Some i" for h
    using redis_view_Some [OF assms(1) at [OF that]] by simp
  show inv: "redis_inv js (m0(redis_key i \<mapsto> data))"
    using hash le by (intro write_entry_inv [OF redis_inv_mono [OF assms(1,2)] assms(4,6)])
      (auto simp: toRedisEntry_def assms(5))
  assume v: "redis_view js (m0(redis_key i \<mapsto> data)) h = Some e'"
  show "redis_view js m h = Some e' \<and> te_ID e' \<noteq> i \<or> redis_view js m h = Some e \<and> e' = e\<lparr>RevokedAt := now\<rparr>"
  proof (cases "m0 (redis_hashKey h) = Some i")
    case True
    then show ?thesis using v at [OF le [OF True]] write_entry_view [OF assms(4,6), of m0 h] by simp
  next
    case False
    then have v0: "redis_view js m0 h = Some e'" using v write_entry_view [OF assms(4,6), of m0 h] by simp
    then have "m0 (redis_hashKey h) = Some (te_ID e')" using redis_view_Some [OF redis_inv_mono [OF assms(1,2)]] by blast
    moreover have "redis_view js m h = Some e'" using v0 redis_view_mono [OF assms(2)] by (metis domI map_le_def)
    ultimately show ?thesis using False by auto
  qed
qed

end

context redis_tokens
begin

lemma revoke_effect:
  assumes "redis_inv js (kv w)"
  obtains "kv (snd (redis_Revoke rc js now i w)) \<subseteq>\<^sub>m kv w" and "\<not> fst (redis_Revoke rc js now i w)"
  | m0 e data where "m0 \<subseteq>\<^sub>m kv w" and "stored_at js (kv w) i = Some e" and "\<not> prefix ''hash:'' i" and "te_ID e = i"
      and "rj_Unmarshal js data = Inr (toRedisEntry (e\<lparr>RevokedAt := now\<rparr>))"
      and "kv (snd (redis_Revoke rc js now i w)) \<subseteq>\<^sub>m m0(redis_key i \<mapsto> data)"
proof -
  obtain r w1 where g: "redis_getByID rc js i w = (r, w1)" by fastforce
  then have w1: "kv w1 \<subseteq>\<^sub>m kv w" using getByID_keeps [of i w] by simp
  consider "r = None" | e err where "r = Some e" "rj_Marshal js (toRedisEntry (e\<lparr>RevokedAt := now\<rparr>)) = Inl err"
    | e data where "r = Some e" "rj_Marshal js (toRedisEntry (e\<lparr>RevokedAt := now\<rparr>)) = Inr data"
    by (cases r; cases "rj_Marshal js (toRedisEntry (the r\<lparr>RevokedAt := now\<rparr>))") auto
  then show ?thesis
  proof cases
    case (3 e data)
    have st: "stored_at js (kv w) i = Some e" using getByID_value [of i w e] g 3(1) by simp
    note plain = stored_plain [OF assms st]
    let ?f = "revokeScript rc (redis_key i) data"
    obtain res w2 where run: "rt_Run rc ?f w1 = (res, w2)" by fastforce
    have rev: "snd (redis_Revoke rc js now i w) = w2" "fst (redis_Revoke rc js now i w) = (case res of Inl _ \<Rightarrow> False | Inr n \<Rightarrow> n \<noteq> 0)"
      using g 3 run by (simp_all add: redis_Revoke_def split: sum.splits)
    have script: "fst (?f w0) = 0 \<and> kv (snd (?f w0)) = kv w0 \<or> kv (snd (?f w0)) = (kv w0)(redis_key i \<mapsto> data)" for w0
      by (simp add: revokeScript_def Let_def script_set)
    obtain w0 where w0: "kv w0 \<subseteq>\<^sub>m kv w1"
      "kv w2 \<subseteq>\<^sub>m kv w0 \<and> (\<forall>n. res \<noteq> Inr n) \<or> kv w2 \<subseteq>\<^sub>m kv (snd (?f w0)) \<and> (\<forall>n. res = Inr n \<longrightarrow> n = fst (?f w0))"
    proof (cases res)
      case (Inl err)
      with run_failed [of ?f w1 err] run that show ?thesis by auto
    next
      case (Inr n)
      with run_done [of ?f w1 n] run that show ?thesis by auto
    qed
    note w0w = map_le_trans [OF w0(1) w1]
    show ?thesis
    proof (cases "kv w2 \<subseteq>\<^sub>m kv w0 \<and> \<not> fst (redis_Revoke rc js now i w)")
      case True
      then show ?thesis using that(1) rev(1) map_le_trans [OF _ w0w] by simp
    next
      case False
      then have "kv w2 \<subseteq>\<^sub>m (kv w0)(redis_key i \<mapsto> data)"
        using w0(2) script [of w0] rev(2) by (auto split: sum.splits)
      then show ?thesis using that(2) [OF w0w st] plain codec [OF _ 3(2)] stored_safe [OF st] rev(1) by (simp add: record_safe_def)
    qed
  qed (use that(1) w1 g in \<open>simp_all add: redis_Revoke_def\<close>)
qed

lemma delete_effect:
  "kv (snd (redis_Delete rc js i w)) \<subseteq>\<^sub>m kv w \<and> (fst (redis_Delete rc js i w) \<longrightarrow> kv (snd (redis_Delete rc js i w)) (redis_key i) = None)"
proof -
  obtain r w1 where g: "redis_getByID rc js i w = (r, w1)" by fastforce
  then have w1: "kv w1 \<subseteq>\<^sub>m kv w" using getByID_keeps [of i w] by simp
  show ?thesis
  proof (cases r)
    case None
    with g w1 show ?thesis by (simp add: redis_Delete_def)
  next
    case (Some e)
    let ?cs = "[DEL (redis_key i), DEL (redis_hashKey (TokenHash e)), SREM tokenIndexKey i]"
    obtain res w2 where x: "rt_Exec rc ?cs w1 = (res, w2)" by fastforce
    have d: "redis_Delete rc js i w = (case res of Inl _ \<Rightarrow> (False, w2)
        | Inr replies \<Rightarrow> (case replies of [] \<Rightarrow> False | deleted # _ \<Rightarrow> 0 < deleted, w2))"
      using g Some x by (simp add: redis_Delete_def split: sum.splits)
    then have s: "snd (redis_Delete rc js i w) = w2" by (simp split: sum.splits)
    obtain ds where "subseq ds ?cs" and n: "kv w2 \<subseteq>\<^sub>m fold cmd_kv ds (kv w1)" using exec_some [of ?cs w1] x by auto
    then have "ds \<in> set (subseqs ?cs)" by (simp only: in_set_subseqs)
    then have "fold cmd_kv ds m \<subseteq>\<^sub>m m" for m
      by (auto simp: Let_def map_le_def simp del: in_set_subseqs split: if_split_asm)
    then have "kv w2 \<subseteq>\<^sub>m kv w" using n w1 by (blast intro: map_le_trans)
    moreover have "kv w2 (redis_key i) = None" if deleted: "fst (redis_Delete rc js i w)"
    proof -
      obtain replies where "res = Inr replies" using deleted d by (auto split: sum.splits)
      then have "kv w2 \<subseteq>\<^sub>m fold cmd_kv ?cs (kv w1)" using exec_done [of ?cs w1 replies] x by simp
      moreover have "fold cmd_kv ?cs (kv w1) (redis_key i) = None" by simp
      ultimately show ?thesis by (metis domIff map_le_def)
    qed
    ultimately show ?thesis unfolding s by blast
  qed
qed

lemma GetByHash_keeps: "kv (snd (redis_GetByHash rc js h w)) \<subseteq>\<^sub>m kv w"
proof -
  obtain r w1 where g: "rt_Get rc (redis_hashKey h) w = (r, w1)" by fastforce
  then have w1: "kv w1 \<subseteq>\<^sub>m kv w" using get_keeps [of "redis_hashKey h" w] by simp
  show ?thesis
  proof (cases r)
    case (Inr i)
    obtain e w2 where b: "redis_getByID rc js i w1 = (e, w2)" by fastforce
    then have "kv w2 \<subseteq>\<^sub>m kv w" using map_le_trans [OF getByID_keeps w1, of i] by simp
    then show ?thesis using g Inr b srem_keeps [of tokenIndexKey i w2]
      by (cases e) (auto simp: redis_GetByHash_def intro: map_le_trans)
  qed (use g w1 in \<open>simp add: redis_GetByHash_def\<close>)
qed

lemma GetByHash_value:
  assumes "fst (redis_GetByHash rc js h w) = Some e"
  shows "redis_view js (kv w) h = Some e"
proof -
  obtain i w1 where g: "rt_Get rc (redis_hashKey h) w = (Inr i, w1)" and b: "fst (redis_getByID rc js i w1) = Some e"
    using assms by (auto simp: redis_GetByHash_def split: prod.splits sum.splits option.splits)
  have "stored_at js (kv w) i = Some e"
    using getByID_value [OF b] stored_at_mono get_keeps [of "redis_hashKey h" w] g by fastforce
  then show ?thesis using get_value [of "redis_hashKey h" w i] g by (simp add: redis_view_def)
qed

lemma List_keeps: "kv (snd (redis_List rc js w)) \<subseteq>\<^sub>m kv w"
proof -
  obtain r w1 where g: "rt_SMembers rc tokenIndexKey w = (r, w1)" by fastforce
  then have w1: "kv w1 \<subseteq>\<^sub>m kv w" using smembers_keeps [of tokenIndexKey w] by simp
  then show ?thesis using g map_le_trans [OF list_loop_keeps w1]
    by (auto simp: redis_List_def split: sum.splits prod.splits) (metis snd_conv)
qed

end

context redis_tokens
begin

lemma meets_token_store:
  "token_store (NewRedisTokenStore rc js) sweep (\<lambda>t. t) (\<lambda>w. redis_fresh (kv w)) (\<lambda>w. redis_inv js (kv w)) (\<lambda>w. redis_view js (kv w))"
proof
  let ?ts = "NewRedisTokenStore rc js"
  have ops: "ts_Save ?ts = redis_Save rc js" "ts_GetByHash ?ts = redis_GetByHash rc js" "ts_List ?ts = redis_List rc js"
    "ts_Revoke ?ts = redis_Revoke rc js" "ts_Delete ?ts = redis_Delete rc js" by (simp_all add: NewRedisTokenStore_def)
  show "TokenHash e = h" if "redis_inv js (kv t)" "redis_view js (kv t) h = Some e" for t h e
    using redis_view_Some [OF that] by simp
  have save: "redis_inv js (kv (snd (redis_Save rc js e t))) \<and>
      redis_view js (kv (snd (redis_Save rc js e t))) \<subseteq>\<^sub>m (redis_view js (kv t))(TokenHash e \<mapsto> e)"
    if "redis_inv js (kv t)" "redis_fresh (kv t) e" for t e
  proof -
    have safe: "text_safe e" using that(2) by (simp add: redis_fresh_def)
    have none: "redis_view js (kv t) (TokenHash e) = None" using that(2) by (simp add: redis_fresh_def redis_view_def)
    then have up: "redis_view js (kv t) \<subseteq>\<^sub>m (redis_view js (kv t))(TokenHash e \<mapsto> e)" by (auto simp: map_le_def)
    show ?thesis
    proof (cases rule: save_effect [OF safe, of t])
      case 1
      then show ?thesis using redis_inv_mono [OF that(1) 1] redis_view_mono [OF 1, of js] up by (blast intro: map_le_trans)
    next
      case (2 data)
      note s = save_inv_view(1,2) [OF that 2(1)]
      show ?thesis using redis_inv_mono [OF s(1) 2(2)] redis_view_mono [OF 2(2), of js] up unfolding s(2) by (blast intro: map_le_trans)
    next
      case 3
      note s = save_index_view [OF that]
      show ?thesis using redis_inv_mono [OF s(1) 3] redis_view_mono [OF 3, of js] up unfolding s(2) by (blast intro: map_le_trans)
    next
      case (4 data)
      note s = save_inv_view(3,4) [OF that 4(1)]
      show ?thesis using redis_inv_mono [OF s(1) 4(2)] redis_view_mono [OF 4(2), of js] unfolding s(2) by blast
    qed
  qed
  show "redis_inv js (kv (snd (ts_Save ?ts e t)))" if "redis_inv js (kv t)" "redis_fresh (kv t) e" for t e
    using save [OF that] by (simp add: ops)
  show "redis_view js (kv (snd (ts_Save ?ts e t))) \<subseteq>\<^sub>m (redis_view js (kv t))(TokenHash e \<mapsto> stamp_entry (\<lambda>t. t) e)"
    if "redis_inv js (kv t)" "redis_fresh (kv t) e" for t e
    using save [OF that] by (simp add: ops)
  show "redis_inv js (kv (snd (ts_GetByHash ?ts h t))) \<and> redis_view js (kv (snd (ts_GetByHash ?ts h t))) \<subseteq>\<^sub>m redis_view js (kv t)"
    if "redis_inv js (kv t)" for t h
    using redis_inv_mono [OF that GetByHash_keeps] redis_view_mono [OF GetByHash_keeps] by (simp add: ops)
  show "redis_view js (kv t) h = Some e" if "fst (ts_GetByHash ?ts h t) = Some e" for t h e
    using GetByHash_value that by (simp add: ops)
  show "redis_inv js (kv (snd (ts_List ?ts t))) \<and> redis_view js (kv (snd (ts_List ?ts t))) \<subseteq>\<^sub>m redis_view js (kv t)"
    if "redis_inv js (kv t)" for t
    using redis_inv_mono [OF that List_keeps] redis_view_mono [OF List_keeps] by (simp add: ops)
  show "redis_inv js (kv (snd (ts_Revoke ?ts now i t)))" if "redis_inv js (kv t)" for t now i
  proof (cases rule: revoke_effect [OF that, of now i])
    case 1
    then show ?thesis using redis_inv_mono [OF that] by (simp add: ops)
  next
    case (2 m0 e data)
    then show ?thesis using redis_inv_mono [OF revoke_write(1) [OF that 2(1-5)] 2(6)] by (simp add: ops)
  qed
  show "\<exists>e. redis_view js (kv t) h = Some e \<and> (e' = e \<or> te_ID e = i \<and> e' = e\<lparr>RevokedAt := now\<rparr>)"
    if "redis_inv js (kv t)" "redis_view js (kv (snd (ts_Revoke ?ts now i t))) h = Some e'" for t now i h e'
  proof (cases rule: revoke_effect [OF that(1), of now i])
    case 1
    then show ?thesis using that(2) redis_view_mono [OF 1(1)] unfolding ops map_le_def by (metis domI)
  next
    case (2 m0 e data)
    then have "redis_view js (m0(redis_key i \<mapsto> data)) h = Some e'"
      using that(2) redis_view_mono [OF 2(6)] unfolding ops map_le_def by (metis domI)
    with revoke_write(2) [OF that(1) 2(1-5)] 2(4) show ?thesis by blast
  qed
  show "RevokedAt e' = now"
    if "redis_inv js (kv t)" "fst (ts_Revoke ?ts now i t)" "redis_view js (kv (snd (ts_Revoke ?ts now i t))) h = Some e'" "te_ID e' = i"
    for t now i h e'
  proof (cases rule: revoke_effect [OF that(1), of now i])
    case 1
    with that(2) show ?thesis by (simp add: ops)
  next
    case (2 m0 e data)
    then have "redis_view js (m0(redis_key i \<mapsto> data)) h = Some e'"
      using that(3) redis_view_mono [OF 2(6)] unfolding ops map_le_def by (metis domI)
    from revoke_write(2) [OF that(1) 2(1-5) this] that(4) show ?thesis by auto
  qed
  show "redis_inv js (kv (snd (ts_Delete ?ts i t))) \<and> redis_view js (kv (snd (ts_Delete ?ts i t))) \<subseteq>\<^sub>m redis_view js (kv t)"
    if "redis_inv js (kv t)" for t i
    using delete_effect [of i t] redis_inv_mono [OF that] redis_view_mono by (simp add: ops)
  show "te_ID e' \<noteq> i"
    if "redis_inv js (kv t)" "fst (ts_Delete ?ts i t)" "redis_view js (kv (snd (ts_Delete ?ts i t))) h = Some e'" for t i h e'
  proof -
    have d: "kv (snd (redis_Delete rc js i t)) \<subseteq>\<^sub>m kv t" "kv (snd (redis_Delete rc js i t)) (redis_key i) = None"
      using delete_effect [of i t] that(2) by (simp_all add: ops)
    have "stored_at js (kv (snd (redis_Delete rc js i t))) (te_ID e') = Some e'"
      using redis_view_Some [OF redis_inv_mono [OF that(1) d(1)]] that(3) by (simp add: ops)
    with d(2) show ?thesis by (auto simp: stored_at_def)
  qed
  show "redis_inv js (kv (sweep now t)) \<and> redis_view js (kv (sweep now t)) \<subseteq>\<^sub>m redis_view js (kv t)" if "redis_inv js (kv t)" for t now
    using redis_inv_mono [OF that sweep_keeps] redis_view_mono [OF sweep_keeps] by blast
qed simp_all

end

sublocale redis_tokens \<subseteq> store: token_store "NewRedisTokenStore rc js" sweep "\<lambda>t. t" "\<lambda>w. redis_fresh (kv w)" "\<lambda>w. redis_inv js (kv w)" "\<lambda>w. redis_view js (kv w)"
  by (rule meets_token_store)

subsection \<open>The index of identifiers\<close>

text \<open>
  What a store with an index of identifiers promises of it: a successful save puts the identifier
  into the index and a failed one at most that; a deletion takes out no other identifier, and the
  one deleted when it reports true; a revocation leaves it alone; lookups and listings only take
  identifiers out, and the identifiers of the entries they return stay in.
\<close>

definition keeps_index :: "'r token_iface \<Rightarrow> ('r \<Rightarrow> bool) \<Rightarrow> ('r \<Rightarrow> string set) \<Rightarrow> bool" where
  "keeps_index ts okay idx \<longleftrightarrow>
     (\<forall>w e. is_uuid (te_ID e) \<longrightarrow>
        (case ts_Save ts e w of (None, w') \<Rightarrow> idx w' = insert (te_ID e) (idx w)
         | (Some _, w') \<Rightarrow> idx w \<subseteq> idx w' \<and> idx w' \<subseteq> insert (te_ID e) (idx w))) \<and>
     (\<forall>w i. is_uuid i \<longrightarrow>
        (case ts_Delete ts i w of (reported, w') \<Rightarrow>
           idx w - {i} \<subseteq> idx w' \<and> idx w' \<subseteq> idx w \<and> (reported \<longrightarrow> i \<notin> idx w'))) \<and>
     (\<forall>w i now. is_uuid i \<longrightarrow> idx (snd (ts_Revoke ts now i w)) = idx w) \<and>
     (\<forall>w h. okay w \<longrightarrow>
        (case ts_GetByHash ts h w of (found, w') \<Rightarrow> idx w' \<subseteq> idx w \<and> (found \<noteq> None \<longrightarrow> idx w' = idx w))) \<and>
     (\<forall>w. okay w \<longrightarrow>
        (case ts_List ts w of (es, w') \<Rightarrow> te_ID ` set es \<subseteq> idx w' \<and> idx w' \<subseteq> idx w))"

lemma uuid_index: "is_uuid i \<Longrightarrow> redis_key i \<noteq> tokenIndexKey" "redis_hashKey h \<noteq> tokenIndexKey"
  by (auto simp: is_uuid_def redis_key_def redis_hashKey_def tokenKeyPrefix_def tokenHashPrefix_def tokenIndexKey_def)

context redis_tokens
begin

abbreviation index :: "'r \<Rightarrow> string set" where
  "index w \<equiv> smem w tokenIndexKey"

lemma getByID_sets: "smem (snd (redis_getByID rc js i w)) = smem w"
  using get_sets [of "redis_key i" w] by (auto simp: redis_getByID_def split: prod.splits sum.splits)

lemma srem_index: "index (snd (rt_SRem rc tokenIndexKey i w)) \<in> {index w, index w - {i}}"
  using srem_sets [of tokenIndexKey i w] by auto

lemma Save_index:
  assumes "is_uuid (te_ID e)"
  shows "case redis_Save rc js e w of (None, w') \<Rightarrow> index w' = insert (te_ID e) (index w)
    | (Some _, w') \<Rightarrow> index w \<subseteq> index w' \<and> index w' \<subseteq> insert (te_ID e) (index w)"
proof (cases rule: Save_cases [of e w])
  case (2 data ttl)
  let ?cs = "save_cmds e data ttl"
  have keys: "redis_key (te_ID e) \<noteq> tokenIndexKey" "redis_hashKey (TokenHash e) \<noteq> tokenIndexKey"
    using uuid_index assms by blast+
  obtain r w' where x: "rt_Exec rc ?cs w = (r, w')" by fastforce
  obtain ds where "subseq ds ?cs" and w': "smem w' = fold cmd_smem ds (smem w)" using exec_some [of ?cs w] x by auto
  then have "ds \<in> set (subseqs ?cs)" by (simp only: in_set_subseqs)
  then have some: "index w' \<in> {index w, insert (te_ID e) (index w)}"
    unfolding w' using keys by (auto simp: save_cmds_def Let_def simp del: in_set_subseqs split: if_split_asm)
  show ?thesis
  proof (cases r)
    case (Inl err)
    with 2(2) x some show ?thesis by auto
  next
    case (Inr replies)
    then have "smem w' = fold cmd_smem ?cs (smem w)" using exec_done [of ?cs w replies] x by simp
    then have "index w' = insert (te_ID e) (index w)" using keys by (simp add: save_cmds_def)
    with Inr 2(2) x show ?thesis by simp
  qed
qed auto

lemma Delete_index:
  assumes "is_uuid i"
  shows "case redis_Delete rc js i w of (reported, w') \<Rightarrow>
    index w - {i} \<subseteq> index w' \<and> index w' \<subseteq> index w \<and> (reported \<longrightarrow> i \<notin> index w')"
proof -
  obtain r w1 where g: "redis_getByID rc js i w = (r, w1)" by fastforce
  then have w1: "smem w1 = smem w" using getByID_sets [of i w] by simp
  show ?thesis
  proof (cases r)
    case None
    with g w1 show ?thesis by (simp add: redis_Delete_def)
  next
    case (Some e)
    let ?cs = "[DEL (redis_key i), DEL (redis_hashKey (TokenHash e)), SREM tokenIndexKey i]"
    obtain res w2 where x: "rt_Exec rc ?cs w1 = (res, w2)" by fastforce
    have keys: "redis_key i \<noteq> tokenIndexKey" "redis_hashKey (TokenHash e) \<noteq> tokenIndexKey"
      using uuid_index assms by blast+
    obtain ds where "subseq ds ?cs" and w2: "smem w2 = fold cmd_smem ds (smem w)" using exec_some [of ?cs w1] x w1 by auto
    then have "ds \<in> set (subseqs ?cs)" by (simp only: in_set_subseqs)
    then have some: "index w2 \<in> {index w, index w - {i}}"
      unfolding w2 using keys by (auto simp: Let_def simp del: in_set_subseqs)
    show ?thesis
    proof (cases res)
      case (Inl err)
      with g Some x some show ?thesis by (auto simp: redis_Delete_def)
    next
      case (Inr replies)
      then have "smem w2 = fold cmd_smem ?cs (smem w)" using exec_done [of ?cs w1 replies] x w1 by simp
      then have "index w2 = index w - {i}" using keys by simp
      with g Some x Inr show ?thesis by (auto simp: redis_Delete_def)
    qed
  qed
qed

lemma Revoke_index:
  assumes "is_uuid i"
  shows "index (snd (redis_Revoke rc js now i w)) = index w"
proof -
  obtain r w1 where g: "redis_getByID rc js i w = (r, w1)" by fastforce
  then have w1: "smem w1 = smem w" using getByID_sets [of i w] by simp
  have script: "index (snd (revokeScript rc (redis_key i) data w0)) = index w0" for data w0
    using uuid_index(1) [OF assms] by (simp add: revokeScript_def Let_def script_set)
  have run: "index (snd (rt_Run rc (revokeScript rc (redis_key i) data) w1)) = index w" for data
  proof (cases "fst (rt_Run rc (revokeScript rc (redis_key i) data) w1)")
    case (Inl err)
    from run_failed [OF this] script w1 show ?thesis by auto
  next
    case (Inr n)
    from run_done [OF this] script w1 show ?thesis by auto
  qed
  show ?thesis
  proof (cases "r = None")
    case False
    then obtain e where r: "r = Some e" by blast
    show ?thesis
    proof (cases "rj_Marshal js (toRedisEntry (e\<lparr>RevokedAt := now\<rparr>))")
      case (Inr data)
      then have "snd (redis_Revoke rc js now i w) = snd (rt_Run rc (revokeScript rc (redis_key i) data) w1)"
        using g r by (simp add: redis_Revoke_def split: prod.splits sum.splits)
      with run show ?thesis by simp
    qed (use g r w1 in \<open>simp add: redis_Revoke_def\<close>)
  qed (use g w1 in \<open>simp add: redis_Revoke_def\<close>)
qed

lemma GetByHash_index:
  "case redis_GetByHash rc js h w of (found, w') \<Rightarrow> index w' \<subseteq> index w \<and> (found \<noteq> None \<longrightarrow> index w' = index w)"
proof -
  obtain r w1 where g: "rt_Get rc (redis_hashKey h) w = (r, w1)" by fastforce
  then have w1: "smem w1 = smem w" using get_sets [of "redis_hashKey h" w] by simp
  show ?thesis
  proof (cases r)
    case (Inr i)
    obtain f w2 where b: "redis_getByID rc js i w1 = (f, w2)" by fastforce
    then have "smem w2 = smem w" using getByID_sets [of i w1] w1 by simp
    then show ?thesis using g Inr b srem_index [of i w2] by (cases f) (auto simp: redis_GetByHash_def)
  qed (use g w1 in \<open>simp add: redis_GetByHash_def\<close>)
qed

lemma shrink_index:
  assumes "S2 \<in> {S, S - {i}}" and "i \<notin> I" and "N \<subseteq> I" and "S' \<subseteq> S2" and "S2 - I \<subseteq> S'" and "S2 \<inter> N \<subseteq> S'"
    and "set (i # ids) = insert i I"
  shows "N \<subseteq> set (i # ids) \<and> S' \<subseteq> S \<and> S - set (i # ids) \<subseteq> S' \<and> S \<inter> N \<subseteq> S'"
proof -
  have "S' \<subseteq> S" using assms(1,4) by blast
  moreover have "S - insert i I \<subseteq> S'" using assms(1,5) by blast
  moreover have "S \<inter> N \<subseteq> S2 \<inter> N" using assms(1-3) by blast
  ultimately show ?thesis using assms(3,6) unfolding assms(7) by blast
qed

lemma list_loop_index:
  assumes "redis_inv js (kv w)" and "distinct ids"
  shows "case redis_list_loop rc js ids es w of (es', w') \<Rightarrow>
    (\<exists>new. es' = es @ new \<and> te_ID ` set new \<subseteq> set ids \<and> index w' \<subseteq> index w \<and>
       index w - set ids \<subseteq> index w' \<and> index w \<inter> te_ID ` set new \<subseteq> index w')"
  using assms
proof (induction ids arbitrary: es w)
  case (Cons i ids)
  obtain r w1 where g: "redis_getByID rc js i w = (r, w1)" by fastforce
  have w1: "smem w1 = smem w" "kv w1 \<subseteq>\<^sub>m kv w" using getByID_sets [of i w] getByID_keeps [of i w] g by simp_all
  show ?case
  proof (cases r)
    case None
    define w2 where "w2 = snd (rt_SRem rc tokenIndexKey i w1)"
    have "kv w2 \<subseteq>\<^sub>m kv w" unfolding w2_def by (rule map_le_trans [OF srem_keeps w1(2)])
    then have inv: "redis_inv js (kv w2)" by (rule redis_inv_mono [OF Cons.prems(1)])
    obtain es' w' where l: "redis_list_loop rc js ids es w2 = (es', w')" by fastforce
    from Cons.IH [OF inv, of es] Cons.prems(2) l obtain new where new: "es' = es @ new" "te_ID ` set new \<subseteq> set ids"
      "index w' \<subseteq> index w2" "index w2 - set ids \<subseteq> index w'" "index w2 \<inter> te_ID ` set new \<subseteq> index w'" by auto
    have "index w2 \<in> {index w, index w - {i}}" using srem_index [of i w1] w1(1) by (simp add: w2_def)
    moreover have "i \<notin> set ids" using Cons.prems(2) by simp
    ultimately have "te_ID ` set new \<subseteq> set (i # ids) \<and> index w' \<subseteq> index w \<and> index w - set (i # ids) \<subseteq> index w' \<and>
        index w \<inter> te_ID ` set new \<subseteq> index w'" by (rule shrink_index [OF _ _ new(2-5)]) simp
    then show ?thesis using g None l new(1) by (auto simp: w2_def)
  next
    case (Some e)
    have "stored_at js (kv w) i = Some e" using getByID_value [of i w e] g Some by simp
    then have e: "te_ID e = i" using stored_plain [OF Cons.prems(1)] by blast
    have inv: "redis_inv js (kv w1)" by (rule redis_inv_mono [OF Cons.prems(1) w1(2)])
    obtain es' w' where l: "redis_list_loop rc js ids (es @ [e]) w1 = (es', w')" by fastforce
    from Cons.IH [OF inv, of "es @ [e]"] Cons.prems(2) l obtain new where new: "es' = (es @ [e]) @ new" "te_ID ` set new \<subseteq> set ids"
      "index w' \<subseteq> index w1" "index w1 - set ids \<subseteq> index w'" "index w1 \<inter> te_ID ` set new \<subseteq> index w'" by auto
    have "te_ID ` set (e # new) \<subseteq> set (i # ids) \<and> index w' \<subseteq> index w \<and> index w - set (i # ids) \<subseteq> index w' \<and>
        index w \<inter> te_ID ` set (e # new) \<subseteq> index w'" using new(2-5) w1(1) e Cons.prems(2) by auto
    moreover have "es' = es @ (e # new)" using new(1) by simp
    ultimately show ?thesis using g Some l by (simp only: redis_list_loop.simps prod.case option.case) blast
  qed
qed simp

lemma List_index:
  assumes "redis_inv js (kv w)"
  shows "case redis_List rc js w of (es, w') \<Rightarrow> te_ID ` set es \<subseteq> index w' \<and> index w' \<subseteq> index w"
proof -
  obtain r w1 where g: "rt_SMembers rc tokenIndexKey w = (r, w1)" by fastforce
  have w1: "smem w1 = smem w" "kv w1 \<subseteq>\<^sub>m kv w" using smembers_keeps [of tokenIndexKey w] g by simp_all
  show ?thesis
  proof (cases r)
    case (Inl err)
    with g w1 show ?thesis by (simp add: redis_List_def)
  next
    case (Inr ids)
    have ids: "distinct ids" "set ids = index w" using smembers_value [of tokenIndexKey w ids] g Inr by simp_all
    obtain es w' where l: "redis_list_loop rc js ids [] w1 = (es, w')" by fastforce
    have "te_ID ` set es \<subseteq> set ids \<and> index w' \<subseteq> index w1 \<and> index w1 \<inter> te_ID ` set es \<subseteq> index w'"
      using list_loop_index [OF redis_inv_mono [OF assms w1(2)] ids(1), of "[]"] l by auto
    then have "te_ID ` set es \<subseteq> index w' \<and> index w' \<subseteq> index w" using ids(2) w1(1) by (metis inf.absorb_iff2)
    then show ?thesis using g Inr l by (simp add: redis_List_def)
  qed
qed

lemma meets_index: "keeps_index (NewRedisTokenStore rc js) (\<lambda>w. redis_inv js (kv w)) index"
  unfolding keeps_index_def NewRedisTokenStore_def token_iface.simps
  by (intro conjI allI impI) (erule Save_index Delete_index Revoke_index List_index | rule GetByHash_index)+

end

subsection \<open>A reference Redis\<close>

text \<open>String keys with their end of life (0: none), the members of sets with their key, and the clock.\<close>

record mem_tokens =
  mt_keys :: "(string \<times> string \<times> go_time) list"
  mt_sets :: "(string \<times> string) list"
  mt_clock :: go_time

definition mem_kv :: "mem_tokens \<Rightarrow> (string \<rightharpoonup> string)" where
  "mem_kv w k = map_option fst (map_of (mt_keys w) k)"

definition mem_smem :: "mem_tokens \<Rightarrow> string \<Rightarrow> string set" where
  "mem_smem w k = {m. (k, m) \<in> set (mt_sets w)}"

fun mem_cmd :: "redis_cmd \<Rightarrow> mem_tokens \<Rightarrow> int \<times> mem_tokens" where
  "mem_cmd (SET k v ttl) w = (1, w\<lparr>mt_keys := (k, v, if ttl = 0 then 0 else mt_clock w + ttl) # mt_keys w,
     mt_sets := filter (\<lambda>x. fst x \<noteq> k) (mt_sets w)\<rparr>)"
| "mem_cmd (DEL k) w = ((if mem_kv w k = None then 0 else 1), w\<lparr>mt_keys := filter (\<lambda>x. fst x \<noteq> k) (mt_keys w),
     mt_sets := filter (\<lambda>x. fst x \<noteq> k) (mt_sets w)\<rparr>)"
| "mem_cmd (SADD k v) w = (1, w\<lparr>mt_sets := List.insert (k, v) (mt_sets w)\<rparr>)"
| "mem_cmd (SREM k v) w = (1, w\<lparr>mt_sets := removeAll (k, v) (mt_sets w)\<rparr>)"

fun mem_exec :: "redis_cmd list \<Rightarrow> mem_tokens \<Rightarrow> int list \<times> mem_tokens" where
  "mem_exec [] w = ([], w)"
| "mem_exec (c # cs) w = (case mem_cmd c w of (n, w') \<Rightarrow> (case mem_exec cs w' of (ns, w'') \<Rightarrow> (n # ns, w'')))"

definition mem_rt_sweep :: "go_time \<Rightarrow> mem_tokens \<Rightarrow> mem_tokens" where
  "mem_rt_sweep now w = w\<lparr>mt_clock := now, mt_keys := filter (\<lambda>(k, v, x). mem_kv w k = Some v \<and> (x = 0 \<or> now \<le> x)) (mt_keys w)\<rparr>"

definition mem_rt :: "mem_tokens redis_conn" where
  "mem_rt = \<lparr>rt_Now = mt_clock,
     rt_Get = (\<lambda>k w. (case mem_kv w k of None \<Rightarrow> Inl (External ''redis: nil'') | Some v \<Rightarrow> Inr v, w)),
     rt_Exec = (\<lambda>cs w. (Inr (fst (mem_exec cs w)), snd (mem_exec cs w))),
     rt_SMembers = (\<lambda>k w. (Inr (remdups (map snd (filter (\<lambda>x. fst x = k) (mt_sets w)))), w)),
     rt_SRem = (\<lambda>k m w. (None, snd (mem_cmd (SREM k m) w))),
     rt_Run = (\<lambda>f w. (Inr (fst (f w)), snd (f w))),
     rt_PTTL = (\<lambda>k w. case map_of (mt_keys w) k of None \<Rightarrow> - 2
       | Some (v, x) \<Rightarrow> if x = 0 then - 1 else max 0 ((x - mt_clock w) div 1000000)),
     rt_SET = (\<lambda>k v px w. w\<lparr>mt_keys := (k, v, case px of None \<Rightarrow> 0 | Some t \<Rightarrow> mt_clock w + t * 1000000) # mt_keys w,
       mt_sets := filter (\<lambda>x. fst x \<noteq> k) (mt_sets w)\<rparr>)\<rparr>"

definition mem_rj :: redis_codec where
  "mem_rj = \<lparr>rj_Marshal = (\<lambda>r. Inr (CHR 0x7B # enc_entry (fromRedisEntry r))),
     rj_Unmarshal = (\<lambda>s. case s of [] \<Rightarrow> Inl (External ''unexpected end of JSON input'')
       | c # s' \<Rightarrow> if c = CHR 0x7B then (case decode_entry s' of Inl e \<Rightarrow> Inl e
                   | Inr e \<Rightarrow> if text_safe e then Inr (toRedisEntry e) else Inl (External ''invalid UTF-8''))
                 else Inl (External ''invalid character''))\<rparr>"

lemma mem_cmd_kv: "mem_kv (snd (mem_cmd c w)) = cmd_kv c (mem_kv w)"
proof (cases c)
  case (DEL k)
  have "map_of (filter (\<lambda>x. fst x \<noteq> k) xs) k' = (if k' = k then None else map_of xs k')" for xs :: "(string \<times> string \<times> go_time) list" and k'
    by (induction xs) auto
  with DEL show ?thesis by (auto simp: mem_kv_def fun_eq_iff)
qed (auto simp: mem_kv_def fun_eq_iff)

lemma mem_exec_kv: "mem_kv (snd (mem_exec cs w)) = fold cmd_kv cs (mem_kv w)"
proof (induction cs arbitrary: w)
  case (Cons c cs)
  have "snd (mem_exec (c # cs) w) = snd (mem_exec cs (snd (mem_cmd c w)))" by (simp split: prod.split)
  then show ?case by (simp add: Cons.IH mem_cmd_kv del: mem_exec.simps)
qed simp

lemma mem_cmd_smem: "mem_smem (snd (mem_cmd c w)) = cmd_smem c (mem_smem w)"
  by (cases c) (auto simp: mem_smem_def fun_eq_iff)

lemma mem_exec_smem: "mem_smem (snd (mem_exec cs w)) = fold cmd_smem cs (mem_smem w)"
proof (induction cs arbitrary: w)
  case (Cons c cs)
  have "snd (mem_exec (c # cs) w) = snd (mem_exec cs (snd (mem_cmd c w)))" by (simp split: prod.split)
  then show ?case by (simp add: Cons.IH mem_cmd_smem del: mem_exec.simps)
qed simp

lemma mem_rt_sweep_le: "mem_kv (mem_rt_sweep now w) \<subseteq>\<^sub>m mem_kv w"
proof -
  have "mem_kv w k = Some v" if "mem_kv (mem_rt_sweep now w) k = Some v" for k v
    using that by (auto simp: mem_kv_def mem_rt_sweep_def dest!: map_of_SomeD)
  then show ?thesis by (auto simp: map_le_def)
qed

lemma uuid_not_brace: "is_uuid s \<Longrightarrow> s = c # s' \<Longrightarrow> c \<noteq> CHR 0x7B"
  by (auto simp: is_uuid_def)

interpretation mem_rt: redis_tokens mem_rt mem_rj mem_rt_sweep mem_kv mem_smem
proof
  show "\<exists>ds. subseq ds cs \<and> mem_kv (snd (rt_Exec mem_rt cs w)) \<subseteq>\<^sub>m fold cmd_kv ds (mem_kv w) \<and>
      mem_smem (snd (rt_Exec mem_rt cs w)) = fold cmd_smem ds (mem_smem w)" for cs w
    by (rule exI [of _ cs]) (simp add: mem_rt_def mem_exec_kv mem_exec_smem)
  show "\<exists>w0. mem_kv w0 \<subseteq>\<^sub>m mem_kv w \<and> mem_smem w0 = mem_smem w \<and> n = fst (f w0) \<and>
      mem_kv (snd (rt_Run mem_rt f w)) \<subseteq>\<^sub>m mem_kv (snd (f w0)) \<and> mem_smem (snd (rt_Run mem_rt f w)) = mem_smem (snd (f w0))"
    if "fst (rt_Run mem_rt f w) = Inr n" for f w n
    by (rule exI [of _ w]) (use that in \<open>simp add: mem_rt_def\<close>)
  show "mem_kv (mem_rt_sweep now w) \<subseteq>\<^sub>m mem_kv w" for now w by (rule mem_rt_sweep_le)
  show "mem_smem (mem_rt_sweep now w) = mem_smem w" for now w by (simp add: mem_rt_sweep_def mem_smem_def fun_eq_iff)
  show "mem_kv (rt_SET mem_rt k v px w) = (mem_kv w)(k \<mapsto> v) \<and>
      mem_smem (rt_SET mem_rt k v px w) = (mem_smem w)(k := {})" for k v px w
    by (auto simp: mem_rt_def mem_kv_def mem_smem_def fun_eq_iff)
  show "(rt_PTTL mem_rt k w = - 2) = (mem_kv w k = None)" for k w
    by (auto simp: mem_rt_def mem_kv_def split: option.split)
  show "mem_kv (snd (rt_SRem mem_rt k m w)) \<subseteq>\<^sub>m mem_kv w" for k m w
    using mem_cmd_kv [of "SREM k m" w] by (simp add: mem_rt_def)
  show "mem_smem (snd (rt_SRem mem_rt k m w)) \<in> {mem_smem w, cmd_smem (SREM k m) (mem_smem w)}" for k m w
    using mem_cmd_smem [of "SREM k m" w] by (simp add: mem_rt_def)
  show "distinct ms \<and> set ms = mem_smem w k" if "fst (rt_SMembers mem_rt k w) = Inr ms" for k w ms
    using that by (force simp: mem_rt_def mem_smem_def)
  show "\<exists>err. rj_Unmarshal mem_rj s = Inl err" if "is_uuid s" for s
    using uuid_not_brace [OF that] by (cases s) (auto simp: mem_rj_def)
  show "record_safe r" if "rj_Unmarshal mem_rj data = Inr r" for data r
    using that by (auto simp: mem_rj_def record_safe_def split: list.splits sum.splits if_split_asm)
  show "rj_Unmarshal mem_rj data = Inr r" if "record_safe r" and "rj_Marshal mem_rj r = Inr data" for r data
    using that by (auto simp: mem_rj_def record_safe_def)
qed (auto simp: mem_rt_def mem_exec_kv mem_exec_smem split: option.splits)

subsection \<open>Properties\<close>

text \<open>C12: on every Redis that behaves as documented (keys may expire during any call, a failed
  pipeline may have run in part, the reply of a script may be lost) the Redis store meets the
  contract of a token store for tokens whose strings are valid UTF-8 (JSON replaces other bytes):
  it never invents, revives or unrevokes an entry, and what \<open>Revoke\<close> and \<open>Delete\<close>
  report as done is done; and it keeps the index of identifiers: a successful save puts the
  identifier in, a reported deletion takes it out, a revocation leaves the index alone, and what a
  listing returns is and stays indexed.\<close>

theorem redis_store_refines:
  assumes "redis_tokens rc js sweep kv smem"
  shows "token_store (NewRedisTokenStore rc js) sweep (\<lambda>t. t) (\<lambda>w. redis_fresh (kv w)) (\<lambda>w. redis_inv js (kv w)) (\<lambda>w. redis_view js (kv w)) \<and>
    keeps_index (NewRedisTokenStore rc js) (\<lambda>w. redis_inv js (kv w)) (\<lambda>w. smem w tokenIndexKey)"
  using redis_tokens.meets_token_store [OF assms] redis_tokens.meets_index [OF assms] by blast

theorem redis_store_refines_witness:
  "token_store (NewRedisTokenStore mem_rt mem_rj) mem_rt_sweep (\<lambda>t. t) (\<lambda>w. redis_fresh (mem_kv w)) (\<lambda>w. redis_inv mem_rj (mem_kv w))
     (\<lambda>w. redis_view mem_rj (mem_kv w)) \<and>
   keeps_index (NewRedisTokenStore mem_rt mem_rj) (\<lambda>w. redis_inv mem_rj (mem_kv w)) (\<lambda>w. mem_smem w tokenIndexKey)"
  by (rule redis_store_refines [OF mem_rt.redis_tokens_axioms])

end
