(* ===== verification/Gimme_Negotiation.thy ===== *)
theory Gimme_Negotiation
  imports Complex_Main Gimme_Versions Gimme_Storage
begin

text \<open>
  Content negotiation and conditional requests, api/content-negotiation.go and
  api/conditional-requests.go. \<open>strconv.ParseFloat\<close> and \<open>http.ParseTime\<close> are
  arguments; a parsed quality is a rational number or one of the special values of a float. The
  negotiation is proved equal to the rules of RFC 9110 section 12.5.3 (\<open>weight\<close>).
\<close>

subsection \<open>Accept-Encoding\<close>

datatype go_float = NaN | Finite rat | PosInf | NegInf

record acceptedEncodings =
  acc_encodings :: "Encoding list"
  acc_identity :: bool

text \<open>The inner loop over the parameters of one entry; \<open>None\<close> is an invalid entry.\<close>

fun quality_loop :: "(string \<Rightarrow> go_error + go_float) \<Rightarrow> string list \<Rightarrow> rat \<Rightarrow> rat option" where
  "quality_loop ParseFloat [] quality = Some quality"
| "quality_loop ParseFloat (parameter # ps) quality =
     (case Cut (TrimSpace parameter) (CHR ''='') of (name, value, found) \<Rightarrow>
        if \<not> EqualFold name ''q'' then quality_loop ParseFloat ps quality
        else (case ParseFloat (TrimSpace value) of
            Inl _ \<Rightarrow> None
          | Inr (Finite parsed) \<Rightarrow> if \<not> found \<or> parsed < 0 \<or> 1 < parsed then None else quality_loop ParseFloat ps parsed
          | Inr _ \<Rightarrow> None))"

definition accept_entry :: "(string \<Rightarrow> go_error + go_float) \<Rightarrow> string \<Rightarrow> (string \<times> rat) option" where
  "accept_entry ParseFloat part =
     (let segments = Split (TrimSpace part) (CHR '';'');
          token = ToLower (TrimSpace (hd segments))
      in (case quality_loop ParseFloat (tl segments) 1 of
            None \<Rightarrow> None
          | Some quality \<Rightarrow> if token = '''' then None else Some (token, quality)))"

fun quality_map :: "(string \<Rightarrow> go_error + go_float) \<Rightarrow> string list \<Rightarrow> (string \<rightharpoonup> rat) \<Rightarrow> (string \<rightharpoonup> rat)" where
  "quality_map ParseFloat [] qualities = qualities"
| "quality_map ParseFloat (part # parts) qualities =
     (case accept_entry ParseFloat part of
        None \<Rightarrow> quality_map ParseFloat parts qualities
      | Some (token, quality) \<Rightarrow>
          (case qualities token of
             Some current \<Rightarrow>
               if quality \<le> current then quality_map ParseFloat parts qualities
               else quality_map ParseFloat parts (qualities(token \<mapsto> quality))
           | None \<Rightarrow> quality_map ParseFloat parts (qualities(token \<mapsto> quality))))"

definition resolve_quality :: "(string \<rightharpoonup> rat) \<Rightarrow> string \<Rightarrow> rat option" where
  "resolve_quality qualities token =
     (case qualities token of Some named \<Rightarrow> Some named | None \<Rightarrow> qualities ''*'')"

definition preferences :: "(string \<rightharpoonup> rat) \<Rightarrow> (Encoding \<times> rat) list" where
  "preferences qualities =
     concat (map (\<lambda>encoding. case resolve_quality qualities encoding of
         None \<Rightarrow> []
       | Some quality \<Rightarrow> if quality = 0 then [] else [(encoding, quality)]) [EncodingBrotli, EncodingGzip])"

definition parseAcceptEncoding :: "(string \<Rightarrow> go_error + go_float) \<Rightarrow> string \<Rightarrow> acceptedEncodings" where
  "parseAcceptEncoding ParseFloat header =
     (if TrimSpace header = '''' then \<lparr>acc_encodings = [], acc_identity = True\<rparr>
      else (let qualities = quality_map ParseFloat (Split header (CHR '','')) Map.empty;
                identity = (case resolve_quality qualities ''identity'' of None \<Rightarrow> True | Some q \<Rightarrow> 0 < q)
            in \<lparr>acc_encodings = map fst (sort_key (\<lambda>p. - snd p) (preferences qualities)), acc_identity = identity\<rparr>))"

subsection \<open>Conditional requests\<close>

definition cacheControlHeader :: "semver_pkg \<Rightarrow> string \<Rightarrow> string" where
  "cacheControlHeader sv version =
     (if IsPinnedVersion sv version then ''public, max-age=31536000, immutable'' else ''public, max-age=300'')"

definition etagMatches :: "string \<Rightarrow> string \<Rightarrow> bool" where
  "etagMatches ifNoneMatch etag =
     (if ifNoneMatch = '''' \<or> etag = '''' then False
      else list_ex (\<lambda>candidate. TrimSpace candidate = ''*'' \<or> TrimPrefix (TrimSpace candidate) ''W/'' = TrimPrefix etag ''W/'')
             (Split ifNoneMatch (CHR '','')))"

text \<open>\<open>Truncate(time.Second)\<close>: seconds since the zero time.\<close>

definition truncate_second :: "go_time \<Rightarrow> go_time" where
  "truncate_second t = t div 1000000000 * 1000000000"

definition notModified :: "(string \<Rightarrow> go_time option) \<Rightarrow> (string \<Rightarrow> string) \<Rightarrow> string \<Rightarrow> go_time \<Rightarrow> bool" where
  "notModified ParseTime header etag lastModified =
     (if header ''If-None-Match'' \<noteq> '''' then etagMatches (header ''If-None-Match'') etag
      else if header ''If-Modified-Since'' = '''' \<or> IsZero lastModified then False
      else (case ParseTime (header ''If-Modified-Since'') of
          None \<Rightarrow> False
        | Some modifiedSince \<Rightarrow> \<not> modifiedSince < truncate_second lastModified))"

subsection \<open>The rules of RFC 9110\<close>

text \<open>The valid entries of the header, and the weight the header gives to a coding.\<close>

definition entries :: "(string \<Rightarrow> go_error + go_float) \<Rightarrow> string \<Rightarrow> (string \<times> rat) list" where
  "entries ParseFloat header = List.map_filter (accept_entry ParseFloat) (Split header (CHR '',''))"

definition named_weight :: "(string \<times> rat) list \<Rightarrow> string \<Rightarrow> rat option" where
  "named_weight es token =
     (let qs = map snd (filter (\<lambda>e. fst e = token) es) in if qs = [] then None else Some (Max (set qs)))"

definition weight :: "(string \<times> rat) list \<Rightarrow> string \<Rightarrow> rat option" where
  "weight es token = (case named_weight es token of Some q \<Rightarrow> Some q | None \<Rightarrow> named_weight es ''*'')"

lemma named_weight_Nil [simp]: "named_weight [] token = None"
  by (simp add: named_weight_def)

lemma named_weight_snoc:
  "named_weight (es @ [(t, q)]) token =
     (if t = token then Some (case named_weight es token of None \<Rightarrow> q | Some m \<Rightarrow> max m q) else named_weight es token)"
proof -
  define qs where "qs = map snd (filter (\<lambda>e. fst e = token) es)"
  have "map snd (filter (\<lambda>e. fst e = token) (es @ [(t, q)])) = qs @ (if t = token then [q] else [])" by (simp add: qs_def)
  moreover have "qs \<noteq> [] \<Longrightarrow> Max (set (qs @ [q])) = max (Max (set qs)) q" by (simp add: max.commute)
  ultimately show ?thesis unfolding named_weight_def Let_def qs_def [symmetric] by auto
qed

lemma quality_map_named:
  "quality_map ParseFloat parts (named_weight es) = named_weight (es @ List.map_filter (accept_entry ParseFloat) parts)"
proof (induction parts arbitrary: es)
  case (Cons part parts)
  show ?case
  proof (cases "accept_entry ParseFloat part")
    case None
    with Cons show ?thesis by (simp add: List.map_filter_simps)
  next
    case (Some tq)
    obtain token quality where tq: "tq = (token, quality)" by fastforce
    let ?es = "es @ [(token, quality)]"
    have "quality_map ParseFloat (part # parts) (named_weight es) = quality_map ParseFloat parts (named_weight ?es)"
    proof (cases "named_weight es token")
      case None
      then have "(named_weight es)(token \<mapsto> quality) = named_weight ?es" by (auto simp: named_weight_snoc fun_eq_iff)
      with None Some tq show ?thesis by simp
    next
      case (Some c)
      then have "named_weight ?es = (if quality \<le> c then named_weight es else (named_weight es)(token \<mapsto> quality))"
        by (auto simp: named_weight_snoc fun_eq_iff max_def)
      with Some \<open>accept_entry ParseFloat part = Some tq\<close> tq show ?thesis by simp
    qed
    with Cons.IH [of ?es] Some tq show ?thesis by (simp add: List.map_filter_simps)
  qed
qed (simp add: List.map_filter_simps)

lemma quality_map_weight: "resolve_quality (quality_map ParseFloat parts Map.empty) token =
    weight (List.map_filter (accept_entry ParseFloat) parts) token"
proof -
  have "named_weight [] = Map.empty" by (simp add: fun_eq_iff)
  with quality_map_named [of ParseFloat parts "[]"] show ?thesis by (simp add: resolve_quality_def weight_def)
qed

lemma TrimSpace_Nil [simp]: "TrimSpace '''' = ''''"
  by (simp add: TrimSpace_def)

lemma quality_loop_bounds:
  "quality_loop ParseFloat ps q = Some r \<Longrightarrow> 0 \<le> q \<Longrightarrow> q \<le> 1 \<Longrightarrow> 0 \<le> r \<and> r \<le> 1"
  by (induction ParseFloat ps q rule: quality_loop.induct)
    (auto split: prod.splits sum.splits go_float.splits if_split_asm)

lemma entries_bounds: "(t, q) \<in> set (entries ParseFloat header) \<Longrightarrow> 0 \<le> q \<and> q \<le> 1"
  using quality_loop_bounds [of ParseFloat _ 1 q]
  by (fastforce simp: entries_def List.map_filter_def accept_entry_def Let_def split: option.splits if_split_asm)

lemma weight_nonneg:
  assumes "weight (entries ParseFloat header) t = Some q"
  shows "0 \<le> q"
proof -
  have "0 \<le> q" if "named_weight (entries ParseFloat header) u = Some q" for u
  proof -
    let ?qs = "map snd (filter (\<lambda>e. fst e = u) (entries ParseFloat header))"
    have "?qs \<noteq> []" and "q = Max (set ?qs)" using that unfolding named_weight_def Let_def by (simp_all split: if_split_asm)
    then have "set ?qs \<noteq> {}" by (simp only: set_empty not_False_eq_True)
    then have "q \<in> set ?qs" using Max_in [of "set ?qs"] \<open>q = Max (set ?qs)\<close> by simp
    then show ?thesis using entries_bounds by fastforce
  qed
  with assms show ?thesis by (auto simp: weight_def split: option.splits)
qed

subsection \<open>Properties\<close>

text \<open>C19: content negotiation follows RFC 9110: a stored coding is offered exactly when the
  header gives it a positive weight (its own highest valid entry, else the one of the wildcard),
  the offered codings come in order of decreasing weight with brotli first among equals, and the
  unencoded representation is refused exactly when the header gives identity the weight 0.\<close>

theorem parseAcceptEncoding_rfc9110:
  assumes "TrimSpace header \<noteq> ''''"
  shows "let es = entries ParseFloat header; acc = parseAcceptEncoding ParseFloat header in
    (\<forall>e. e \<in> set (acc_encodings acc) \<longleftrightarrow> e \<in> {EncodingBrotli, EncodingGzip} \<and> (\<exists>q > 0. weight es e = Some q)) \<and>
    distinct (acc_encodings acc) \<and>
    sorted (map (\<lambda>e. - the (weight es e)) (acc_encodings acc)) \<and>
    (weight es EncodingBrotli = weight es EncodingGzip \<longrightarrow> acc_encodings acc \<in> {[], [EncodingBrotli, EncodingGzip]}) \<and>
    (acc_identity acc \<longleftrightarrow> weight es ''identity'' \<noteq> Some 0)"
proof -
  define es where "es = entries ParseFloat header"
  have res: "resolve_quality (quality_map ParseFloat (Split header (CHR '','')) Map.empty) t = weight es t" for t
    by (simp add: quality_map_weight es_def entries_def)
  have pos: "0 < q" if "weight es t = Some q" "q \<noteq> 0" for t q
    using weight_nonneg that unfolding es_def by fastforce
  have acc: "acc_encodings (parseAcceptEncoding ParseFloat header) =
      map fst (sort_key (\<lambda>p. - snd p) (concat (map (\<lambda>e. case weight es e of None \<Rightarrow> [] | Some q \<Rightarrow> if q = 0 then [] else [(e, q)]) [EncodingBrotli, EncodingGzip])))"
    using assms by (simp add: parseAcceptEncoding_def Let_def preferences_def res)
  have id: "acc_identity (parseAcceptEncoding ParseFloat header) \<longleftrightarrow> weight es ''identity'' \<noteq> Some 0"
    using assms pos weight_nonneg [of ParseFloat header "''identity''"]
    by (fastforce simp: parseAcceptEncoding_def Let_def res es_def [symmetric] split: option.splits)
  have ne: "EncodingBrotli \<noteq> EncodingGzip" by (simp add: EncodingBrotli_def EncodingGzip_def)
  show ?thesis
    unfolding Let_def es_def [symmetric] acc id
    using pos ne
    by (cases "weight es EncodingBrotli"; cases "weight es EncodingGzip") auto
qed

text \<open>A parser for the witnesses: a digit, optionally a point and one more digit.\<close>

definition ref_ParseFloat :: "string \<Rightarrow> go_error + go_float" where
  "ref_ParseFloat s =
     (case s of [d] \<Rightarrow> Inr (Finite (of_nat (of_char d - 48)))
      | [d, p, f] \<Rightarrow> Inr (Finite (of_nat (of_char d - 48) + of_nat (of_char f - 48) / 10))
      | _ \<Rightarrow> Inl (External ''invalid syntax''))"

theorem parseAcceptEncoding_rfc9110_witness:
  "let es = entries ref_ParseFloat ''gzip;q=0.5, *;q=0.8, identity;q=0'';
       acc = parseAcceptEncoding ref_ParseFloat ''gzip;q=0.5, *;q=0.8, identity;q=0''
   in (\<forall>e. e \<in> set (acc_encodings acc) \<longleftrightarrow> e \<in> {EncodingBrotli, EncodingGzip} \<and> (\<exists>q > 0. weight es e = Some q)) \<and>
      distinct (acc_encodings acc) \<and>
      sorted (map (\<lambda>e. - the (weight es e)) (acc_encodings acc)) \<and>
      (weight es EncodingBrotli = weight es EncodingGzip \<longrightarrow> acc_encodings acc \<in> {[], [EncodingBrotli, EncodingGzip]}) \<and>
      (acc_identity acc \<longleftrightarrow> weight es ''identity'' \<noteq> Some 0)"
proof -
  have "TrimSpace ''gzip;q=0.5, *;q=0.8, identity;q=0'' \<noteq> ''''" by code_simp
  from parseAcceptEncoding_rfc9110 [OF this] show ?thesis .
qed

end
