(* ===== verification/Gimme_Http.thy ===== *)
theory Gimme_Http
  imports Gimme_Tokens Gimme_Negotiation Gimme_Content
begin

text \<open>
  The HTTP side: what a handler reads of a request and leaves in the response, and the functions of
  packages net/url and strconv that the handlers call. A header of the request that is absent
  reads as the empty string; a cookie is read as gin reads it, unescaped. The response holds its status, the headers set by name, and its body.
\<close>

subsection \<open>Requests and responses\<close>

record request =
  rq_Method :: string
  rq_Path :: string
  rq_Header :: "string \<Rightarrow> string"
  rq_Query :: "string \<Rightarrow> string"
  rq_Param :: "string \<Rightarrow> string"
  rq_Cookie :: "string \<Rightarrow> string option"

record paginationResponse =
  pg_Limit :: int
  pg_Next :: string
  pg_HasMore :: bool
  pg_Total :: "int option"

record packageListingResponse =
  plr_Package :: string
  plr_Version :: string
  plr_Files :: "File list"
  plr_Pagination :: paginationResponse

record packageVersionsResponse =
  pvr_Package :: string
  pvr_Versions :: "string list"

record packageVersionLink =
  pvl_Version :: string
  pvl_URL :: string

record tokenResponse =
  tr_ID :: string
  tr_Name :: string
  tr_Token :: string
  tr_CreatedAt :: go_time
  tr_ExpiresAt :: go_time

datatype body =
    NoBody
  | ErrorJSON GimmeError
  | ErrorText string
  | ListingJSON packageListingResponse
  | VersionsJSON packageVersionsResponse
  | ListingHTML string FileListing string
  | VersionsHTML string "packageVersionLink list"
  | ObjectBody s3_object int
  | TokenJSON tokenResponse
  | AdminHTML "TokenEntry list"
  | IndexHTML

record response =
  rs_Status :: nat
  rs_Header :: "string \<rightharpoonup> string"
  rs_Body :: body

definition respond :: "nat \<Rightarrow> (string \<times> string) list \<Rightarrow> body \<Rightarrow> response" where
  "respond status headers bd = \<lparr>rs_Status = status, rs_Header = map_of (rev headers), rs_Body = bd\<rparr>"

definition gimme_error_response :: "(string \<times> string) list \<Rightarrow> GimmeError \<Rightarrow> response" where
  "gimme_error_response headers err = respond (GetHTTPCode err) headers (ErrorJSON err)"

text \<open>
  Outside the repository and the tables of the host: float and time syntax, the date format of a
  header, gin's choice between HTML and JSON from the Accept header.
\<close>

record http_pkg =
  hp_ParseFloat :: "string \<Rightarrow> go_error + go_float"
  hp_ParseTime :: "string \<Rightarrow> go_time option"
  hp_FormatTime :: "go_time \<Rightarrow> string"
  hp_wantsJSON :: "string \<Rightarrow> bool"

subsection \<open>Numbers\<close>

text \<open>\<open>strconv.Atoi\<close>: an optional sign and decimal digits, within 64 bits; and \<open>Itoa\<close>.\<close>

definition digits_value :: "string \<Rightarrow> int" where
  "digits_value s = fold (\<lambda>c v. 10 * v + digit_value c) s 0"

definition Atoi :: "string \<Rightarrow> int option" where
  "Atoi s =
     (let (neg, ds) = (case s of CHR ''-'' # r \<Rightarrow> (True, r) | CHR ''+'' # r \<Rightarrow> (False, r) | _ \<Rightarrow> (False, s))
      in if ds = '''' \<or> \<not> list_all is_dec ds then None
         else (let v = (if neg then - digits_value ds else digits_value ds)
               in if - (2 ^ 63) \<le> v \<and> v < 2 ^ 63 then Some v else None))"

definition digit_char :: "int \<Rightarrow> char" where
  "digit_char d = char_of (nat (d + 48))"

function dec_digits :: "int \<Rightarrow> string" where
  "dec_digits i = (if i < 10 then [digit_char i] else dec_digits (i div 10) @ [digit_char (i mod 10)])"
  by auto
termination by (relation "measure nat") auto

declare dec_digits.simps [simp del]

definition Itoa :: "int \<Rightarrow> string" where
  "Itoa i = (if i < 0 then CHR ''-'' # dec_digits (- i) else dec_digits i)"

subsection \<open>Escaping\<close>

text \<open>\<open>url.PathEscape\<close> (a path segment) and \<open>url.QueryEscape\<close>, byte by byte.\<close>

definition unreserved :: "char \<Rightarrow> bool" where
  "unreserved c \<longleftrightarrow>
     (let n = (of_char c :: nat) in 97 \<le> n \<and> n \<le> 122 \<or> 65 \<le> n \<and> n \<le> 90 \<or> 48 \<le> n \<and> n \<le> 57) \<or> c \<in> set ''-_.~''"

definition upper_hex :: "nat \<Rightarrow> char" where
  "upper_hex n = ''0123456789ABCDEF'' ! (n mod 16)"

definition percent :: "char \<Rightarrow> string" where
  "percent c = [CHR ''%'', upper_hex (of_char c div 16), upper_hex (of_char c mod 16)]"

definition PathEscape :: "string \<Rightarrow> string" where
  "PathEscape s = concat (map (\<lambda>c. if unreserved c \<or> c \<in> set ''$&+:=@'' then [c] else percent c) s)"

definition QueryEscape :: "string \<Rightarrow> string" where
  "QueryEscape s = concat (map (\<lambda>c. if unreserved c then [c] else if c = CHR '' '' then ''+'' else percent c) s)"

definition unhex :: "char \<Rightarrow> nat option" where
  "unhex c =
     (let n = (of_char c :: nat)
      in if 48 \<le> n \<and> n \<le> 57 then Some (n - 48)
         else if 97 \<le> n \<and> n \<le> 102 then Some (n - 87)
         else if 65 \<le> n \<and> n \<le> 70 then Some (n - 55) else None)"

text \<open>\<open>url.PathUnescape\<close> and \<open>url.QueryUnescape\<close>, what the server does with a request.\<close>

fun unescape :: "bool \<Rightarrow> string \<Rightarrow> string option" where
  "unescape query [] = Some []"
| "unescape query (c # s) =
     (if c = CHR ''%''
      then (case s of
          a # b # r \<Rightarrow>
            (case (unhex a, unhex b) of
               (Some x, Some y) \<Rightarrow> map_option (\<lambda>t. char_of (16 * x + y) # t) (unescape query r)
             | _ \<Rightarrow> None)
        | _ \<Rightarrow> None)
      else map_option (\<lambda>t. (if query \<and> c = CHR ''+'' then CHR '' '' else c) # t) (unescape query s))"

lemma unhex_upper: "n < 16 \<Longrightarrow> unhex (upper_hex n) = Some n"
proof -
  assume "n < 16"
  then have "n \<in> set [0..<16]" by simp
  moreover have "list_all (\<lambda>n. unhex (upper_hex n) = Some n) [0..<16]" by code_simp
  ultimately show ?thesis by (simp only: list_all_iff)
qed

lemma unescape_percent: "unescape query (percent c @ s) = map_option (\<lambda>t. c # t) (unescape query s)"
proof -
  have "(of_char c :: nat) < 256" by (fact nat_of_char_less_256)
  then have "unhex (upper_hex (of_char c div 16)) = Some (of_char c div 16)" "unhex (upper_hex (of_char c mod 16)) = Some (of_char c mod 16)"
    by (simp_all add: unhex_upper less_mult_imp_div_less)
  moreover have "char_of (16 * (of_char c div 16) + (of_char c mod 16 :: nat)) = c" by simp
  ultimately show ?thesis by (simp add: percent_def)
qed

lemma unescape_PathEscape: "unescape False (PathEscape s) = Some s"
proof (induction s)
  case (Cons c s)
  have "c \<noteq> CHR ''%''" if "unreserved c \<or> c \<in> set ''$&+:=@''" using that by (auto simp: unreserved_def)
  with Cons show ?case by (auto simp: PathEscape_def unescape_percent)
qed (simp add: PathEscape_def)

lemma unescape_QueryEscape: "unescape True (QueryEscape s) = Some s"
proof (induction s)
  case (Cons c s)
  have "c \<noteq> CHR ''%'' \<and> c \<noteq> CHR ''+''" if "unreserved c" using that by (auto simp: unreserved_def)
  with Cons show ?case by (auto simp: QueryEscape_def unescape_percent)
qed (simp add: QueryEscape_def)

text \<open>The separators of a URL never occur in an escaped part.\<close>

lemma upper_hex_in: "upper_hex n \<in> set ''0123456789ABCDEF''"
proof -
  have "n mod 16 < length ''0123456789ABCDEF''" by simp
  then show ?thesis unfolding upper_hex_def by (rule nth_mem)
qed

lemma percent_chars: "c \<in> set (percent d) \<Longrightarrow> c \<in> set ''%0123456789ABCDEF''"
  using upper_hex_in [of "of_char d div 16"] upper_hex_in [of "of_char d mod 16"] by (auto simp: percent_def)

lemma QueryEscape_chars: "c \<in> set (QueryEscape s) \<Longrightarrow> unreserved c \<or> c \<in> set ''+%0123456789ABCDEF''"
  using percent_chars by (fastforce simp: QueryEscape_def split: if_split_asm)

lemma PathEscape_chars: "c \<in> set (PathEscape s) \<Longrightarrow> unreserved c \<or> c \<in> set ''$&+:=@%0123456789ABCDEF''"
  using percent_chars by (fastforce simp: PathEscape_def split: if_split_asm)

lemma sep_not_unreserved: "\<not> unreserved (CHR ''?'')" "\<not> unreserved (CHR ''&'')" "\<not> unreserved (CHR ''='')"
  by code_simp+

lemma QueryEscape_sep: "CHR ''&'' \<notin> set (QueryEscape s)"
  using QueryEscape_chars [of "CHR ''&''" s] sep_not_unreserved by auto

lemma QueryEscape_semicolon: "CHR '';'' \<notin> set (QueryEscape s)"
  using QueryEscape_chars [of "CHR '';''" s] by (auto simp: unreserved_def)

lemma QueryEscape_hash: "CHR ''#'' \<notin> set (QueryEscape s)"
  using QueryEscape_chars [of "CHR ''#''" s] by (auto simp: unreserved_def)

lemma PathEscape_seps: "set ''/?#'' \<inter> set (PathEscape s) = {}"
  using PathEscape_chars [of "CHR ''/''" s] PathEscape_chars [of "CHR ''?''" s] PathEscape_chars [of "CHR ''#''" s]
  by (auto simp: unreserved_def)

lemma digit_char_value: "0 \<le> d \<Longrightarrow> d < 10 \<Longrightarrow> digit_value (digit_char d) = d \<and> is_dec (digit_char d)"
proof -
  assume d: "0 \<le> d" "d < 10"
  then have "d \<in> set [0..9]" by simp
  moreover have "list_all (\<lambda>d. digit_value (digit_char d) = d \<and> is_dec (digit_char d)) [0..9]" by code_simp
  ultimately show ?thesis by (simp only: list_all_iff)
qed

lemma dec_digits_value:
  assumes "0 \<le> i"
  shows "digits_value (dec_digits i) = i \<and> list_all is_dec (dec_digits i) \<and> dec_digits i \<noteq> ''''"
  using assms
proof (induction i rule: dec_digits.induct)
  case (1 i)
  show ?case
  proof (cases "i < 10")
    case True
    with 1 digit_char_value [of i] show ?thesis by (simp add: dec_digits.simps [of i] digits_value_def)
  next
    case False
    then have ih: "digits_value (dec_digits (i div 10)) = i div 10" "list_all is_dec (dec_digits (i div 10))" using 1 by simp_all
    have m: "digit_value (digit_char (i mod 10)) = i mod 10" "is_dec (digit_char (i mod 10))"
      using digit_char_value [of "i mod 10"] by simp_all
    have "dec_digits i = dec_digits (i div 10) @ [digit_char (i mod 10)]" using False by (simp add: dec_digits.simps [of i])
    then show ?thesis using ih m by (simp add: digits_value_def)
  qed
qed

lemma is_dec_sign: "is_dec c \<Longrightarrow> c \<noteq> CHR ''-'' \<and> c \<noteq> CHR ''+''"
  by (auto simp: is_dec_def less_eq_char_def)

lemma Atoi_Itoa:
  assumes "0 \<le> i" and "i < 2 ^ 63"
  shows "Atoi (Itoa i) = Some i"
proof -
  note d = dec_digits_value [OF assms(1)]
  then obtain c r where cr: "dec_digits i = c # r" by (cases "dec_digits i") auto
  with d is_dec_sign [of c] have "c \<noteq> CHR ''-''" "c \<noteq> CHR ''+''" by auto
  then have "(case dec_digits i of CHR ''-'' # r \<Rightarrow> (True, r) | CHR ''+'' # r \<Rightarrow> (False, r) | _ \<Rightarrow> (False, dec_digits i)) = (False, dec_digits i)"
    unfolding cr by (auto split: char.splits bool.splits)
  then show ?thesis using d assms unfolding Atoi_def Itoa_def by simp
qed

end
