(* ===== verification/Gimme_Config.thy ===== *)
theory Gimme_Config
  imports Gimme_Http
begin

text \<open>
  The configuration (configs/config.go): the records, the reading of a size, the validation that
  reports every problem at once, and \<open>NewConfig\<close> over viper. Viper is an argument: what a
  lookup answers once the environment variables are bound, the defaults set and the file read.
  A size is read with \<open>strconv.ParseFloat\<close>, so through the nearest 64-bit float: the float is
  kept here as a mantissa and a binary exponent, and the rounding is written out.
\<close>

subsection \<open>Floats\<close>

function bit_count :: "int \<Rightarrow> int" where
  "bit_count n = (if n \<le> 0 then 0 else 1 + bit_count (n div 2))"
  by auto
termination by (relation "measure nat") auto

declare bit_count.simps [simp del]

definition round_half_even :: "int \<Rightarrow> int \<Rightarrow> int" where
  "round_half_even n d =
     (let q = n div d; r = n mod d in if 2 * r < d \<or> 2 * r = d \<and> even q then q else q + 1)"

text \<open>The float \<open>m * 2 ^ e\<close> nearest to \<open>n / d\<close>, or \<open>None\<close> beyond the largest one.\<close>

type_synonym float64 = "int \<times> int"

definition nearest_float :: "int \<Rightarrow> int \<Rightarrow> float64 option" where
  "nearest_float n d =
     (if n = 0 then Some (0, 0)
      else let e0 = bit_count n - bit_count d - 53;
               large = (if 0 \<le> e0 then 2 ^ 53 \<le> n div (d * 2 ^ nat e0) else 2 ^ 53 \<le> n * 2 ^ nat (- e0) div d);
               e = max (if large then e0 + 1 else e0) (- 1074);
               m = (if 0 \<le> e then round_half_even n (d * 2 ^ nat e) else round_half_even (n * 2 ^ nat (- e)) d)
           in if 0 \<le> e \<and> 2 ^ 1024 \<le> m * 2 ^ nat e then None else Some (m, e))"

text \<open>\<open>ParseFloat\<close> on what the pattern of a size lets through: a sign, digits, a fraction.\<close>

definition split_sign :: "string \<Rightarrow> bool \<times> string" where
  "split_sign s = (case s of [] \<Rightarrow> (False, []) | c # r \<Rightarrow> if c = CHR ''-'' then (True, r) else if c = CHR ''+'' then (False, r) else (False, s))"

definition ParseFloat_decimal :: "string \<Rightarrow> float64 option" where
  "ParseFloat_decimal s =
     (let (neg, ds) = split_sign s; (whole, frac, _) = Cut ds (CHR ''.'')
      in map_option (\<lambda>(m, e). (if neg then - m else m, e))
           (nearest_float (digits_value (whole @ frac)) (10 ^ length frac)))"

definition float_ge :: "float64 \<Rightarrow> int \<Rightarrow> bool" where
  "float_ge f c = (case f of (m, e) \<Rightarrow> if 0 \<le> e then c \<le> m * 2 ^ nat e else c * 2 ^ nat (- e) \<le> m)"

definition float_le :: "float64 \<Rightarrow> int \<Rightarrow> bool" where
  "float_le f c = (case f of (m, e) \<Rightarrow> if 0 \<le> e then m * 2 ^ nat e \<le> c else m \<le> c * 2 ^ nat (- e))"

text \<open>The conversion to an integer drops the fraction.\<close>

definition float_trunc :: "float64 \<Rightarrow> int" where
  "float_trunc f = (case f of (m, e) \<Rightarrow> if 0 \<le> e then m * 2 ^ nat e else sgn m * (\<bar>m\<bar> div 2 ^ nat (- e)))"

subsection \<open>Sizes\<close>

definition sizeMultipliers :: "string \<rightharpoonup> int" where
  "sizeMultipliers = map_of
     [('''', 1), (''B'', 1), (''KB'', 2 ^ 10), (''KIB'', 2 ^ 10), (''MB'', 2 ^ 20), (''MIB'', 2 ^ 20),
      (''GB'', 2 ^ 30), (''GIB'', 2 ^ 30), (''TB'', 2 ^ 40), (''TIB'', 2 ^ 40)]"

definition is_re_space :: "char \<Rightarrow> bool" where
  "is_re_space c \<longleftrightarrow> (of_char c :: nat) \<in> {9, 10, 12, 13, 32}"

definition is_letter :: "char \<Rightarrow> bool" where
  "is_letter c \<longleftrightarrow> (let n = (of_char c :: nat) in 65 \<le> n \<and> n \<le> 90 \<or> 97 \<le> n \<and> n \<le> 122)"

text \<open>
  \<open>FindStringSubmatch\<close> of \<open>sizePattern\<close>: the number and the unit. The classes of
  consecutive parts are disjoint, so each part takes all it can.
\<close>

definition sizePattern :: "string \<Rightarrow> (string \<times> string) option" where
  "sizePattern raw =
     (let s = dropWhile is_re_space raw;
          sign = (case s of [] \<Rightarrow> [] | c # _ \<Rightarrow> if c = CHR ''+'' \<or> c = CHR ''-'' then [c] else []);
          s1 = drop (length sign) s;
          whole = takeWhile is_dec s1;
          s2 = dropWhile is_dec s1;
          frac = (case s2 of [] \<Rightarrow> [] | c # r \<Rightarrow> if c = CHR ''.'' then takeWhile is_dec r else []);
          s3 = (if frac = [] then s2 else drop (Suc (length frac)) s2);
          s4 = dropWhile is_re_space s3;
          unit = takeWhile is_letter s4
      in if whole = [] \<or> dropWhile is_re_space (dropWhile is_letter s4) \<noteq> [] then None
         else Some (sign @ whole @ (if frac = [] then [] else CHR ''.'' # frac), unit))"

definition parseSize :: "string \<Rightarrow> go_error + int" where
  "parseSize raw =
     (case sizePattern raw of
        None \<Rightarrow> Inl (InvalidSize raw)
      | Some (number, unit) \<Rightarrow>
          (case sizeMultipliers (ToUpper unit) of
             None \<Rightarrow> Inl (InvalidSize raw)
           | Some multiplier \<Rightarrow>
               (case ParseFloat_decimal number of
                  None \<Rightarrow> Inl (InvalidSize raw)
                | Some (m, e) \<Rightarrow>
                    (let bytes = (m * multiplier, e)
                     in if float_ge bytes (2 ^ 63) \<or> float_le bytes (- (2 ^ 63)) then Inl (SizeOverflow raw)
                        else Inr (float_trunc bytes)))))"

record Size =
  sz_Bytes :: int
  sz_raw :: string
  sz_err :: "go_error option"

definition size_of :: "string \<Rightarrow> Size" where
  "size_of raw =
     (case parseSize raw of
        Inl err \<Rightarrow> \<lparr>sz_Bytes = 0, sz_raw = raw, sz_err = Some err\<rparr>
      | Inr bytes \<Rightarrow> \<lparr>sz_Bytes = bytes, sz_raw = raw, sz_err = None\<rparr>)"

definition sizeProblem :: "string \<Rightarrow> Size \<Rightarrow> config_problem list" where
  "sizeProblem k sz =
     (if sz_err sz \<noteq> None then [NotASize k (sz_raw sz)]
      else if sz_Bytes sz \<le> 0 then [NotPositive k (sz_Bytes sz)] else [])"

subsection \<open>The configuration\<close>

record CacheConfig =
  cc_Enabled :: bool
  cc_Type :: string
  cc_TTL :: int

record UploadConfig =
  uc_MaxSize :: Size
  uc_MaxEntries :: int
  uc_MaxUncompressedSize :: Size

record OIDCConfig =
  oc_Issuer :: string
  oc_ClientID :: string
  oc_ClientSecret :: string
  oc_RedirectURL :: string
  oc_SecureCookies :: bool

record AuthConfig =
  auth_Mode :: string
  auth_OIDC :: OIDCConfig

record TokenStoreConfig =
  tsc_Mode :: string
  tsc_PostgresURL :: string

record Configuration =
  AppPort :: string
  AdminUser :: string
  AdminPassword :: string
  Secret :: string
  S3Url :: string
  S3Key :: string
  S3Secret :: string
  S3BucketName :: string
  S3Location :: string
  S3SSL :: bool
  EnableMetrics :: bool
  CORSAllowedOrigins :: "string list"
  RedisURL :: string
  TokenFile :: string
  Cache :: CacheConfig
  CompressionEnabled :: bool
  Auth :: AuthConfig
  TokenStore :: TokenStoreConfig
  Upload :: UploadConfig

definition splitOrigins :: "string list \<Rightarrow> string list" where
  "splitOrigins raw =
     concat (map (\<lambda>item. filter (\<lambda>origin. origin \<noteq> '''') (map TrimSpace (Split item (CHR '','')))) raw)"

text \<open>The problems in the order in which \<open>validateConfig\<close> reports them.\<close>

definition problem_if :: "bool \<Rightarrow> config_problem \<Rightarrow> config_problem list" where
  "problem_if b p = (if b then [p] else [])"

definition secret_problems :: "string \<Rightarrow> config_problem list" where
  "secret_problems secret =
     (if secret = '''' then [NotSet ''secret'']
      else if length secret < 32 then [SecretTooShort (length secret)] else [])"

definition auth_problems :: "AuthConfig \<Rightarrow> config_problem list" where
  "auth_problems auth =
     (if auth_Mode auth = ''basic'' then []
      else if auth_Mode auth = ''oidc''
      then problem_if (oc_Issuer (auth_OIDC auth) = '''') (RequiredFor ''auth.oidc.issuer'' ''auth.mode'' ''oidc'') @
           problem_if (oc_ClientID (auth_OIDC auth) = '''') (RequiredFor ''auth.oidc.client_id'' ''auth.mode'' ''oidc'') @
           problem_if (oc_RedirectURL (auth_OIDC auth) = '''') (RequiredFor ''auth.oidc.redirect_url'' ''auth.mode'' ''oidc'')
      else [Unsupported ''auth.mode'' (auth_Mode auth)])"

definition config_problems :: "Configuration \<Rightarrow> config_problem list" where
  "config_problems config =
     (if auth_Mode (Auth config) = ''basic''
      then problem_if (AdminUser config = '''') (NotSet ''admin.user'') @
           problem_if (AdminPassword config = '''') (NotSet ''admin.password'')
      else []) @
     secret_problems (Secret config) @
     problem_if (S3Url config = '''') (NotSet ''s3.url'') @
     problem_if (S3Key config = '''') (NotSet ''s3.key'') @
     problem_if (S3Secret config = '''') (NotSet ''s3.secret'') @
     problem_if (S3Location config = '''') (NotSet ''s3.location'') @
     sizeProblem ''upload.max_size'' (uc_MaxSize (Upload config)) @
     sizeProblem ''upload.max_uncompressed_size'' (uc_MaxUncompressedSize (Upload config)) @
     problem_if (uc_MaxEntries (Upload config) \<le> 0) (NotPositive ''upload.max_entries'' (uc_MaxEntries (Upload config))) @
     (if cc_Enabled (Cache config)
      then problem_if (cc_Type (Cache config) \<noteq> ''redis'') (Unsupported ''cache.type'' (cc_Type (Cache config))) @
           problem_if (RedisURL config = '''') (RequiredFor ''redis_url'' ''cache.enabled'' ''true'')
      else []) @
     problem_if (tsc_Mode (TokenStore config) \<noteq> ''file'' \<and> tsc_Mode (TokenStore config) \<noteq> ''redis'' \<and> tsc_Mode (TokenStore config) \<noteq> ''postgres'')
       (Unsupported ''tokenStore.mode'' (tsc_Mode (TokenStore config))) @
     problem_if (tsc_Mode (TokenStore config) = ''redis'' \<and> RedisURL config = '''') (RequiredFor ''redis_url'' ''tokenStore.mode'' ''redis'') @
     problem_if (tsc_Mode (TokenStore config) = ''postgres'' \<and> tsc_PostgresURL (TokenStore config) = '''')
       (RequiredFor ''tokenStore.pg_url'' ''tokenStore.mode'' ''postgres'') @
     auth_problems (Auth config)"

definition validateConfig :: "Configuration \<Rightarrow> go_error option" where
  "validateConfig config = (if config_problems config = [] then None else Some (ConfigInvalid (config_problems config)))"

subsection \<open>Reading the configuration\<close>

text \<open>
  What \<open>NewConfig\<close> tells viper before it reads: the name and the directories of the file, the
  environment variable bound to each key, the defaults.
\<close>

datatype config_value = VString string | VBool bool | VInt int | VStrings "string list"

record viper_setup =
  vs_ConfigName :: string
  vs_ConfigPaths :: "string list"
  vs_Env :: "(string \<times> string) list"
  vs_Defaults :: "(string \<times> config_value) list"

definition config_env :: "(string \<times> string) list" where
  "config_env =
     [(''secret'', ''GIMME_SECRET''), (''admin.user'', ''GIMME_ADMIN_USER''), (''admin.password'', ''GIMME_ADMIN_PASSWORD''),
      (''s3.url'', ''GIMME_S3_URL''), (''s3.key'', ''GIMME_S3_KEY''), (''s3.secret'', ''GIMME_S3_SECRET''),
      (''s3.bucketName'', ''GIMME_S3_BUCKETNAME''), (''s3.location'', ''GIMME_S3_LOCATION''), (''s3.ssl'', ''GIMME_S3_SSL''),
      (''cors.allowed_origins'', ''GIMME_CORS_ALLOWED_ORIGINS''), (''port'', ''GIMME_APP_PORT''), (''metrics'', ''GIMME_METRICS''),
      (''redis_url'', ''GIMME_REDIS_URL''), (''token_file'', ''GIMME_TOKEN_FILE''), (''cache.enabled'', ''GIMME_CACHE_ENABLED''),
      (''compression.enabled'', ''GIMME_COMPRESSION_ENABLED''), (''cache.type'', ''GIMME_CACHE_TYPE''), (''cache.ttl'', ''GIMME_CACHE_TTL''),
      (''auth.mode'', ''GIMME_AUTH_MODE''), (''auth.oidc.issuer'', ''GIMME_AUTH_OIDC_ISSUER''),
      (''auth.oidc.client_id'', ''GIMME_AUTH_OIDC_CLIENT_ID''), (''auth.oidc.client_secret'', ''GIMME_AUTH_OIDC_CLIENT_SECRET''),
      (''auth.oidc.redirect_url'', ''GIMME_AUTH_OIDC_REDIRECT_URL''), (''auth.oidc.secure_cookies'', ''GIMME_AUTH_OIDC_SECURE_COOKIES''),
      (''tokenStore.mode'', ''GIMME_TOKENSTORE_MODE''), (''tokenStore.pg_url'', ''GIMME_TOKENSTORE_PG_URL''),
      (''upload.max_size'', ''GIMME_UPLOAD_MAX_SIZE''), (''upload.max_entries'', ''GIMME_UPLOAD_MAX_ENTRIES''),
      (''upload.max_uncompressed_size'', ''GIMME_UPLOAD_MAX_UNCOMPRESSED_SIZE'')]"

definition config_defaults :: "(string \<times> config_value) list" where
  "config_defaults =
     [(''port'', VString ''8080''), (''s3.bucketName'', VString ''gimme''), (''s3.ssl'', VBool True), (''metrics'', VBool True),
      (''cors.allowed_origins'', VStrings []), (''redis_url'', VString ''''), (''token_file'', VString ''/tmp/gimme-tokens.enc''),
      (''cache.enabled'', VBool False), (''compression.enabled'', VBool True), (''cache.type'', VString ''redis''),
      (''cache.ttl'', VInt 3600), (''auth.mode'', VString ''basic''), (''auth.oidc.secure_cookies'', VBool True),
      (''tokenStore.mode'', VString ''file''), (''upload.max_size'', VString ''100MB''), (''upload.max_entries'', VInt 10000),
      (''upload.max_uncompressed_size'', VString ''500MB'')]"

definition config_setup :: viper_setup where
  "config_setup = \<lparr>vs_ConfigName = ''gimme'', vs_ConfigPaths = [''.'', ''/config''], vs_Env = config_env, vs_Defaults = config_defaults\<rparr>"

datatype read_error = ConfigFileNotFound | ReadFailed string

record viper_pkg =
  vp_ReadInConfig :: "viper_setup \<Rightarrow> read_error option"
  vp_GetString :: "viper_setup \<Rightarrow> string \<Rightarrow> string"
  vp_GetBool :: "viper_setup \<Rightarrow> string \<Rightarrow> bool"
  vp_GetInt :: "viper_setup \<Rightarrow> string \<Rightarrow> int"
  vp_GetStringSlice :: "viper_setup \<Rightarrow> string \<Rightarrow> string list"

definition readSize :: "viper_pkg \<Rightarrow> viper_setup \<Rightarrow> string \<Rightarrow> Size" where
  "readSize vp setup k = size_of (vp_GetString vp setup k)"

definition read_config :: "viper_pkg \<Rightarrow> viper_setup \<Rightarrow> Configuration" where
  "read_config vp setup =
     \<lparr>AppPort = vp_GetString vp setup ''port'',
      AdminUser = vp_GetString vp setup ''admin.user'',
      AdminPassword = vp_GetString vp setup ''admin.password'',
      Secret = vp_GetString vp setup ''secret'',
      S3Url = vp_GetString vp setup ''s3.url'',
      S3Key = vp_GetString vp setup ''s3.key'',
      S3Secret = vp_GetString vp setup ''s3.secret'',
      S3BucketName = vp_GetString vp setup ''s3.bucketName'',
      S3Location = vp_GetString vp setup ''s3.location'',
      S3SSL = vp_GetBool vp setup ''s3.ssl'',
      EnableMetrics = vp_GetBool vp setup ''metrics'',
      CORSAllowedOrigins = splitOrigins (vp_GetStringSlice vp setup ''cors.allowed_origins''),
      RedisURL = vp_GetString vp setup ''redis_url'',
      TokenFile = vp_GetString vp setup ''token_file'',
      Cache = \<lparr>cc_Enabled = vp_GetBool vp setup ''cache.enabled'', cc_Type = vp_GetString vp setup ''cache.type'',
        cc_TTL = vp_GetInt vp setup ''cache.ttl''\<rparr>,
      CompressionEnabled = vp_GetBool vp setup ''compression.enabled'',
      Auth = \<lparr>auth_Mode = vp_GetString vp setup ''auth.mode'',
        auth_OIDC = \<lparr>oc_Issuer = vp_GetString vp setup ''auth.oidc.issuer'', oc_ClientID = vp_GetString vp setup ''auth.oidc.client_id'',
          oc_ClientSecret = vp_GetString vp setup ''auth.oidc.client_secret'', oc_RedirectURL = vp_GetString vp setup ''auth.oidc.redirect_url'',
          oc_SecureCookies = vp_GetBool vp setup ''auth.oidc.secure_cookies''\<rparr>\<rparr>,
      TokenStore = \<lparr>tsc_Mode = vp_GetString vp setup ''tokenStore.mode'', tsc_PostgresURL = vp_GetString vp setup ''tokenStore.pg_url''\<rparr>,
      Upload = \<lparr>uc_MaxSize = readSize vp setup ''upload.max_size'', uc_MaxEntries = vp_GetInt vp setup ''upload.max_entries'',
        uc_MaxUncompressedSize = readSize vp setup ''upload.max_uncompressed_size''\<rparr>\<rparr>"

definition NewConfig :: "viper_pkg \<Rightarrow> GimmeError + Configuration" where
  "NewConfig vp =
     (case vp_ReadInConfig vp config_setup of
        Some (ReadFailed _) \<Rightarrow> Inl (NewBusinessError InternalError ConfigUnreadable)
      | _ \<Rightarrow>
          (let config = read_config vp config_setup
           in case validateConfig config of
                Some err \<Rightarrow> Inl (NewBusinessError InternalError err)
              | None \<Rightarrow> Inr config))"

end
