(* ===== verification/Gimme_OIDC.thy ===== *)
theory Gimme_OIDC
  imports Gimme_Http "HOL-Library.Sublist"
begin

text \<open>
  The authentication providers of the administration pages (internal/auth/oidc-provider.go and
  basic-auth-provider.go): the authorization code flow with its state and nonce cookies, the
  session cookie and the middleware that checks it. The identity provider, the JWT library, the
  random source and gin's Basic middleware are arguments; log lines are left out.
\<close>

subsection \<open>Cookies\<close>

datatype same_site = SameSiteDefault | SameSiteLax

record set_cookie =
  sc_Name :: string
  sc_Value :: string
  sc_MaxAge :: int
  sc_Path :: string
  sc_Secure :: bool
  sc_HttpOnly :: bool
  sc_SameSite :: same_site

definition sessionCookieName :: string where "sessionCookieName = ''gimme_session''"
definition stateCookieName :: string where "stateCookieName = ''gimme_oidc_state''"
definition nonceCookieName :: string where "nonceCookieName = ''gimme_oidc_nonce''"
definition sessionCookieTTL :: int where "sessionCookieTTL = 8 * 3600 * 1000000000"
definition sessionJWTIssuer :: string where "sessionJWTIssuer = ''gimme''"
definition sessionJWTAudience :: string where "sessionJWTAudience = ''gimme-admin''"

subsection \<open>What the libraries do\<close>

record oidcClaims =
  cl_Email :: string
  cl_Name :: string
  cl_Issuer :: string
  cl_Subject :: string
  cl_Audience :: "string list"
  cl_ExpiresAt :: go_time
  cl_IssuedAt :: go_time

text \<open>
  The JWT library: \<open>SignedString\<close> for an algorithm, claims and a key; \<open>ParseWithClaims\<close>,
  which asks the key function for the key of the algorithm named in the token and says whether
  the token is valid at this instant.
\<close>

record jwt_pkg =
  jwt_SignedString :: "string \<Rightarrow> oidcClaims \<Rightarrow> string \<Rightarrow> go_error + string"
  jwt_ParseWithClaims :: "go_time \<Rightarrow> string \<Rightarrow> (string \<Rightarrow> string option) \<Rightarrow> go_error + (oidcClaims \<times> bool)"

record oauth2_config =
  oa_ClientID :: string
  oa_ClientSecret :: string
  oa_RedirectURL :: string
  oa_Endpoint :: string
  oa_Scopes :: "string list"

text \<open>The identity provider: discovery, the code exchange (with the \<open>id_token\<close> of the answer, if
  there is one), the verification of an ID token for a client, and the authorization URL.\<close>

record id_token =
  it_Nonce :: string
  it_Claims :: "go_error + oidcClaims"

record identity_provider =
  ip_Discover :: "string \<Rightarrow> go_error + string"
  ip_Exchange :: "oauth2_config \<Rightarrow> string \<Rightarrow> go_error + string option"
  ip_Verify :: "string \<Rightarrow> string \<Rightarrow> go_error + id_token"
  ip_AuthCodeURL :: "oauth2_config \<Rightarrow> string \<Rightarrow> string \<Rightarrow> string"

subsection \<open>The provider\<close>

record OIDCProvider =
  op_oauth2Config :: oauth2_config
  op_verifier :: string
  op_signingSecret :: string
  op_secureCookies :: bool

definition NewOIDCProvider ::
  "identity_provider \<Rightarrow> string \<Rightarrow> string \<Rightarrow> string \<Rightarrow> string \<Rightarrow> string \<Rightarrow> bool \<Rightarrow> go_error + OIDCProvider" where
  "NewOIDCProvider ip issuer clientID clientSecret redirectURL signingSecret secureCookies =
     (case ip_Discover ip issuer of
        Inl err \<Rightarrow> Inl (DiscoveryFailed issuer err)
      | Inr endpoint \<Rightarrow> Inr
          \<lparr>op_oauth2Config = \<lparr>oa_ClientID = clientID, oa_ClientSecret = clientSecret, oa_RedirectURL = redirectURL,
             oa_Endpoint = endpoint, oa_Scopes = [''openid'', ''profile'', ''email'']\<rparr>,
           op_verifier = clientID, op_signingSecret = signingSecret, op_secureCookies = secureCookies\<rparr>)"

text \<open>Whether the start warns about session cookies over plain HTTP; the argument reads the host of a
  URL that \<open>url.Parse\<close> accepts.\<close>

definition warnIfInsecureCookies :: "(string \<Rightarrow> string option) \<Rightarrow> string \<Rightarrow> bool \<Rightarrow> bool" where
  "warnIfInsecureCookies Hostname issuer secureCookies =
     (if secureCookies then False
      else (let host = (case Hostname issuer of None \<Rightarrow> issuer | Some h \<Rightarrow> h)
            in host \<notin> {''localhost'', ''127.0.0.1'', ''::1''}))"

text \<open>The key function of the middleware: any HMAC method is given the secret.\<close>

definition hmac_methods :: "string list" where "hmac_methods = [''HS256'', ''HS384'', ''HS512'']"

definition session_key :: "OIDCProvider \<Rightarrow> string \<Rightarrow> string option" where
  "session_key p alg = (if alg \<in> set hmac_methods then Some (op_signingSecret p) else None)"

definition contains_text :: "string \<Rightarrow> string \<Rightarrow> bool" where
  "contains_text s t \<longleftrightarrow> list_ex (\<lambda>r. prefix t r) (suffixes s)"

definition rejectUnauthenticated :: "request \<Rightarrow> response" where
  "rejectUnauthenticated rq =
     (if HasPrefix (rq_Path rq) ''/tokens'' \<or> contains_text (rq_Header rq ''Accept'') ''application/json''
      then respond 401 [] (ErrorText ''unauthenticated'')
      else respond 302 [(''Location'', ''/auth/login'')] NoBody)"

record identity =
  id_Sub :: string
  id_Email :: string
  id_Name :: string

text \<open>The middleware answers the request itself, or lets it through with the identity.\<close>

definition LoginMiddleware :: "jwt_pkg \<Rightarrow> OIDCProvider \<Rightarrow> go_time \<Rightarrow> request \<Rightarrow> response + identity" where
  "LoginMiddleware jwt p now rq =
     (case rq_Cookie rq sessionCookieName of
        None \<Rightarrow> Inl (rejectUnauthenticated rq)
      | Some cookie \<Rightarrow>
          (case jwt_ParseWithClaims jwt now cookie (session_key p) of
             Inl _ \<Rightarrow> Inl (rejectUnauthenticated rq)
           | Inr (claims, valid) \<Rightarrow>
               if \<not> valid then Inl (rejectUnauthenticated rq)
               else if \<not> (cl_Issuer claims = sessionJWTIssuer \<and> sessionJWTAudience \<in> set (cl_Audience claims))
               then Inl (rejectUnauthenticated rq)
               else Inr \<lparr>id_Sub = cl_Subject claims, id_Email = cl_Email claims, id_Name = cl_Name claims\<rparr>))"

subsection \<open>Login\<close>

text \<open>\<open>base64.RawURLEncoding\<close>: six bits per character, no padding.\<close>

definition base64url_char :: "nat \<Rightarrow> char" where
  "base64url_char n = (''ABCDEFGHIJKLMNOPQRSTUVWXYZabcdefghijklmnopqrstuvwxyz0123456789-_'') ! (n mod 64)"

fun base64url :: "nat list \<Rightarrow> string" where
  "base64url [] = ''''"
| "base64url [a] = [base64url_char (a div 4), base64url_char (a mod 4 * 16)]"
| "base64url [a, b] = [base64url_char (a div 4), base64url_char (a mod 4 * 16 + b div 16), base64url_char (b mod 16 * 4)]"
| "base64url (a # b # c # s) =
     [base64url_char (a div 4), base64url_char (a mod 4 * 16 + b div 16), base64url_char (b mod 16 * 4 + c div 64),
      base64url_char (c mod 64)] @ base64url s"

definition generateRandomState :: "(nat \<Rightarrow> go_error + string) \<Rightarrow> go_error + string" where
  "generateRandomState rand = map_sum id (\<lambda>b. base64url (map of_char b)) (rand 16)"

definition oidc_cookie :: "OIDCProvider \<Rightarrow> same_site \<Rightarrow> string \<Rightarrow> string \<Rightarrow> int \<Rightarrow> set_cookie" where
  "oidc_cookie p mode name val maxAge =
     \<lparr>sc_Name = name, sc_Value = val, sc_MaxAge = maxAge, sc_Path = ''/'', sc_Secure = op_secureCookies p, sc_HttpOnly = True, sc_SameSite = mode\<rparr>"

text \<open>The two draws from the random source are two arguments.\<close>

definition handleLogin ::
  "identity_provider \<Rightarrow> OIDCProvider \<Rightarrow> (nat \<Rightarrow> go_error + string) \<Rightarrow> (nat \<Rightarrow> go_error + string) \<Rightarrow> response \<times> set_cookie list" where
  "handleLogin ip p rand1 rand2 =
     (case generateRandomState rand1 of
        Inl _ \<Rightarrow> (respond 500 [] (ErrorText ''internal error''), [])
      | Inr state \<Rightarrow>
          (case generateRandomState rand2 of
             Inl _ \<Rightarrow> (respond 500 [] (ErrorText ''internal error''), [])
           | Inr nonce \<Rightarrow>
               (respond 302 [(''Location'', ip_AuthCodeURL ip (op_oauth2Config p) state nonce)] NoBody,
                [oidc_cookie p SameSiteLax stateCookieName state 300, oidc_cookie p SameSiteLax nonceCookieName nonce 300])))"

subsection \<open>Callback\<close>

definition issueSessionCookie :: "jwt_pkg \<Rightarrow> OIDCProvider \<Rightarrow> go_time \<Rightarrow> string \<Rightarrow> string \<Rightarrow> string \<Rightarrow> go_error + string" where
  "issueSessionCookie jwt p now sub email name =
     jwt_SignedString jwt ''HS256''
       \<lparr>cl_Email = email, cl_Name = name, cl_Issuer = sessionJWTIssuer, cl_Subject = sub, cl_Audience = [sessionJWTAudience],
        cl_ExpiresAt = truncate_second (now + sessionCookieTTL), cl_IssuedAt = truncate_second now\<rparr> (op_signingSecret p)"

definition clear_cookies :: "OIDCProvider \<Rightarrow> set_cookie list" where
  "clear_cookies p = [oidc_cookie p SameSiteDefault stateCookieName '''' (- 1), oidc_cookie p SameSiteDefault nonceCookieName '''' (- 1)]"

definition handleCallback ::
  "identity_provider \<Rightarrow> jwt_pkg \<Rightarrow> OIDCProvider \<Rightarrow> go_time \<Rightarrow> request \<Rightarrow> response \<times> set_cookie list" where
  "handleCallback ip jwt p now rq =
     (let stateOK = (case rq_Cookie rq stateCookieName of None \<Rightarrow> False | Some stateCookie \<Rightarrow> stateCookie = rq_Query rq ''state'')
      in if \<not> stateOK then (respond 400 [] (ErrorText ''invalid state''), clear_cookies p)
         else (case ip_Exchange ip (op_oauth2Config p) (rq_Query rq ''code'') of
            Inl _ \<Rightarrow> (respond 502 [] (ErrorText ''token exchange failed''), clear_cookies p)
          | Inr None \<Rightarrow> (respond 500 [] (ErrorText ''id_token missing''), clear_cookies p)
          | Inr (Some rawIDToken) \<Rightarrow>
              (case ip_Verify ip (op_verifier p) rawIDToken of
                 Inl _ \<Rightarrow> (respond 401 [] (ErrorText ''id_token verification failed''), clear_cookies p)
               | Inr idToken \<Rightarrow>
                   (let nonceOK = (case rq_Cookie rq nonceCookieName of None \<Rightarrow> False
                          | Some nonceCookie \<Rightarrow> nonceCookie \<noteq> '''' \<and> it_Nonce idToken = nonceCookie)
                    in if \<not> nonceOK then (respond 400 [] (ErrorText ''invalid nonce''), clear_cookies p)
                       else (case it_Claims idToken of
                          Inl _ \<Rightarrow> (respond 500 [] (ErrorText ''internal error''), clear_cookies p)
                        | Inr idClaims \<Rightarrow>
                            (case issueSessionCookie jwt p now (cl_Subject idClaims) (cl_Email idClaims) (cl_Name idClaims) of
                               Inl _ \<Rightarrow> (respond 500 [] (ErrorText ''internal error''), clear_cookies p)
                             | Inr sessionJWT \<Rightarrow>
                                 (respond 302 [(''Location'', ''/admin'')] NoBody,
                                  clear_cookies p @
                                  [oidc_cookie p SameSiteLax sessionCookieName sessionJWT (sessionCookieTTL div 1000000000)])))))))"

subsection \<open>Basic authentication\<close>

text \<open>The accounts handed to gin's middleware, which is an argument.\<close>

record BasicAuthProvider =
  ba_accounts :: "(string \<times> string) list"

definition NewBasicAuthProvider :: "string \<Rightarrow> string \<Rightarrow> BasicAuthProvider" where
  "NewBasicAuthProvider user password = \<lparr>ba_accounts = [(user, password)]\<rparr>"

text \<open>Either provider, as the login of the administration routes.\<close>

datatype AuthProvider = BasicProvider BasicAuthProvider | OIDC OIDCProvider

definition provider_login ::
  "((string \<times> string) list \<Rightarrow> request \<Rightarrow> response option) \<Rightarrow> jwt_pkg \<Rightarrow> AuthProvider \<Rightarrow> go_time \<Rightarrow> request \<Rightarrow> response option" where
  "provider_login BasicAuth jwt provider now rq =
     (case provider of
        BasicProvider b \<Rightarrow> BasicAuth (ba_accounts b) rq
      | OIDC p \<Rightarrow> (case LoginMiddleware jwt p now rq of Inl r \<Rightarrow> Some r | Inr _ \<Rightarrow> None))"

end
