(* ===== verification/Gimme_PGStore.thy ===== *)
theory Gimme_PGStore
  imports Gimme_TokenRef
begin

text \<open>
  The PostgreSQL token store, internal/auth/pg-token-store.go. The pool is an argument
  (\<open>pg_pool\<close>); each SQL statement of the store is a constructor of \<open>pg_stmt\<close>, whose
  meaning on the rows of the table gimme_tokens is \<open>stmt_rows\<close>. PostgreSQL keeps
  microseconds; the locale \<open>pg_tokens\<close> says what the pool documents, and the store is
  proved to meet the contract \<open>token_store\<close> at that resolution.
\<close>

subsection \<open>Rows and statements\<close>

record pg_row =
  col_id :: string
  col_name :: string
  col_token_hash :: string
  col_created_at :: go_time
  col_expires_at :: "go_time option"
  col_revoked_at :: "go_time option"

datatype pg_stmt = CreateTable | InsertToken pg_row | UpdateRevoked go_time string | DeleteToken string | DeleteExpired

record 'p pg_pool =
  pg_Exec :: "pg_stmt \<Rightarrow> 'p \<Rightarrow> (go_error + int) \<times> 'p"
  pg_QueryRow :: "string \<Rightarrow> 'p \<Rightarrow> (go_error + pg_row) \<times> 'p"
  pg_Query :: "'p \<Rightarrow> (go_error + (go_error + pg_row) list) \<times> 'p"

definition nullableTime :: "go_time \<Rightarrow> go_time option" where
  "nullableTime t = (if IsZero t then None else Some t)"

text \<open>\<open>scanRow\<close> and \<open>scanRows\<close>: a column that is NULL leaves the zero time.\<close>

definition scanRow :: "go_error + pg_row \<Rightarrow> go_error + TokenEntry" where
  "scanRow row =
     (case row of
        Inl err \<Rightarrow> Inl err
      | Inr r \<Rightarrow>
          Inr \<lparr>te_ID = col_id r, te_Name = col_name r, TokenHash = col_token_hash r, CreatedAt = col_created_at r,
               ExpiresAt = (case col_expires_at r of None \<Rightarrow> 0 | Some t \<Rightarrow> t),
               RevokedAt = (case col_revoked_at r of None \<Rightarrow> 0 | Some t \<Rightarrow> t)\<rparr>)"

definition scanRows :: "go_error + pg_row \<Rightarrow> go_error + TokenEntry" where
  "scanRows rows =
     (case rows of
        Inl err \<Rightarrow> Inl err
      | Inr r \<Rightarrow>
          Inr \<lparr>te_ID = col_id r, te_Name = col_name r, TokenHash = col_token_hash r, CreatedAt = col_created_at r,
               ExpiresAt = (case col_expires_at r of None \<Rightarrow> 0 | Some t \<Rightarrow> t),
               RevokedAt = (case col_revoked_at r of None \<Rightarrow> 0 | Some t \<Rightarrow> t)\<rparr>)"

subsection \<open>The operations\<close>

record 'p PGTokenStore =
  pg_pool_of :: "'p pg_pool"
  pg_stopped :: bool

definition NewPGTokenStore :: "'p pg_pool \<Rightarrow> 'p \<Rightarrow> (go_error + 'p PGTokenStore) \<times> 'p" where
  "NewPGTokenStore pool p =
     (case pg_Exec pool CreateTable p of
        (Inl err, p') \<Rightarrow> (Inl (CreateTableFailed err), p')
      | (Inr _, p') \<Rightarrow> (Inr \<lparr>pg_pool_of = pool, pg_stopped = False\<rparr>, p'))"

definition entry_row :: "TokenEntry \<Rightarrow> pg_row" where
  "entry_row e = \<lparr>col_id = te_ID e, col_name = te_Name e, col_token_hash = TokenHash e, col_created_at = CreatedAt e,
     col_expires_at = nullableTime (ExpiresAt e), col_revoked_at = nullableTime (RevokedAt e)\<rparr>"

definition pg_Save :: "'p pg_pool \<Rightarrow> TokenEntry \<Rightarrow> 'p \<Rightarrow> go_error option \<times> 'p" where
  "pg_Save pool entry p =
     (case pg_Exec pool (InsertToken (entry_row entry)) p of
        (Inl err, p') \<Rightarrow> (Some (SavingEntryFailed err), p')
      | (Inr _, p') \<Rightarrow> (None, p'))"

definition pg_GetByHash :: "'p pg_pool \<Rightarrow> string \<Rightarrow> 'p \<Rightarrow> TokenEntry option \<times> 'p" where
  "pg_GetByHash pool hash p =
     (case pg_QueryRow pool hash p of
        (row, p') \<Rightarrow> (case scanRow row of Inl _ \<Rightarrow> (None, p') | Inr entry \<Rightarrow> (Some entry, p')))"

fun pg_list_loop :: "(go_error + pg_row) list \<Rightarrow> TokenEntry list \<Rightarrow> TokenEntry list" where
  "pg_list_loop [] entries = entries"
| "pg_list_loop (row # rows) entries =
     (case scanRows row of Inl _ \<Rightarrow> [] | Inr entry \<Rightarrow> pg_list_loop rows (entries @ [entry]))"

definition pg_List :: "'p pg_pool \<Rightarrow> 'p \<Rightarrow> TokenEntry list \<times> 'p" where
  "pg_List pool p =
     (case pg_Query pool p of
        (Inl _, p') \<Rightarrow> ([], p')
      | (Inr rows, p') \<Rightarrow> (pg_list_loop rows [], p'))"

definition pg_Revoke :: "'p pg_pool \<Rightarrow> go_time \<Rightarrow> string \<Rightarrow> 'p \<Rightarrow> bool \<times> 'p" where
  "pg_Revoke pool now i p =
     (case pg_Exec pool (UpdateRevoked now i) p of
        (Inl _, p') \<Rightarrow> (False, p')
      | (Inr n, p') \<Rightarrow> (0 < n, p'))"

definition pg_Delete :: "'p pg_pool \<Rightarrow> string \<Rightarrow> 'p \<Rightarrow> bool \<times> 'p" where
  "pg_Delete pool i p =
     (case pg_Exec pool (DeleteToken i) p of
        (Inl _, p') \<Rightarrow> (False, p')
      | (Inr n, p') \<Rightarrow> (0 < n, p'))"

definition pg_purgeExpired :: "'p pg_pool \<Rightarrow> 'p \<Rightarrow> 'p" where
  "pg_purgeExpired pool p = snd (pg_Exec pool DeleteExpired p)"

datatype pg_purge_event = PGTick | PGStop

fun pg_purgeLoop :: "'p pg_pool \<Rightarrow> pg_purge_event list \<Rightarrow> 'p \<Rightarrow> 'p" where
  "pg_purgeLoop pool [] p = p"
| "pg_purgeLoop pool (PGStop # events) p = p"
| "pg_purgeLoop pool (PGTick # events) p = pg_purgeLoop pool events (pg_purgeExpired pool p)"

definition pg_Close :: "'p PGTokenStore \<Rightarrow> 'p PGTokenStore" where
  "pg_Close s = (if pg_stopped s then s else s\<lparr>pg_stopped := True\<rparr>)"

definition pg_iface :: "'p pg_pool \<Rightarrow> 'p token_iface" where
  "pg_iface pool = \<lparr>ts_Save = pg_Save pool, ts_GetByHash = pg_GetByHash pool, ts_List = pg_List pool,
     ts_Revoke = pg_Revoke pool, ts_Delete = pg_Delete pool\<rparr>"

subsection \<open>What the pool documents\<close>

definition pg_stamp :: "go_time \<Rightarrow> go_time" where
  "pg_stamp t = t div 1000 * 1000"

definition stamp_row :: "pg_row \<Rightarrow> pg_row" where
  "stamp_row r = r\<lparr>col_created_at := pg_stamp (col_created_at r), col_expires_at := map_option pg_stamp (col_expires_at r),
     col_revoked_at := map_option pg_stamp (col_revoked_at r)\<rparr>"

definition row_expired :: "go_time \<Rightarrow> pg_row \<Rightarrow> bool" where
  "row_expired now r \<longleftrightarrow> (case col_expires_at r of None \<Rightarrow> False | Some t \<Rightarrow> t < now)"

fun stmt_rows :: "pg_stmt \<Rightarrow> go_time \<Rightarrow> pg_row set \<Rightarrow> pg_row set" where
  "stmt_rows CreateTable now rs = rs"
| "stmt_rows (InsertToken r) now rs =
     (if \<exists>r' \<in> rs. col_id r' = col_id r \<or> col_token_hash r' = col_token_hash r then rs else insert (stamp_row r) rs)"
| "stmt_rows (UpdateRevoked t i) now rs = (\<lambda>r. if col_id r = i then r\<lparr>col_revoked_at := Some (pg_stamp t)\<rparr> else r) ` rs"
| "stmt_rows (DeleteToken i) now rs = {r \<in> rs. col_id r \<noteq> i}"
| "stmt_rows DeleteExpired now rs = {r \<in> rs. \<not> row_expired now r}"

definition pg_unique :: "pg_row set \<Rightarrow> bool" where
  "pg_unique rs \<longleftrightarrow> (\<forall>r \<in> rs. \<forall>r' \<in> rs. col_id r = col_id r' \<or> col_token_hash r = col_token_hash r' \<longrightarrow> r = r')"

locale pg_tokens =
  fixes pool :: "'p pg_pool" and rows :: "'p \<Rightarrow> pg_row set"
  assumes exec_done: "pg_Exec pool st p = (Inr n, p') \<Longrightarrow> \<exists>now. rows p' = stmt_rows st now (rows p)"
    and exec_failed: "pg_Exec pool st p = (Inl err, p') \<Longrightarrow> \<exists>now. rows p' = rows p \<or> rows p' = stmt_rows st now (rows p)"
    and query_row_keeps: "rows (snd (pg_QueryRow pool h p)) = rows p"
    and query_row: "fst (pg_QueryRow pool h p) = Inr r \<Longrightarrow> r \<in> rows p \<and> col_token_hash r = h"
    and query_keeps: "rows (snd (pg_Query pool p)) = rows p"

subsection \<open>The view of the table\<close>

definition row_entry :: "pg_row \<Rightarrow> TokenEntry" where
  "row_entry r = \<lparr>te_ID = col_id r, te_Name = col_name r, TokenHash = col_token_hash r, CreatedAt = col_created_at r,
     ExpiresAt = (case col_expires_at r of None \<Rightarrow> 0 | Some t \<Rightarrow> t), RevokedAt = (case col_revoked_at r of None \<Rightarrow> 0 | Some t \<Rightarrow> t)\<rparr>"

definition pg_view :: "pg_row set \<Rightarrow> (string \<rightharpoonup> TokenEntry)" where
  "pg_view rs h = (if \<exists>r \<in> rs. col_token_hash r = h then Some (row_entry (THE r. r \<in> rs \<and> col_token_hash r = h)) else None)"

definition pg_fresh :: "pg_row set \<Rightarrow> TokenEntry \<Rightarrow> bool" where
  "pg_fresh rs e \<longleftrightarrow> (\<forall>r \<in> rs. col_id r \<noteq> te_ID e \<and> col_token_hash r \<noteq> TokenHash e)"

lemma scan_row_entry [simp]: "scanRow (Inr r) = Inr (row_entry r)" "scanRows (Inr r) = Inr (row_entry r)"
  by (simp_all add: scanRow_def scanRows_def row_entry_def)

lemma row_entry_simps [simp]: "te_ID (row_entry r) = col_id r" "TokenHash (row_entry r) = col_token_hash r"
  by (simp_all add: row_entry_def)

lemma row_entry_revoked [simp]: "row_entry (r\<lparr>col_revoked_at := Some t\<rparr>) = (row_entry r)\<lparr>RevokedAt := t\<rparr>"
  by (simp add: row_entry_def)

lemma pg_view_Some:
  assumes "pg_unique rs"
  shows "pg_view rs h = Some e \<longleftrightarrow> (\<exists>r \<in> rs. col_token_hash r = h \<and> row_entry r = e)"
proof -
  have the: "(THE r'. r' \<in> rs \<and> col_token_hash r' = h) = r" if "r \<in> rs" "col_token_hash r = h" for r
    using that assms unfolding pg_unique_def by (intro the_equality) auto
  then show ?thesis by (auto simp: pg_view_def)
qed

lemma pg_view_None: "pg_view rs h = None \<longleftrightarrow> (\<forall>r \<in> rs. col_token_hash r \<noteq> h)"
  by (auto simp: pg_view_def)

lemma new_row_new_view:
  assumes "h \<in> col_token_hash ` set rs'" and "h \<notin> col_token_hash ` set rs"
  shows "\<not> pg_view (set rs') \<subseteq>\<^sub>m pg_view (set rs)"
proof
  assume le: "pg_view (set rs') \<subseteq>\<^sub>m pg_view (set rs)"
  from assms(1) have "pg_view (set rs') h \<noteq> None" by (auto simp: pg_view_None)
  then have "pg_view (set rs) h \<noteq> None" using map_le_SomeD [OF le] by blast
  then have "h \<in> col_token_hash ` set rs" unfolding pg_view_None by (metis image_eqI)
  with assms(2) show False by (rule notE)
qed

lemma pg_view_le:
  assumes "pg_unique rs" and "pg_unique rs'" and "\<And>r. r \<in> rs' \<Longrightarrow> r \<in> rs"
  shows "pg_view rs' \<subseteq>\<^sub>m pg_view rs"
proof -
  have "pg_view rs h = Some e" if "pg_view rs' h = Some e" for h e
    using that assms by (auto simp: pg_view_Some)
  then show ?thesis by (auto simp: map_le_def)
qed

lemma row_entry_stamp: "row_entry (stamp_row (entry_row e)) = stamp_entry pg_stamp e"
  by (simp add: row_entry_def stamp_row_def entry_row_def stamp_entry_def nullableTime_def IsZero_def pg_stamp_def)

lemma stmt_rows_unique: "pg_unique rs \<Longrightarrow> pg_unique (stmt_rows st now rs)"
proof (cases st)
  case (InsertToken r)
  assume "pg_unique rs"
  then show ?thesis unfolding InsertToken pg_unique_def by (auto simp: stamp_row_def)
next
  case (UpdateRevoked t i)
  define f :: "pg_row \<Rightarrow> pg_row" where "f = (\<lambda>r. if col_id r = i then r\<lparr>col_revoked_at := Some (pg_stamp t)\<rparr> else r)"
  have keep: "col_id (f r) = col_id r" "col_token_hash (f r) = col_token_hash r" for r by (simp_all add: f_def)
  assume u: "pg_unique rs"
  show ?thesis
    unfolding UpdateRevoked stmt_rows.simps f_def [symmetric] pg_unique_def
  proof (intro ballI impI)
    fix x y
    assume "x \<in> f ` rs" "y \<in> f ` rs" and xy: "col_id x = col_id y \<or> col_token_hash x = col_token_hash y"
    then obtain r s where rs: "r \<in> rs" "s \<in> rs" "x = f r" "y = f s" by blast
    with xy have "col_id r = col_id s \<or> col_token_hash r = col_token_hash s" by (simp add: keep)
    with u rs show "x = y" unfolding pg_unique_def by blast
  qed
qed (auto simp: pg_unique_def)

lemma insert_view:
  assumes "pg_unique rs" and "pg_fresh rs e"
  shows "pg_view (stmt_rows (InsertToken (entry_row e)) now rs) \<subseteq>\<^sub>m (pg_view rs)(TokenHash e \<mapsto> stamp_entry pg_stamp e)"
proof -
  have new: "stmt_rows (InsertToken (entry_row e)) now rs = insert (stamp_row (entry_row e)) rs"
    using assms(2) by (auto simp: pg_fresh_def entry_row_def)
  have u: "pg_unique (insert (stamp_row (entry_row e)) rs)" using stmt_rows_unique [OF assms(1), of "InsertToken (entry_row e)" now] unfolding new .
  have "((pg_view rs)(TokenHash e \<mapsto> stamp_entry pg_stamp e)) h = Some x" if x: "pg_view (insert (stamp_row (entry_row e)) rs) h = Some x" for h x
  proof -
    obtain r where r: "r = stamp_row (entry_row e) \<or> r \<in> rs" "col_token_hash r = h" "row_entry r = x"
      using x unfolding pg_view_Some [OF u] by auto
    show ?thesis
    proof (cases "r = stamp_row (entry_row e)")
      case True
      with r row_entry_stamp [of e] show ?thesis by (auto simp: stamp_row_def entry_row_def)
    next
      case False
      with r have "pg_view rs h = Some x" using pg_view_Some [OF assms(1)] by blast
      moreover have "h \<noteq> TokenHash e" using False r assms(2) by (auto simp: pg_fresh_def)
      ultimately show ?thesis by simp
    qed
  qed
  then show ?thesis unfolding new by (rule map_le_SomeI)
qed

lemma update_view:
  assumes "pg_unique rs" and "pg_view (stmt_rows (UpdateRevoked now i) t rs) h = Some e'"
  shows "\<exists>e. pg_view rs h = Some e \<and> e' = (if te_ID e = i then e\<lparr>RevokedAt := pg_stamp now\<rparr> else e)"
proof -
  obtain r where "r \<in> rs" "col_token_hash r = h" "e' = row_entry (if col_id r = i then r\<lparr>col_revoked_at := Some (pg_stamp now)\<rparr> else r)"
    using assms(2) unfolding pg_view_Some [OF stmt_rows_unique [OF assms(1)]] by fastforce
  then have "pg_view rs h = Some (row_entry r) \<and> e' = (if te_ID (row_entry r) = i then (row_entry r)\<lparr>RevokedAt := pg_stamp now\<rparr> else row_entry r)"
    using pg_view_Some [OF assms(1)] by auto
  then show ?thesis by blast
qed

subsection \<open>The store meets the contract\<close>

context pg_tokens
begin

lemma exec_rows: "\<exists>now. rows (snd (pg_Exec pool st p)) = rows p \<or> rows (snd (pg_Exec pool st p)) = stmt_rows st now (rows p)"
  using exec_done [of st p] exec_failed [of st p] by (cases "pg_Exec pool st p"; cases "fst (pg_Exec pool st p)") auto

lemma exec_unique: "pg_unique (rows p) \<Longrightarrow> pg_unique (rows (snd (pg_Exec pool st p)))"
  using exec_rows [of st p] stmt_rows_unique [of "rows p" st] by metis

lemma op_rows:
  "snd (pg_Save pool e p) = snd (pg_Exec pool (InsertToken (entry_row e)) p)"
  "snd (pg_Revoke pool now i p) = snd (pg_Exec pool (UpdateRevoked now i) p)"
  "snd (pg_Delete pool i p) = snd (pg_Exec pool (DeleteToken i) p)"
  "snd (pg_GetByHash pool h p) = snd (pg_QueryRow pool h p)"
  "snd (pg_List pool p) = snd (pg_Query pool p)"
  by (simp_all add: pg_Save_def pg_Revoke_def pg_Delete_def pg_GetByHash_def pg_List_def split: prod.splits sum.splits)

lemma op_done:
  "fst (pg_Revoke pool now i p) \<Longrightarrow> \<exists>t. rows (snd (pg_Exec pool (UpdateRevoked now i) p)) = stmt_rows (UpdateRevoked now i) t (rows p)"
  "fst (pg_Delete pool i p) \<Longrightarrow> \<exists>t. rows (snd (pg_Exec pool (DeleteToken i) p)) = stmt_rows (DeleteToken i) t (rows p)"
  using exec_done [of "UpdateRevoked now i" p] exec_done [of "DeleteToken i" p]
  by (auto simp: pg_Revoke_def pg_Delete_def split: prod.splits sum.splits)

lemma meets_token_store:
  "token_store (pg_iface pool) (\<lambda>_. pg_purgeExpired pool) pg_stamp (\<lambda>p. pg_fresh (rows p)) (\<lambda>p. pg_unique (rows p)) (\<lambda>p. pg_view (rows p))"
proof
  have ops: "ts_Save (pg_iface pool) = pg_Save pool" "ts_GetByHash (pg_iface pool) = pg_GetByHash pool" "ts_List (pg_iface pool) = pg_List pool"
    "ts_Revoke (pg_iface pool) = pg_Revoke pool" "ts_Delete (pg_iface pool) = pg_Delete pool" by (simp_all add: pg_iface_def)
  show "pg_stamp 0 = 0" and "1000 \<le> x \<Longrightarrow> 0 < pg_stamp x" for x by (simp_all add: pg_stamp_def)
  show "TokenHash e = h" if "pg_unique (rows t)" "pg_view (rows t) h = Some e" for t h e
    using that pg_view_Some by fastforce
  show "pg_unique (rows (snd (ts_Save (pg_iface pool) e t)))" if "pg_unique (rows t)" for t e
    using exec_unique [OF that] by (simp add: ops op_rows)
  show "pg_view (rows (snd (ts_Save (pg_iface pool) e t))) \<subseteq>\<^sub>m (pg_view (rows t))(TokenHash e \<mapsto> stamp_entry pg_stamp e)"
    if "pg_unique (rows t)" "pg_fresh (rows t) e" for t e
  proof -
    have "pg_view (rows t) (TokenHash e) = None" using that(2) by (auto simp: pg_view_def pg_fresh_def)
    then have "pg_view (rows t) \<subseteq>\<^sub>m (pg_view (rows t))(TokenHash e \<mapsto> stamp_entry pg_stamp e)" by (auto simp: map_le_def)
    then show ?thesis using exec_rows [of "InsertToken (entry_row e)" t] insert_view [OF that] by (auto simp only: ops op_rows)
  qed
  show "pg_unique (rows (snd (ts_GetByHash (pg_iface pool) h t))) \<and> pg_view (rows (snd (ts_GetByHash (pg_iface pool) h t))) \<subseteq>\<^sub>m pg_view (rows t)"
    if "pg_unique (rows t)" for t h
    using that by (simp add: ops op_rows query_row_keeps)
  show "pg_view (rows t) h = Some e" if "pg_unique (rows t)" "fst (ts_GetByHash (pg_iface pool) h t) = Some e" for t h e
    using that(2) query_row [of h t] pg_view_Some [OF that(1), of h e]
    by (auto simp: ops pg_GetByHash_def scanRow_def row_entry_def split: prod.splits sum.splits)
  show "pg_unique (rows (snd (ts_List (pg_iface pool) t))) \<and> pg_view (rows (snd (ts_List (pg_iface pool) t))) \<subseteq>\<^sub>m pg_view (rows t)"
    if "pg_unique (rows t)" for t
    using that by (simp add: ops op_rows query_keeps)
  show "pg_unique (rows (snd (ts_Revoke (pg_iface pool) now i t)))" if "pg_unique (rows t)" for t now i
    using exec_unique [OF that] by (simp add: ops op_rows)
  show "\<exists>e. pg_view (rows t) h = Some e \<and> (e' = e \<or> te_ID e = i \<and> e' = e\<lparr>RevokedAt := pg_stamp now\<rparr>)"
    if "pg_unique (rows t)" "pg_view (rows (snd (ts_Revoke (pg_iface pool) now i t))) h = Some e'" for t now i h e'
  proof -
    have view: "pg_view (rows (snd (pg_Exec pool (UpdateRevoked now i) t))) h = Some e'" using that(2) by (simp add: ops op_rows)
    consider "pg_view (rows t) h = Some e'"
      | x where "pg_view (stmt_rows (UpdateRevoked now i) x (rows t)) h = Some e'"
      using exec_rows [of "UpdateRevoked now i" t] view by fastforce
    then show ?thesis
    proof cases
      case (2 x)
      from update_view [OF that(1) 2] show ?thesis by (auto split: if_split_asm)
    qed blast
  qed
  show "RevokedAt e' = pg_stamp now"
    if "pg_unique (rows t)" "fst (ts_Revoke (pg_iface pool) now i t)" "pg_view (rows (snd (ts_Revoke (pg_iface pool) now i t))) h = Some e'" "te_ID e' = i"
    for t now i h e'
  proof -
    note revoked = that
    obtain x where "pg_view (stmt_rows (UpdateRevoked now i) x (rows t)) h = Some e'"
      using op_done(1) [of now i t] revoked(2,3) by (auto simp: ops op_rows)
    then obtain e where "e' = (if te_ID e = i then e\<lparr>RevokedAt := pg_stamp now\<rparr> else e)"
      using update_view [OF revoked(1)] by blast
    with revoked(4) show ?thesis by (cases "te_ID e = i") simp_all
  qed
  have shrink: "pg_view (rows (snd (pg_Exec pool st t))) \<subseteq>\<^sub>m pg_view (rows t)"
    if "pg_unique (rows t)" "\<And>now. stmt_rows st now (rows t) \<subseteq> rows t" for st t
    using exec_rows [of st t] that by (intro pg_view_le [OF that(1) exec_unique [OF that(1)]]) blast
  show "pg_unique (rows (snd (ts_Delete (pg_iface pool) i t))) \<and> pg_view (rows (snd (ts_Delete (pg_iface pool) i t))) \<subseteq>\<^sub>m pg_view (rows t)"
    if "pg_unique (rows t)" for t i
    using exec_unique [OF that] shrink [OF that, of "DeleteToken i"] by (simp add: ops op_rows)
  show "te_ID e' \<noteq> i"
    if "pg_unique (rows t)" "fst (ts_Delete (pg_iface pool) i t)" "pg_view (rows (snd (ts_Delete (pg_iface pool) i t))) h = Some e'" for t i h e'
  proof -
    note deleted = that
    obtain x where "pg_view (stmt_rows (DeleteToken i) x (rows t)) h = Some e'"
      using op_done(2) [of i t] deleted(2,3) by (auto simp: ops op_rows)
    then show ?thesis unfolding pg_view_Some [OF stmt_rows_unique [OF deleted(1)]] by auto
  qed
  show "pg_unique (rows (pg_purgeExpired pool t)) \<and> pg_view (rows (pg_purgeExpired pool t)) \<subseteq>\<^sub>m pg_view (rows t)"
    if "pg_unique (rows t)" for t
    using exec_unique [OF that] shrink [OF that, of DeleteExpired] by (simp add: pg_purgeExpired_def)
qed

end

sublocale pg_tokens \<subseteq> store: token_store "pg_iface pool" "\<lambda>_. pg_purgeExpired pool" pg_stamp "\<lambda>p. pg_fresh (rows p)"
    "\<lambda>p. pg_unique (rows p)" "\<lambda>p. pg_view (rows p)"
  by (rule meets_token_store)

subsection \<open>A reference table\<close>

type_synonym mem_pg = "pg_row list \<times> go_time"

fun mem_stmt :: "pg_stmt \<Rightarrow> mem_pg \<Rightarrow> (go_error + int) \<times> mem_pg" where
  "mem_stmt CreateTable w = (Inr 0, w)"
| "mem_stmt (InsertToken r) (rs, now) =
     (if list_ex (\<lambda>r'. col_id r' = col_id r \<or> col_token_hash r' = col_token_hash r) rs
      then (Inl (External ''duplicate key value violates unique constraint''), (rs, now))
      else (Inr 1, (stamp_row r # rs, now)))"
| "mem_stmt (UpdateRevoked t i) (rs, now) =
     (Inr (int (length (filter (\<lambda>r. col_id r = i) rs))),
      (map (\<lambda>r. if col_id r = i then r\<lparr>col_revoked_at := Some (pg_stamp t)\<rparr> else r) rs, now))"
| "mem_stmt (DeleteToken i) (rs, now) = (Inr (int (length (filter (\<lambda>r. col_id r = i) rs))), (filter (\<lambda>r. col_id r \<noteq> i) rs, now))"
| "mem_stmt DeleteExpired (rs, now) = (Inr (int (length (filter (row_expired now) rs))), (filter (\<lambda>r. \<not> row_expired now r) rs, now))"

definition mem_pg_pool :: "mem_pg pg_pool" where
  "mem_pg_pool = \<lparr>pg_Exec = mem_stmt,
     pg_QueryRow = (\<lambda>h w. (case find (\<lambda>r. col_token_hash r = h) (fst w) of None \<Rightarrow> Inl (External ''no rows in result set'') | Some r \<Rightarrow> Inr r, w)),
     pg_Query = (\<lambda>w. (Inr (map Inr (sort_key (\<lambda>r. - col_created_at r) (fst w))), w))\<rparr>"

lemma mem_stmt_rows: "\<exists>now. set (fst (snd (mem_stmt st w))) = stmt_rows st now (set (fst w))"
proof (cases w)
  case (Pair rs now)
  then show ?thesis by (intro exI [of _ now]) (cases st; auto simp: list_ex_iff)
qed

lemma find_in: "find P xs = Some x \<Longrightarrow> x \<in> set xs \<and> P x"
  by (auto simp: find_Some_iff)

interpretation mem_pg: pg_tokens mem_pg_pool "\<lambda>w. set (fst w)"
proof
  show "\<exists>now. set (fst p') = stmt_rows st now (set (fst p))" if "pg_Exec mem_pg_pool st p = (Inr n, p')" for st p n p'
    using mem_stmt_rows [of st p] that by (simp add: mem_pg_pool_def)
  show "\<exists>now. set (fst p') = set (fst p) \<or> set (fst p') = stmt_rows st now (set (fst p))"
    if "pg_Exec mem_pg_pool st p = (Inl err, p')" for st p err p'
    using mem_stmt_rows [of st p] that by (auto simp: mem_pg_pool_def)
  show "r \<in> set (fst p) \<and> col_token_hash r = h" if "fst (pg_QueryRow mem_pg_pool h p) = Inr r" for h p r
    using that find_in by (fastforce simp: mem_pg_pool_def split: option.splits)
qed (simp_all add: mem_pg_pool_def)

subsection \<open>Properties\<close>

text \<open>C13: on a PostgreSQL that gives its statements their documented meaning (also when the
  reply of a statement that ran is lost) the store meets the contract of a token store, with
  instants kept in microseconds; the constraints of the table are an invariant of every
  operation and of the sweep.\<close>

theorem pg_store_refines:
  assumes "pg_tokens pool rows"
  shows "token_store (pg_iface pool) (\<lambda>_. pg_purgeExpired pool) pg_stamp (\<lambda>p. pg_fresh (rows p)) (\<lambda>p. pg_unique (rows p)) (\<lambda>p. pg_view (rows p))"
  using assms by (rule pg_tokens.meets_token_store)

theorem pg_store_refines_witness:
  "token_store (pg_iface mem_pg_pool) (\<lambda>_. pg_purgeExpired mem_pg_pool) pg_stamp (\<lambda>p. pg_fresh (set (fst p)))
     (\<lambda>p. pg_unique (set (fst p))) (\<lambda>p. pg_view (set (fst p)))"
  by (rule pg_store_refines [OF mem_pg.pg_tokens_axioms])

text \<open>A table with one token, for the concrete examples.\<close>

definition ref_pg :: mem_pg where
  "ref_pg = ([stamp_row \<lparr>col_id = ''0a'', col_name = ''ci'', col_token_hash = hashToken (\<lambda>s. s) ''gim_1'', col_created_at = 5000,
     col_expires_at = Some 900000, col_revoked_at = None\<rparr>], 6000)"

end
