(* ===== verification/Gimme_Api.thy ===== *)
theory Gimme_Api
  imports Gimme_Http
begin

text \<open>
  The controllers of api/: packages (api/package-controller.go), tokens (api/admin-controller.go)
  and health (api/health-controller.go), the validation of the uploaded file
  (internal/archive_validator), and the routes they register. A handler reads the request and the
  state and gives the response with the new state; \<open>None\<close> is a handler that does not
  return. Parsing a multipart form or a JSON body is an argument, as is the choice of a
  representation by gin; closing files and log lines are left out.
\<close>

subsection \<open>Validation of the uploaded file\<close>

definition validTypes :: "string list" where
  "validTypes = [''application/octet-stream'', ''application/zip'']"

record 'f FileHeader =
  fh_ContentType :: string
  fh_Size :: int
  fh_Open :: "go_error + 'f"

definition ValidateFile :: "mime_pkg \<Rightarrow> 'f FileHeader option \<Rightarrow> GimmeError option" where
  "ValidateFile mime f =
     (case f of
        None \<Rightarrow> Some (NewBusinessError BadRequest FileRequired)
      | Some h \<Rightarrow>
          (case ParseMediaType mime (fh_ContentType h) of
             Inl _ \<Rightarrow> Some (NewBusinessError BadRequest InvalidFileType)
           | Inr mediaType \<Rightarrow>
               if mediaType \<in> set validTypes then None else Some (NewBusinessError BadRequest InvalidFileType)))"

subsection \<open>Packages\<close>

record packageSlice =
  ps_Name :: string
  ps_Version :: string

definition defaultListingLimit :: int where "defaultListingLimit = 50"
definition maxListingLimit :: int where "maxListingLimit = 500"

definition invalidURLMsg :: string where
  "invalidURLMsg = ''invalid URL (valid format: /gimme/<package>@<version>/<file>)''"

definition em_dash :: string where "em_dash = map char_of [226, 128, 148 :: nat]"

definition getSlice :: "string \<Rightarrow> GimmeError + packageSlice" where
  "getSlice pkg =
     (let slice = SplitN2 pkg (CHR ''@'')
      in if length slice < 2 then Inl (NewBusinessError BadRequest (InvalidURL invalidURLMsg))
         else if slice ! 0 = '''' then Inl (NewBusinessError BadRequest (InvalidURL (''package name must not be empty '' @ em_dash @ '' '' @ invalidURLMsg)))
         else if slice ! 1 = '''' then Inl (NewBusinessError BadRequest (InvalidURL (''package version must not be empty '' @ em_dash @ '' '' @ invalidURLMsg)))
         else Inr \<lparr>ps_Name = slice ! 0, ps_Version = slice ! 1\<rparr>)"

definition listingLimit :: "string \<Rightarrow> int" where
  "listingLimit raw =
     (if raw = '''' then defaultListingLimit
      else (case Atoi raw of
          None \<Rightarrow> defaultListingLimit
        | Some limit \<Rightarrow> if limit < 1 then 1 else if maxListingLimit < limit then maxListingLimit else limit))"

definition listingURL :: "string \<Rightarrow> int \<Rightarrow> string \<Rightarrow> string" where
  "listingURL pkg limit after =
     ''/gimme/'' @ PathEscape pkg @ ''?limit='' @ Itoa limit @ (if after \<noteq> '''' then ''&after='' @ QueryEscape after else '''')"

definition quoted :: "string \<Rightarrow> string" where
  "quoted s = [CHR 0x22] @ s @ [CHR 0x22]"

definition link :: "string \<Rightarrow> string \<Rightarrow> string" where
  "link url rel = ''<'' @ url @ ''>; rel='' @ quoted rel"

definition head_html :: response where
  "head_html = respond 200 [(''Content-Type'', ''text/html; charset=utf-8'')] NoBody"

definition getHTMLPackage ::
  "http_pkg \<Rightarrow> 'f packages \<Rightarrow> ('w, 'c) ContentService \<Rightarrow> request \<Rightarrow> string \<Rightarrow> string \<Rightarrow> string \<Rightarrow> ('w, 'c) gstate \<Rightarrow> response option" where
  "getHTMLPackage hp pk svc rq pkg name version s =
     (let limit = listingLimit (rq_Query rq ''limit'');
          after = rq_Query rq ''after''
      in (case GetFiles pk svc name version after limit (gs_storage s) of
            None \<Rightarrow> None
          | Some listing \<Rightarrow>
              if Files listing = [] then Some (respond 404 [] NoBody)
              else if rq_Method rq = ''HEAD'' then Some head_html
              else (let firstURL = listingURL pkg limit '''';
                        nextURL = (if HasMore listing then listingURL pkg limit (Next listing) else '''')
                    in if hp_wantsJSON hp (rq_Header rq ''Accept'')
                       then (let links = [link firstURL ''first''] @ (if nextURL \<noteq> '''' then [link nextURL ''next''] else [])
                             in Some (respond 200 [(''Link'', Join links '', '')]
                                  (ListingJSON \<lparr>plr_Package = name, plr_Version = ls_Version listing, plr_Files = Files listing,
                                     plr_Pagination = \<lparr>pg_Limit = limit, pg_Next = Next listing, pg_HasMore = HasMore listing,
                                       pg_Total = (if TotalKnown listing then Some (Total listing) else None)\<rparr>\<rparr>)))
                       else Some (respond 200 [] (ListingHTML pkg listing nextURL)))))"

definition getPackageVersions ::
  "http_pkg \<Rightarrow> 'f packages \<Rightarrow> ('w, 'c) ContentService \<Rightarrow> request \<Rightarrow> string \<Rightarrow> ('w, 'c) gstate \<Rightarrow> response" where
  "getPackageVersions hp pk svc rq name s =
     (let versions = ListVersions pk svc name (gs_storage s)
      in if versions = [] then respond 404 [] NoBody
         else if rq_Method rq = ''HEAD'' then head_html
         else if hp_wantsJSON hp (rq_Header rq ''Accept'')
         then respond 200 [] (VersionsJSON \<lparr>pvr_Package = name, pvr_Versions = versions\<rparr>)
         else respond 200 [] (VersionsHTML name
                (map (\<lambda>version. \<lparr>pvl_Version = version, pvl_URL = ''/gimme/'' @ PathEscape (name @ ''@'' @ version)\<rparr>) versions)))"

text \<open>The headers of a file that was found, in the order in which they are set.\<close>

definition object_etag :: "ObjectInfo \<Rightarrow> string" where
  "object_etag infos = (if oi_ETag infos \<noteq> '''' then quoted (Trim (oi_ETag infos) (CHR 0x22)) else '''')"

definition object_headers :: "http_pkg \<Rightarrow> 'f packages \<Rightarrow> ObjectInfo \<Rightarrow> string \<Rightarrow> (string \<times> string) list" where
  "object_headers hp pk infos version =
     [(''Vary'', ''Accept-Encoding'')] @
     (if oi_ETag infos \<noteq> '''' then [(''ETag'', object_etag infos)] else []) @
     (if \<not> IsZero (oi_LastModified infos) then [(''Last-Modified'', hp_FormatTime hp (oi_LastModified infos))] else []) @
     (case oi_UserMetadata infos CanonicalIntegrityMetadataKey of
        Some integrity \<Rightarrow> if integrity \<noteq> '''' then [(''Gimme-Integrity'', integrity)] else []
      | None \<Rightarrow> []) @
     [(''Cache-Control'', cacheControlHeader (pk_semver pk) version)]"

definition serve_object ::
  "http_pkg \<Rightarrow> 'f packages \<Rightarrow> request \<Rightarrow> string \<Rightarrow> string \<Rightarrow> s3_object \<Rightarrow> ObjectInfo \<Rightarrow> Encoding \<Rightarrow> response" where
  "serve_object hp pk rq file_name version object infos encoding =
     (let headers = object_headers hp pk infos version
      in if notModified (hp_ParseTime hp) (rq_Header rq) (object_etag infos) (oi_LastModified infos)
         then respond 304 headers NoBody
         else (let byExtension = TypeByExtension (pk_mime pk) (ToLower (filepath_Ext file_name));
                   contentType = (if encoding = '''' then oi_ContentType infos
                                  else if byExtension = '''' then ''text/plain'' else byExtension);
                   headers' = headers @ (if encoding \<noteq> '''' then [(''Content-Encoding'', encoding)] else []) @
                     [(''Content-Length'', Itoa (oi_Size infos))]
               in if rq_Method rq = ''HEAD''
                  then respond 200 (headers' @ (if contentType \<noteq> '''' then [(''Content-Type'', contentType)] else [])) NoBody
                  else respond 200 (headers' @ [(''Content-Type'', contentType)]) (ObjectBody object (oi_Size infos))))"

definition getPackage ::
  "http_pkg \<Rightarrow> 'f packages \<Rightarrow> ('w, 'c) ContentService \<Rightarrow> request \<Rightarrow> ('w, 'c) gstate \<Rightarrow> response option \<times> ('w, 'c) gstate" where
  "getPackage hp pk svc rq s =
     (let file_name = rq_Param rq ''file''; packageParam = rq_Param rq ''package''
      in if \<not> Contains packageParam (CHR ''@'') \<and> file_name = ''/'' then (Some (getPackageVersions hp pk svc rq packageParam s), s)
         else (case getSlice packageParam of
            Inl err \<Rightarrow> (Some (gimme_error_response [] err), s)
          | Inr pkg \<Rightarrow>
              if file_name = ''/'' then (getHTMLPackage hp pk svc rq packageParam (ps_Name pkg) (ps_Version pkg) s, s)
              else (let vary = (''Vary'', ''Accept-Encoding'');
                        noStore = [vary, (''Cache-Control'', ''no-store'')];
                        accepted = parseAcceptEncoding (hp_ParseFloat hp) (rq_Header rq ''Accept-Encoding'')
                    in (case GetFile pk svc (ps_Name pkg) (ps_Version pkg) file_name (acc_encodings accepted) s of
                          (Inl err, s') \<Rightarrow> (Some (gimme_error_response noStore err), s')
                        | (Inr (object, encoding), s') \<Rightarrow>
                            (case Stat object of
                               Inl _ \<Rightarrow> (Some (respond 404 noStore (ErrorText ''object not found'')), s')
                             | Inr infos \<Rightarrow>
                                 if encoding = '''' \<and> \<not> acc_identity accepted
                                 then (Some (respond 406 noStore (ErrorText ''no acceptable content coding available for this file'')), s')
                                 else (Some (serve_object hp pk rq file_name (ps_Version pkg) object infos encoding), s'))))))"

definition getPackageFolder ::
  "http_pkg \<Rightarrow> 'f packages \<Rightarrow> ('w, 'c) ContentService \<Rightarrow> request \<Rightarrow> ('w, 'c) gstate \<Rightarrow> response option" where
  "getPackageFolder hp pk svc rq s =
     (if \<not> Contains (rq_Param rq ''package'') (CHR ''@'') then Some (getPackageVersions hp pk svc rq (rq_Param rq ''package'') s)
      else (case getSlice (rq_Param rq ''package'') of
          Inl err \<Rightarrow> Some (gimme_error_response [] err)
        | Inr pkg \<Rightarrow> getHTMLPackage hp pk svc rq (rq_Param rq ''package'') (ps_Name pkg) (ps_Version pkg) s))"

definition deletePackage ::
  "'f packages \<Rightarrow> ('w, 'c) ContentService \<Rightarrow> request \<Rightarrow> ('w, 'c) gstate \<Rightarrow> response \<times> ('w, 'c) gstate" where
  "deletePackage pk svc rq s =
     (case getSlice (rq_Param rq ''package'') of
        Inl err \<Rightarrow> (gimme_error_response [] err, s)
      | Inr pkg \<Rightarrow>
          (case DeletePackage pk svc (ps_Name pkg) (ps_Version pkg) s of
             (Some err, s') \<Rightarrow> (gimme_error_response [] err, s')
           | (None, s') \<Rightarrow> (respond 204 [] NoBody, s')))"

text \<open>
  A multipart form: what \<open>FormFile\<close> answers when the body is limited to some number of
  bytes, and the other fields.
\<close>

datatype form_error = MaxBytesError | ErrMissingFile | PathError | MalformedForm string

record 'f form =
  fo_FormFile :: "int option \<Rightarrow> form_error + 'f FileHeader"
  fo_PostForm :: "string \<Rightarrow> string"

definition createPackage ::
  "'f packages \<Rightarrow> ('w, 'c) ContentService \<Rightarrow> nat list \<Rightarrow> (key \<Rightarrow> bool) \<Rightarrow> 'f form \<Rightarrow> ('w, 'c) gstate \<Rightarrow> response \<times> ('w, 'c) gstate" where
  "createPackage pk svc sched order form s =
     (let maxSize = MaxSize (uploadLimits svc)
      in (case fo_FormFile form (if 0 < maxSize then Some maxSize else None) of
            Inl MaxBytesError \<Rightarrow> (respond 413 [] (ErrorText (''upload exceeds the maximum request size of '' @ Itoa maxSize @ '' bytes (upload.max_size)'')), s)
          | Inl PathError \<Rightarrow> (respond 500 [] (ErrorText ''could not process the uploaded file''), s)
          | Inl (MalformedForm e) \<Rightarrow> (respond 400 [] (ErrorText (''malformed upload request: '' @ e)), s)
          | formFile \<Rightarrow>
              (let fileHeader = (case formFile of Inl _ \<Rightarrow> None | Inr h \<Rightarrow> Some h)
               in (case ValidateFile (pk_mime pk) fileHeader of
                     Some err \<Rightarrow> (gimme_error_response [] err, s)
                   | None \<Rightarrow>
                       (case fh_Open (the fileHeader) of
                          Inl _ \<Rightarrow> (respond 500 [] (ErrorText ''could not read uploaded file''), s)
                        | Inr reader \<Rightarrow>
                            (case CreatePackage pk svc sched order (fo_PostForm form ''name'') (fo_PostForm form ''version'') reader
                                (fh_Size (the fileHeader)) s of
                               (Some err, s') \<Rightarrow> (gimme_error_response [] err, s')
                             | (None, s') \<Rightarrow> (respond 201 [] NoBody, s')))))))"

subsection \<open>Tokens and health\<close>

record createTokenRequest =
  ctr_Name :: string
  ctr_ExpirationDate :: string

definition maxTokenNameLength :: nat where "maxTokenNameLength = 255"

definition token_request_validate :: "createTokenRequest \<Rightarrow> GimmeError option" where
  "token_request_validate req =
     (if length (ctr_Name req) = 0 then Some (NewBusinessError BadRequest TokenNameRequired)
      else if maxTokenNameLength < length (ctr_Name req)
      then Some (NewBusinessError BadRequest (TokenNameTooLong maxTokenNameLength))
      else None)"

definition getAdmin :: "'t token_iface \<Rightarrow> 't \<Rightarrow> response \<times> 't" where
  "getAdmin store t = (case ListTokens store t of (tokens, t') \<Rightarrow> (respond 200 [] (AdminHTML tokens), t'))"

text \<open>The functions of the templates (api/templates.go); \<open>layout\<close> is
  \<open>Time.Format\<close>, given the format.\<close>

definition formatTime :: "(string \<Rightarrow> go_time \<Rightarrow> string) \<Rightarrow> go_time \<Rightarrow> string" where
  "formatTime layout t = (if IsZero t then em_dash else layout ''Jan 2, 2006 15:04'' t)"

definition template_isExpired :: "go_time \<Rightarrow> go_time \<Rightarrow> bool" where
  "template_isExpired now t = (if IsZero t then False else t < now)"

definition template_isRevoked :: "go_time \<Rightarrow> bool" where
  "template_isRevoked t \<longleftrightarrow> \<not> IsZero t"

text \<open>The page marks a token as expired or revoked exactly when requests with it are rejected.\<close>

lemma template_marks_rejected:
  "template_isExpired now (ExpiresAt e) \<or> template_isRevoked (RevokedAt e) \<longleftrightarrow> \<not> TokenEntry_IsValid now e"
  by (auto simp: template_isExpired_def template_isRevoked_def TokenEntry_IsValid_def IsExpired_def IsRevoked_def)

definition createToken :: "'t token_iface \<Rightarrow> auth_env \<Rightarrow> createTokenRequest option \<Rightarrow> 't \<Rightarrow> response \<times> 't" where
  "createToken store env json t =
     (case json of
        None \<Rightarrow> (respond 400 [] (ErrorText ''invalid request body''), t)
      | Some req \<Rightarrow>
          (case token_request_validate req of
             Some validErr \<Rightarrow> (gimme_error_response [] validErr, t)
           | None \<Rightarrow>
               (case CreateToken store env (ctr_Name req) (ctr_ExpirationDate req) t of
                  (Inl createErr, t') \<Rightarrow> (gimme_error_response [] createErr, t')
                | (Inr (entry, rawToken), t') \<Rightarrow>
                    (respond 201 [] (TokenJSON \<lparr>tr_ID = te_ID entry, tr_Name = te_Name entry, tr_Token = rawToken,
                       tr_CreatedAt = CreatedAt entry, tr_ExpiresAt = ExpiresAt entry\<rparr>), t'))))"

definition deleteToken :: "'t token_iface \<Rightarrow> go_time \<Rightarrow> request \<Rightarrow> 't \<Rightarrow> response \<times> 't" where
  "deleteToken store now rq t =
     (case RevokeToken store now (rq_Param rq ''id'') t of
        (revoked, t') \<Rightarrow>
          if \<not> revoked then (respond 404 [] (ErrorText ''token not found''), t') else (respond 204 [] NoBody, t'))"

definition liveness :: response where
  "liveness = respond 200 [] NoBody"

definition readiness :: "('w, 'c) ContentService \<Rightarrow> 'w \<Rightarrow> response" where
  "readiness svc w =
     (case os_Ping (objectStorageManager svc) w of
        Some err \<Rightarrow> respond 503 [] (ErrorJSON err)
      | None \<Rightarrow> respond 200 [] NoBody)"

subsection \<open>Routes\<close>

text \<open>
  The routes that the controllers register, with what their handlers read. \<open>login\<close> is the
  middleware of the authentication provider: it answers a request itself or lets it through.
\<close>

datatype 'f route =
    GetRoot
  | GetGimme
  | GetFolder request
  | GetPackageFile request
  | PostPackage request "'f form" "nat list" "key \<Rightarrow> bool"
  | DeletePackageRoute request
  | GetAdminRoute request
  | PostToken request auth_env "createTokenRequest option"
  | DeleteTokenRoute request
  | GetHealthz
  | GetReadyz

record ('f, 'w, 'c, 't) gimme_app =
  ga_hp :: http_pkg
  ga_pk :: "'f packages"
  ga_svc :: "('w, 'c) ContentService"
  ga_store :: "'t token_iface"
  ga_sha256 :: "string \<Rightarrow> string"
  ga_login :: "go_time \<Rightarrow> request \<Rightarrow> response option"

definition with_token ::
  "('f, 'w, 'c, 't) gimme_app \<Rightarrow> go_time \<Rightarrow> request \<Rightarrow> (('w, 'c) gstate \<Rightarrow> response \<times> ('w, 'c) gstate) \<Rightarrow>
     ('w, 'c) gstate \<Rightarrow> 't \<Rightarrow> response option \<times> ('w, 'c) gstate \<times> 't" where
  "with_token app now rq handler s t =
     (case AuthenticateMiddleware (ga_store app) (ga_sha256 app) now (rq_Header rq ''Authorization'') t of
        (False, t') \<Rightarrow> (Some (respond 401 [] NoBody), s, t')
      | (True, t') \<Rightarrow> (case handler s of (r, s') \<Rightarrow> (Some r, s', t')))"

definition with_login ::
  "('f, 'w, 'c, 't) gimme_app \<Rightarrow> go_time \<Rightarrow> request \<Rightarrow> ('t \<Rightarrow> response \<times> 't) \<Rightarrow> ('w, 'c) gstate \<Rightarrow> 't \<Rightarrow> response option \<times> ('w, 'c) gstate \<times> 't" where
  "with_login app now rq handler s t =
     (case ga_login app now rq of
        Some r \<Rightarrow> (Some r, s, t)
      | None \<Rightarrow> (case handler t of (r, t') \<Rightarrow> (Some r, s, t')))"

fun handle ::
  "('f, 'w, 'c, 't) gimme_app \<Rightarrow> go_time \<Rightarrow> 'f route \<Rightarrow> ('w, 'c) gstate \<Rightarrow> 't \<Rightarrow> response option \<times> ('w, 'c) gstate \<times> 't" where
  "handle app now GetRoot s t = (Some (respond 200 [] IndexHTML), s, t)"
| "handle app now GetGimme s t = (Some (respond 302 [(''Location'', ''/'')] NoBody), s, t)"
| "handle app now (GetFolder rq) s t = (getPackageFolder (ga_hp app) (ga_pk app) (ga_svc app) rq s, s, t)"
| "handle app now (GetPackageFile rq) s t =
     (case getPackage (ga_hp app) (ga_pk app) (ga_svc app) rq s of (r, s') \<Rightarrow> (r, s', t))"
| "handle app now (PostPackage rq form sched order) s t =
     with_token app now rq (createPackage (ga_pk app) (ga_svc app) sched order form) s t"
| "handle app now (DeletePackageRoute rq) s t = with_token app now rq (deletePackage (ga_pk app) (ga_svc app) rq) s t"
| "handle app now (GetAdminRoute rq) s t = with_login app now rq (getAdmin (ga_store app)) s t"
| "handle app now (PostToken rq env json) s t = with_login app now rq (createToken (ga_store app) env json) s t"
| "handle app now (DeleteTokenRoute rq) s t = with_login app now rq (deleteToken (ga_store app) now rq) s t"
| "handle app now GetHealthz s t = (Some liveness, s, t)"
| "handle app now GetReadyz s t = (Some (readiness (ga_svc app) (gs_storage s)), s, t)"

end
