(* ===== verification/Gimme_Metrics.thy ===== *)
theory Gimme_Metrics
  imports Gimme_GoLib
begin

text \<open>
  The Prometheus collectors (internal/metrics): their names and labels, and the registration at
  the start of the process, which panics (\<open>None\<close>) when a name is taken. Help texts
  and histogram buckets are left out; the values the services count are fields of their states.
\<close>

datatype collector =
    Counter string
  | CounterVec string "string list"
  | HistogramVec string "string list"

fun collector_name :: "collector \<Rightarrow> string" where
  "collector_name (Counter n) = n"
| "collector_name (CounterVec n labels) = n"
| "collector_name (HistogramVec n labels) = n"

definition HTTPRequestsTotal :: collector where
  "HTTPRequestsTotal = CounterVec ''gimme_http_requests_total'' [''route'', ''method'', ''status_code'']"

definition S3OperationDuration :: collector where
  "S3OperationDuration = HistogramVec ''gimme_s3_operation_duration_seconds'' [''operation'']"

definition plain_counters :: "collector list" where
  "plain_counters = map Counter
     [''gimme_cache_hits_total'', ''gimme_cache_misses_total'', ''gimme_packages_uploaded_total'', ''gimme_packages_deleted_total'']"

fun MustRegister :: "collector list \<Rightarrow> collector list \<Rightarrow> collector list option" where
  "MustRegister registry [] = Some registry"
| "MustRegister registry (c # cs) =
     (if collector_name c \<in> collector_name ` set registry then None else MustRegister (registry @ [c]) cs)"

definition metrics_init :: "collector list \<Rightarrow> collector list option" where
  "metrics_init registry = MustRegister registry ([HTTPRequestsTotal, S3OperationDuration] @ plain_counters)"

lemma MustRegister_distinct:
  "distinct (map collector_name cs) \<Longrightarrow> collector_name ` set cs \<inter> collector_name ` set registry = {} \<Longrightarrow>
     MustRegister registry cs = Some (registry @ cs)"
  by (induction cs arbitrary: registry) auto

lemma separate_images:
  "list_all (\<lambda>c. P (f c)) cs \<Longrightarrow> (\<And>r. r \<in> R \<Longrightarrow> \<not> P (f r)) \<Longrightarrow> f ` set cs \<inter> f ` R = {}"
  unfolding list_all_iff by force

text \<open>The start does not panic over a registry without gimme's names, such as the default one.\<close>

lemma metrics_init_registers:
  assumes "\<And>r. r \<in> set registry \<Longrightarrow> \<not> HasPrefix (collector_name r) ''gimme_''"
  shows "metrics_init registry = Some (registry @ [HTTPRequestsTotal, S3OperationDuration] @ plain_counters)"
  unfolding metrics_init_def
proof (rule MustRegister_distinct)
  let ?cs = "[HTTPRequestsTotal, S3OperationDuration] @ plain_counters"
  show "distinct (map collector_name ?cs)" by code_simp
  have "list_all (\<lambda>c. HasPrefix (collector_name c) ''gimme_'') ?cs" by code_simp
  then show "collector_name ` set ?cs \<inter> collector_name ` set registry = {}" 
    using assms by (rule separate_images [where P = "\<lambda>n. HasPrefix n ''gimme_''" and f = collector_name and cs = ?cs])
qed

end
