(* ===== verification/Gimme_App.thy ===== *)
theory Gimme_App
  imports Gimme_Config Gimme_OIDC Gimme_FileStore Gimme_PGStore Gimme_Api Gimme_Metrics
begin

text \<open>
  The start and the stop of the server (internal/application, internal/persistence): which client,
  token store, login provider and cache a configuration leads to, the routes that are registered,
  the CORS policy, the request counter and the order of the shutdown. A \<open>log.Fatal\<close> and the
  panic on a nil client are values of \<open>startup_error\<close>. The services that are connected to and
  the libraries are arguments; a connection is named by its address.
\<close>

subsection \<open>Connections\<close>

datatype connect_error = InvalidRedisURL go_error | RedisUnreachable string go_error | PGPoolFailed go_error | PGUnreachable go_error

record RedisClient =
  rcl_client :: "string option"

record PGClient =
  pgc_pool :: "string option"

text \<open>The world outside: viper, the S3 service, Redis, PostgreSQL, the identity provider, the libraries.\<close>

record ('f, 'w, 'c, 'p) host =
  ho_packages :: "'f packages"
  ho_http :: http_pkg
  ho_RedisParseURL :: "string \<Rightarrow> go_error + string"
  ho_RedisPing :: "string \<Rightarrow> go_error option"
  ho_redis_client :: "string \<Rightarrow> 'c redis_client"
  ho_codec :: entry_codec
  ho_scan :: nat
  ho_PGNew :: "string \<Rightarrow> go_error option"
  ho_PGPing :: "string \<Rightarrow> go_error option"
  ho_pg_pool :: "string \<Rightarrow> 'p pg_pool"
  ho_file_env :: file_env
  ho_idp :: identity_provider
  ho_jwt :: jwt_pkg
  ho_BasicAuth :: "(string \<times> string) list \<Rightarrow> request \<Rightarrow> response option"
  ho_hmac_sha256 :: "string \<Rightarrow> string \<Rightarrow> string"
  ho_minio_New :: "string \<Rightarrow> string \<Rightarrow> string \<Rightarrow> bool \<Rightarrow> go_error + 'w s3_client"
  ho_sha256 :: "string \<Rightarrow> string"

definition NewRedisClient :: "('f, 'w, 'c, 'p) host \<Rightarrow> string \<Rightarrow> connect_error + RedisClient" where
  "NewRedisClient ho redisURL =
     (case ho_RedisParseURL ho redisURL of
        Inl err \<Rightarrow> Inl (InvalidRedisURL err)
      | Inr addr \<Rightarrow> (case ho_RedisPing ho addr of Some err \<Rightarrow> Inl (RedisUnreachable addr err) | None \<Rightarrow> Inr \<lparr>rcl_client = Some addr\<rparr>))"

definition NewPGClient :: "('f, 'w, 'c, 'p) host \<Rightarrow> string \<Rightarrow> connect_error + PGClient" where
  "NewPGClient ho pgURL =
     (case ho_PGNew ho pgURL of
        Some err \<Rightarrow> Inl (PGPoolFailed err)
      | None \<Rightarrow> (case ho_PGPing ho pgURL of Some err \<Rightarrow> Inl (PGUnreachable err) | None \<Rightarrow> Inr \<lparr>pgc_pool = Some pgURL\<rparr>))"

definition redis_CloseConnection :: "RedisClient \<Rightarrow> RedisClient" where
  "redis_CloseConnection rc = rc\<lparr>rcl_client := None\<rparr>"

definition pg_CloseConnection :: "PGClient \<Rightarrow> PGClient" where
  "pg_CloseConnection pgc = pgc\<lparr>pgc_pool := None\<rparr>"

definition NewObjectStorageClient :: "('f, 'w, 'c, 'p) host \<Rightarrow> Configuration \<Rightarrow> GimmeError + 'w s3_client" where
  "NewObjectStorageClient ho config =
     (case ho_minio_New ho (S3Url config) (S3Key config) (S3Secret config) (S3SSL config) of
        Inl _ \<Rightarrow> Inl (NewBusinessError InternalError (External ''error while create object storage client''))
      | Inr c \<Rightarrow> Inr c)"

subsection \<open>The modules\<close>

datatype startup_error =
    ConfigFatal GimmeError
  | RedisFatal connect_error
  | PGFatal connect_error
  | PGStoreFatal go_error
  | FileStoreFatal string go_error
  | OIDCFatal go_error
  | StorageFatal GimmeError
  | NilRedisClient

datatype 'p app_token_store = FileTS FileTokenStore | RedisTS string | PGTS "'p PGTokenStore"

record ('w, 'c, 'p) Application =
  app_config :: Configuration
  app_tokenStore :: "'p app_token_store"
  app_authProvider :: AuthProvider
  app_contentService :: "('w, 'c) ContentService"
  app_storageManager :: "'w objectStorageManager"
  app_cache :: "string option"
  app_redisClient :: "RedisClient option"
  app_pgClient :: "PGClient option"

text \<open>What starting reads and changes: the S3 service, the database, the disk of the token file.\<close>

record ('w, 'p) boot =
  bt_s3 :: 'w
  bt_pg :: 'p
  bt_disk :: "string \<rightharpoonup> string"
  bt_faults :: "flush_step option list"

text \<open>\<open>GetClient\<close> on the shared client: a nil client, or one without connection, is a panic.\<close>

definition GetClient :: "RedisClient option \<Rightarrow> startup_error + string" where
  "GetClient rc = (case rc of None \<Rightarrow> Inl NilRedisClient | Some c \<Rightarrow> (case rcl_client c of None \<Rightarrow> Inl NilRedisClient | Some addr \<Rightarrow> Inr addr))"

definition configureTokenStore ::
  "('f, 'w, 'c, 'p) host \<Rightarrow> Configuration \<Rightarrow> RedisClient option \<Rightarrow> ('w, 'p) boot \<Rightarrow>
     (startup_error + 'p app_token_store \<times> PGClient option) \<times> ('w, 'p) boot" where
  "configureTokenStore ho config redisClient b =
     (if tsc_Mode (TokenStore config) = ''redis''
      then (map_sum id (\<lambda>addr. (RedisTS addr, None)) (GetClient redisClient), b)
      else if tsc_Mode (TokenStore config) = ''postgres''
      then (case NewPGClient ho (tsc_PostgresURL (TokenStore config)) of
              Inl err \<Rightarrow> (Inl (PGFatal err), b)
            | Inr pgClient \<Rightarrow>
                (case NewPGTokenStore (ho_pg_pool ho (tsc_PostgresURL (TokenStore config))) (bt_pg b) of
                   (Inl err, p') \<Rightarrow> (Inl (PGStoreFatal err), b\<lparr>bt_pg := p'\<rparr>)
                 | (Inr store, p') \<Rightarrow> (Inr (PGTS store, Some pgClient), b\<lparr>bt_pg := p'\<rparr>)))
      else (case NewFileTokenStore (ho_file_env ho) (Secret config) (TokenFile config) (bt_disk b) (bt_faults b) of
              Inl err \<Rightarrow> (Inl (FileStoreFatal (TokenFile config) err), b)
            | Inr store \<Rightarrow> (Inr (FileTS store, None), b)))"

definition deriveSecret :: "('f, 'w, 'c, 'p) host \<Rightarrow> string \<Rightarrow> string \<Rightarrow> string" where
  "deriveSecret ho masterSecret label = hex_encode (ho_hmac_sha256 ho masterSecret label)"

definition configureAuthProvider :: "('f, 'w, 'c, 'p) host \<Rightarrow> Configuration \<Rightarrow> startup_error + AuthProvider" where
  "configureAuthProvider ho config =
     (if auth_Mode (Auth config) = ''oidc''
      then (let oidc = auth_OIDC (Auth config); oidcSigningSecret = deriveSecret ho (Secret config) ''oidc-session''
            in map_sum OIDCFatal OIDC
                 (NewOIDCProvider (ho_idp ho) (oc_Issuer oidc) (oc_ClientID oidc) (oc_ClientSecret oidc) (oc_RedirectURL oidc)
                    oidcSigningSecret (oc_SecureCookies oidc)))
      else Inr (BasicProvider (NewBasicAuthProvider (AdminUser config) (AdminPassword config))))"

text \<open>Seconds as a 64-bit \<open>time.Duration\<close>: the product wraps around.\<close>

definition wrap64 :: "int \<Rightarrow> int" where
  "wrap64 i = (i + 2 ^ 63) mod 2 ^ 64 - 2 ^ 63"

definition shared_redis :: "('f, 'w, 'c, 'p) host \<Rightarrow> Configuration \<Rightarrow> startup_error + RedisClient option" where
  "shared_redis ho config =
     (if RedisURL config \<noteq> '''' then map_sum RedisFatal Some (NewRedisClient ho (RedisURL config)) else Inr None)"

definition configured_limits :: "Configuration \<Rightarrow> UploadLimits" where
  "configured_limits config = \<lparr>MaxSize = sz_Bytes (uc_MaxSize (Upload config)), MaxEntries = uc_MaxEntries (Upload config),
     MaxUncompressedSize = sz_Bytes (uc_MaxUncompressedSize (Upload config))\<rparr>"

text \<open>
  The storage manager is shared by pointer, so the content service sees the bucket that
  \<open>CreateBucket\<close> sets at the end: here it is built over the manager after that call.
\<close>

definition loadModules ::
  "('f, 'w, 'c, 'p) host \<Rightarrow> Configuration \<Rightarrow> ('w, 'p) boot \<Rightarrow> (startup_error + ('w, 'c, 'p) Application) \<times> ('w, 'p) boot" where
  "loadModules ho config b =
     (case shared_redis ho config of
        Inl err \<Rightarrow> (Inl err, b)
      | Inr redisClient \<Rightarrow>
          (case configureTokenStore ho config redisClient b of
             (Inl err, b') \<Rightarrow> (Inl err, b')
           | (Inr (store, pgClient), b') \<Rightarrow>
               (case configureAuthProvider ho config of
                  Inl err \<Rightarrow> (Inl err, b')
                | Inr provider \<Rightarrow>
                    (case NewObjectStorageClient ho config of
                       Inl err \<Rightarrow> (Inl (StorageFatal err), b')
                     | Inr osmClient \<Rightarrow>
                         (case (if cc_Enabled (Cache config) then map_sum id Some (GetClient redisClient) else Inr None) of
                            Inl err \<Rightarrow> (Inl err, b')
                          | Inr cache \<Rightarrow>
                              (case CreateBucket (NewObjectStorageManager osmClient) (S3BucketName config) (S3Location config) (bt_s3 b') of
                                 (Some err, _, w') \<Rightarrow> (Inl (StorageFatal err), b'\<lparr>bt_s3 := w'\<rparr>)
                               | (None, osm, w') \<Rightarrow>
                                   (Inr \<lparr>app_config = config, app_tokenStore = store, app_authProvider = provider,
                                      app_contentService = NewContentService (storage_iface (pk_mime (ho_packages ho)) osm)
                                        (map_option (\<lambda>addr. NewRedisCache (ho_redis_client ho addr) (ho_codec ho) (ho_scan ho)) cache)
                                        (wrap64 (cc_TTL (Cache config) * 1000000000)) (configured_limits config)
                                        [WithCompression (CompressionEnabled config)],
                                      app_storageManager = osm, app_cache = cache, app_redisClient = redisClient, app_pgClient = pgClient\<rparr>,
                                    b'\<lparr>bt_s3 := w'\<rparr>)))))))"

text \<open>\<open>Run\<close> up to the point where the server listens.\<close>

definition start :: "viper_pkg \<Rightarrow> ('f, 'w, 'c, 'p) host \<Rightarrow> ('w, 'p) boot \<Rightarrow> (startup_error + ('w, 'c, 'p) Application) \<times> ('w, 'p) boot" where
  "start vp ho b = (case NewConfig vp of Inl err \<Rightarrow> (Inl (ConfigFatal err), b) | Inr config \<Rightarrow> loadModules ho config b)"

subsection \<open>The server\<close>

record cors_config =
  AllowAllOrigins :: bool
  AllowOrigins :: "string list"

definition corsConfig :: "cors_config \<Rightarrow> string list \<Rightarrow> cors_config" where
  "corsConfig DefaultConfig allowedOrigins =
     (if 0 < length allowedOrigins
      then (if length allowedOrigins = 1 \<and> allowedOrigins ! 0 = ''*'' then DefaultConfig\<lparr>AllowAllOrigins := True\<rparr>
            else DefaultConfig\<lparr>AllowOrigins := allowedOrigins\<rparr>)
      else DefaultConfig\<lparr>AllowAllOrigins := True\<rparr>)"

text \<open>The counter of the requests, by the values of its labels: route pattern, method and status.\<close>

definition metricsMiddleware :: "string \<Rightarrow> string \<Rightarrow> nat \<Rightarrow> (string \<times> string \<times> nat \<Rightarrow> nat) \<Rightarrow> (string \<times> string \<times> nat \<Rightarrow> nat)" where
  "metricsMiddleware fullPath method status counters =
     (let route = (if fullPath = '''' then ''unknown'' else fullPath)
      in if route = ''/metrics'' then counters
         else (let status' = (if status = 0 then 500 else status)
               in counters((route, method, status') := Suc (counters (route, method, status')))))"

text \<open>The routes in the order of their registration.\<close>

definition provider_routes :: "AuthProvider \<Rightarrow> (string \<times> string) list" where
  "provider_routes provider =
     (case provider of BasicProvider _ \<Rightarrow> [] | OIDC _ \<Rightarrow> [(''GET'', ''/auth/login''), (''GET'', ''/auth/callback'')])"

definition server_routes :: "('w, 'c, 'p) Application \<Rightarrow> (string \<times> string) list" where
  "server_routes app =
     [(''GET'', ''/docs/*filepath''), (''HEAD'', ''/docs/*filepath''), (''GET'', ''/assets/*filepath''), (''HEAD'', ''/assets/*filepath'')] @
     provider_routes (app_authProvider app) @
     [(''GET'', ''/'')] @
     [(''GET'', ''/admin''), (''POST'', ''/tokens''), (''DELETE'', ''/tokens/:id'')] @
     [(''GET'', ''/gimme''), (''GET'', ''/gimme/:package''), (''GET'', ''/gimme/:package/*file''), (''HEAD'', ''/gimme/:package/*file''),
      (''POST'', ''/packages''), (''DELETE'', ''/packages/:package'')] @
     [(''GET'', ''/healthz''), (''GET'', ''/readyz'')] @
     (if EnableMetrics (app_config app) then [(''GET'', ''/metrics'')] else [])"

text \<open>The handlers behind the routes, over the token store that was configured.\<close>

definition web_app :: "('f, 'w, 'c, 'p) host \<Rightarrow> ('w, 'c, 'p) Application \<Rightarrow> 't token_iface \<Rightarrow> ('f, 'w, 'c, 't) gimme_app" where
  "web_app ho app store =
     \<lparr>ga_hp = ho_http ho, ga_pk = ho_packages ho, ga_svc = app_contentService app, ga_store = store, ga_sha256 = ho_sha256 ho,
      ga_login = provider_login (ho_BasicAuth ho) (ho_jwt ho) (app_authProvider app)\<rparr>"

subsection \<open>Shutdown\<close>

datatype shutdown_action = ShutdownServer | CloseTokenStore | CloseRedis | ClosePG

text \<open>The actions after the signal; the first one may fail, and then ends the process.\<close>

definition shutdown :: "bool \<Rightarrow> ('w, 'c, 'p) Application \<Rightarrow> shutdown_action list \<times> ('w, 'c, 'p) Application" where
  "shutdown forced app =
     (if forced then ([ShutdownServer], app)
      else (let store' = (case app_tokenStore app of FileTS s \<Rightarrow> FileTS (file_Close s) | RedisTS addr \<Rightarrow> RedisTS addr | PGTS s \<Rightarrow> PGTS (pg_Close s));
                app1 = app\<lparr>app_tokenStore := store'\<rparr>;
                app2 = (case app_redisClient app1 of None \<Rightarrow> app1 | Some rc \<Rightarrow> app1\<lparr>app_redisClient := Some (redis_CloseConnection rc)\<rparr>);
                app3 = (case app_pgClient app2 of None \<Rightarrow> app2 | Some pgc \<Rightarrow> app2\<lparr>app_pgClient := Some (pg_CloseConnection pgc)\<rparr>)
            in ([ShutdownServer, CloseTokenStore] @ (if app_redisClient app = None then [] else [CloseRedis]) @
                (if app_pgClient app = None then [] else [ClosePG]), app3)))"

end
