(* ===== verification/Gimme_OIDCSpec.thy ===== *)
theory Gimme_OIDCSpec
  imports Gimme_OIDC
begin

text \<open>
  The session of the OIDC provider: who gets one, and how long it lets requests through. The
  documented behaviour of the JWT library is the locale \<open>jwt_doc\<close>; the sessions the server has
  issued so far are the state of an inductive relation, and an attacker may present any cookie
  that is not a token signed with the secret of the server.
\<close>

subsection \<open>The JWT library\<close>

locale jwt_doc =
  fixes jwt :: jwt_pkg
  assumes parse: "jwt_ParseWithClaims jwt now s keyf = Inr (c, valid) \<Longrightarrow>
      valid \<and> (\<exists>alg k. keyf alg = Some k \<and> jwt_SignedString jwt alg c k = Inr s) \<and> cl_IssuedAt c \<le> now \<and> now < cl_ExpiresAt c"
    and accepts: "jwt_SignedString jwt alg c k = Inr s \<Longrightarrow> keyf alg = Some k \<Longrightarrow> cl_IssuedAt c \<le> now \<Longrightarrow> now < cl_ExpiresAt c \<Longrightarrow>
      jwt_ParseWithClaims jwt now s keyf = Inr (c, True)"
    and signed_claims: "jwt_SignedString jwt alg c k = Inr s \<Longrightarrow> jwt_SignedString jwt alg' c' k' = Inr s \<Longrightarrow> c = c'"

subsection \<open>Sessions\<close>

record session =
  ss_cookie :: string
  ss_at :: go_time
  ss_request :: request

text \<open>The session that a callback issues is the value of the session cookie it sets.\<close>

definition issued :: "set_cookie list \<Rightarrow> string option" where
  "issued cookies = map_option sc_Value (find (\<lambda>c. sc_Name c = sessionCookieName) cookies)"

text \<open>What must hold of the request that is given a session: the state and the nonce are those of the
  cookies of the browser, and the identity provider authenticated this user.\<close>

definition callback_ok :: "identity_provider \<Rightarrow> OIDCProvider \<Rightarrow> request \<Rightarrow> identity \<Rightarrow> bool" where
  "callback_ok ip p rq who \<longleftrightarrow>
     rq_Cookie rq stateCookieName = Some (rq_Query rq ''state'') \<and>
     (\<exists>raw tok claims. ip_Exchange ip (op_oauth2Config p) (rq_Query rq ''code'') = Inr (Some raw) \<and>
        ip_Verify ip (op_verifier p) raw = Inr tok \<and>
        it_Nonce tok \<noteq> '''' \<and> rq_Cookie rq nonceCookieName = Some (it_Nonce tok) \<and>
        it_Claims tok = Inr claims \<and> who = \<lparr>id_Sub = cl_Subject claims, id_Email = cl_Email claims, id_Name = cl_Name claims\<rparr>)"

text \<open>The log of a server: every callback that set a session cookie, with the cookie, the instant and
  the request, whatever that request was.\<close>

inductive oidc_log :: "identity_provider \<Rightarrow> jwt_pkg \<Rightarrow> OIDCProvider \<Rightarrow> session list \<Rightarrow> bool" for ip jwt p where
  none: "oidc_log ip jwt p []"
| callback: "oidc_log ip jwt p hist \<Longrightarrow> issued (snd (handleCallback ip jwt p now rq)) = Some cookie \<Longrightarrow>
    oidc_log ip jwt p (\<lparr>ss_cookie = cookie, ss_at = now, ss_request = rq\<rparr> # hist)"

lemma cookie_names: "sessionCookieName \<noteq> stateCookieName" "sessionCookieName \<noteq> nonceCookieName"
  by code_simp+

lemma issued_simps:
  "issued (clear_cookies p) = None"
  "issued (clear_cookies p @ [oidc_cookie p mode sessionCookieName v ttl]) = Some v"
  using cookie_names by (auto simp: issued_def clear_cookies_def oidc_cookie_def)

text \<open>The claims of a session.\<close>

definition session_claims :: "go_time \<Rightarrow> identity \<Rightarrow> oidcClaims" where
  "session_claims now who =
     \<lparr>cl_Email = id_Email who, cl_Name = id_Name who, cl_Issuer = sessionJWTIssuer, cl_Subject = id_Sub who, cl_Audience = [sessionJWTAudience],
      cl_ExpiresAt = truncate_second (now + sessionCookieTTL), cl_IssuedAt = truncate_second now\<rparr>"

lemma callback_issues:
  assumes "issued (snd (handleCallback ip jwt p now rq)) = Some cookie"
  obtains who where "callback_ok ip p rq who"
    and "jwt_SignedString jwt ''HS256'' (session_claims now who) (op_signingSecret p) = Inr cookie"
proof -
  from assms obtain raw tok claims where c: "rq_Cookie rq stateCookieName = Some (rq_Query rq ''state'')"
    "ip_Exchange ip (op_oauth2Config p) (rq_Query rq ''code'') = Inr (Some raw)" "ip_Verify ip (op_verifier p) raw = Inr tok"
    "it_Nonce tok \<noteq> ''''" "rq_Cookie rq nonceCookieName = Some (it_Nonce tok)" "it_Claims tok = Inr claims"
    "issueSessionCookie jwt p now (cl_Subject claims) (cl_Email claims) (cl_Name claims) = Inr cookie"
    by (auto simp: handleCallback_def Let_def issued_simps split: option.splits sum.splits if_split_asm)
  let ?who = "\<lparr>id_Sub = cl_Subject claims, id_Email = cl_Email claims, id_Name = cl_Name claims\<rparr>"
  have "callback_ok ip p rq ?who" using c by (auto simp: callback_ok_def)
  moreover have "jwt_SignedString jwt ''HS256'' (session_claims now ?who) (op_signingSecret p) = Inr cookie"
    using c(7) by (simp add: issueSessionCookie_def session_claims_def)
  ultimately show thesis by (rule that)
qed

lemma callback_ok_unique: "callback_ok ip p rq who \<Longrightarrow> callback_ok ip p rq who' \<Longrightarrow> who = who'"
  by (auto simp: callback_ok_def)

lemma log_signed:
  assumes "oidc_log ip jwt p hist" and "ses \<in> set hist"
  shows "\<exists>who. callback_ok ip p (ss_request ses) who \<and>
    jwt_SignedString jwt ''HS256'' (session_claims (ss_at ses) who) (op_signingSecret p) = Inr (ss_cookie ses)"
  using assms
proof (induction rule: oidc_log.induct)
  case (callback hist now rq cookie)
  obtain who where "callback_ok ip p rq who"
    "jwt_SignedString jwt ''HS256'' (session_claims now who) (op_signingSecret p) = Inr cookie"
    using callback_issues [OF callback(2)] .
  with callback(3,4) show ?case by auto
qed simp

text \<open>A request passes the login only with a session that a callback issued less than eight hours
  before, to whoever the identity provider authenticated in that callback.\<close>

lemma session_sound:
  assumes "jwt_doc jwt" and "oidc_log ip jwt p hist"
    and "LoginMiddleware jwt p now rq = Inr who" and "rq_Cookie rq sessionCookieName = Some cookie"
    and "\<forall>alg c. jwt_SignedString jwt alg c (op_signingSecret p) = Inr cookie \<longrightarrow> cookie \<in> ss_cookie ` set hist"
  shows "\<exists>ses \<in> set hist. ss_cookie ses = cookie \<and> callback_ok ip p (ss_request ses) who \<and>
    truncate_second (ss_at ses) \<le> now \<and> now < ss_at ses + sessionCookieTTL"
proof -
  from assms(3,4) obtain c valid where c: "jwt_ParseWithClaims jwt now cookie (session_key p) = Inr (c, valid)"
    "who = \<lparr>id_Sub = cl_Subject c, id_Email = cl_Email c, id_Name = cl_Name c\<rparr>"
    by (auto simp: LoginMiddleware_def split: sum.splits prod.splits if_split_asm)
  from jwt_doc.parse [OF assms(1) c(1)] obtain alg k where s: "session_key p alg = Some k" "jwt_SignedString jwt alg c k = Inr cookie"
    "cl_IssuedAt c \<le> now" "now < cl_ExpiresAt c" by blast
  have k: "k = op_signingSecret p" using s(1) by (simp add: session_key_def split: if_split_asm)
  with assms(5) s(2) obtain ses where ses: "ses \<in> set hist" "cookie = ss_cookie ses" by blast
  from log_signed [OF assms(2) ses(1)] obtain who' where ok: "callback_ok ip p (ss_request ses) who'"
    and signed: "jwt_SignedString jwt ''HS256'' (session_claims (ss_at ses) who') (op_signingSecret p) = Inr cookie"
    using ses(2) by blast
  from jwt_doc.signed_claims [OF assms(1) s(2) signed] have cl: "c = session_claims (ss_at ses) who'" .
  have "who = who'" unfolding c(2) cl by (simp add: session_claims_def)
  moreover have "cl_ExpiresAt c \<le> ss_at ses + sessionCookieTTL" unfolding cl by (simp add: session_claims_def truncate_second_def)
  moreover have "cl_IssuedAt c = truncate_second (ss_at ses)" unfolding cl by (simp add: session_claims_def)
  ultimately show ?thesis using ses ok s(3,4) by auto
qed

text \<open>C11: the session of a successful callback lets its user through, with the identity of the ID
  token, from the second of the callback until eight hours later, and not after.\<close>

theorem oidc_session_lifetime:
  assumes "jwt_doc jwt" and "issued (snd (handleCallback ip jwt p t0 rq0)) = Some cookie" and "callback_ok ip p rq0 who"
    and "rq_Cookie rq sessionCookieName = Some cookie"
  shows "LoginMiddleware jwt p now rq =
    (if truncate_second t0 \<le> now \<and> now < truncate_second (t0 + sessionCookieTTL) then Inr who else Inl (rejectUnauthenticated rq))"
proof -
  obtain who' where w: "callback_ok ip p rq0 who'"
    "jwt_SignedString jwt ''HS256'' (session_claims t0 who') (op_signingSecret p) = Inr cookie"
    using callback_issues [OF assms(2)] .
  have who: "who' = who" using callback_ok_unique [OF w(1) assms(3)] .
  let ?c = "session_claims t0 who"
  have key: "session_key p ''HS256'' = Some (op_signingSecret p)" by (simp add: session_key_def hmac_methods_def)
  have times: "cl_IssuedAt ?c = truncate_second t0" "cl_ExpiresAt ?c = truncate_second (t0 + sessionCookieTTL)"
    by (simp_all add: session_claims_def)
  show ?thesis
  proof (cases "truncate_second t0 \<le> now \<and> now < truncate_second (t0 + sessionCookieTTL)")
    case True
    then have "jwt_ParseWithClaims jwt now cookie (session_key p) = Inr (?c, True)"
      using jwt_doc.accepts [OF assms(1) w(2) [unfolded who], of "session_key p" now] key times by simp
    then show ?thesis using True assms(4) by (simp add: LoginMiddleware_def session_claims_def)
  next
    case False
    have "\<exists>e. jwt_ParseWithClaims jwt now cookie (session_key p) = Inl e"
    proof (cases "jwt_ParseWithClaims jwt now cookie (session_key p)")
      case (Inr r)
      then obtain c v where r: "jwt_ParseWithClaims jwt now cookie (session_key p) = Inr (c, v)" by (cases r) auto
      from jwt_doc.parse [OF assms(1) r] obtain alg k where s: "jwt_SignedString jwt alg c k = Inr cookie"
        "cl_IssuedAt c \<le> now" "now < cl_ExpiresAt c" by blast
      have "c = ?c" using jwt_doc.signed_claims [OF assms(1) s(1) w(2) [unfolded who]] .
      with s times False show ?thesis by simp
    qed simp
    then show ?thesis using False assms(4) by (auto simp: LoginMiddleware_def)
  qed
qed

subsection \<open>A reference library and two runs\<close>

text \<open>A token as the escaped fields, key included, with separators between them.\<close>

definition ref_fields :: "string \<Rightarrow> oidcClaims \<Rightarrow> string \<Rightarrow> string list" where
  "ref_fields alg c k =
     [alg, k, cl_Email c, cl_Name c, cl_Issuer c, cl_Subject c, Itoa (cl_ExpiresAt c), Itoa (cl_IssuedAt c)] @ cl_Audience c"

definition ref_token_text :: "string list \<Rightarrow> string" where
  "ref_token_text xs = Join (map QueryEscape xs) [CHR ''&'']"

definition text_int :: "string \<Rightarrow> int" where
  "text_int s = (case s of [] \<Rightarrow> 0 | c # r \<Rightarrow> if c = CHR ''-'' then - digits_value r else digits_value s)"

definition ref_parse :: "go_time \<Rightarrow> string \<Rightarrow> (string \<Rightarrow> string option) \<Rightarrow> go_error + (oidcClaims \<times> bool)" where
  "ref_parse now s keyf =
     (case those (map (unescape True) (Split s (CHR ''&''))) of
        Some (alg # k # email # name # issuer # subject # expires # issued_at # audience) \<Rightarrow>
          (let c = \<lparr>cl_Email = email, cl_Name = name, cl_Issuer = issuer, cl_Subject = subject, cl_Audience = audience,
                    cl_ExpiresAt = text_int expires, cl_IssuedAt = text_int issued_at\<rparr>
           in if ref_token_text (ref_fields alg c k) = s \<and> keyf alg = Some k \<and> cl_IssuedAt c \<le> now \<and> now < cl_ExpiresAt c
              then Inr (c, True) else Inl (External ''invalid token''))
      | _ \<Rightarrow> Inl (External ''invalid token''))"

definition ref_jwt :: jwt_pkg where
  "ref_jwt = \<lparr>jwt_SignedString = (\<lambda>alg c k. Inr (ref_token_text (ref_fields alg c k))), jwt_ParseWithClaims = ref_parse\<rparr>"

lemma text_int_Itoa: "text_int (Itoa i) = i"
proof (cases "i < 0")
  case True
  then show ?thesis using dec_digits_value [of "- i"] by (simp add: Itoa_def text_int_def)
next
  case False
  then have d: "digits_value (dec_digits i) = i" "list_all is_dec (dec_digits i)" "dec_digits i \<noteq> ''''"
    using dec_digits_value [of i] by simp_all
  then obtain x r where cons: "dec_digits i = x # r" by (cases "dec_digits i") simp_all
  with d(2) have "x \<noteq> CHR ''-''" using is_dec_sign [of x] by simp
  with d cons False show ?thesis by (simp add: Itoa_def text_int_def)
qed

lemma those_unescape: "those (map (unescape True) (map QueryEscape xs)) = Some xs"
  by (induction xs) (simp_all add: unescape_QueryEscape)

lemma token_text_fields:
  assumes "xs \<noteq> []"
  shows "those (map (unescape True) (Split (ref_token_text xs) (CHR ''&''))) = Some xs"
proof -
  have "CHR ''&'' \<notin> set (QueryEscape s)" for s by (rule QueryEscape_sep)
  then have "Split (ref_token_text xs) (CHR ''&'') = map QueryEscape xs"
    unfolding ref_token_text_def using assms by (intro Split_Join) auto
  then show ?thesis by (simp only: those_unescape)
qed

lemma parse_token_text:
  "ref_parse now (ref_token_text (ref_fields alg c k)) keyf =
     (if keyf alg = Some k \<and> cl_IssuedAt c \<le> now \<and> now < cl_ExpiresAt c then Inr (c, True) else Inl (External ''invalid token''))"
proof -
  have "those (map (unescape True) (Split (ref_token_text (ref_fields alg c k)) (CHR ''&''))) = Some (ref_fields alg c k)"
    by (rule token_text_fields) (simp add: ref_fields_def)
  then show ?thesis unfolding ref_parse_def Let_def by (simp add: ref_fields_def text_int_Itoa)
qed

interpretation ref_jwt: jwt_doc ref_jwt
proof
  show "jwt_ParseWithClaims ref_jwt now s keyf = Inr (c, True)"
    if "jwt_SignedString ref_jwt alg c k = Inr s" "keyf alg = Some k" "cl_IssuedAt c \<le> now" "now < cl_ExpiresAt c" for alg c k s keyf now
    using that by (auto simp: ref_jwt_def parse_token_text)
  show "c = c'" if "jwt_SignedString ref_jwt alg c k = Inr s" "jwt_SignedString ref_jwt alg' c' k' = Inr s" for alg c k s alg' c' k'
  proof -
    have "ref_token_text (ref_fields alg c k) = ref_token_text (ref_fields alg' c' k')" using that by (simp add: ref_jwt_def)
    then have "Some (ref_fields alg c k) = Some (ref_fields alg' c' k')"
      using token_text_fields [of "ref_fields alg c k"] token_text_fields [of "ref_fields alg' c' k'"] by (simp add: ref_fields_def)
    then have eqs: "cl_Email c = cl_Email c'" "cl_Name c = cl_Name c'" "cl_Issuer c = cl_Issuer c'" "cl_Subject c = cl_Subject c'"
      "text_int (Itoa (cl_ExpiresAt c)) = text_int (Itoa (cl_ExpiresAt c'))" "text_int (Itoa (cl_IssuedAt c)) = text_int (Itoa (cl_IssuedAt c'))"
      "cl_Audience c = cl_Audience c'" by (simp_all add: ref_fields_def)
    then show ?thesis by (simp add: text_int_Itoa)
  qed
  show "valid \<and> (\<exists>alg k. keyf alg = Some k \<and> jwt_SignedString ref_jwt alg c k = Inr s) \<and> cl_IssuedAt c \<le> now \<and> now < cl_ExpiresAt c"
    if "jwt_ParseWithClaims ref_jwt now s keyf = Inr (c, valid)" for now s keyf c valid
    using that by (auto simp: ref_jwt_def ref_parse_def Let_def split: option.splits list.splits if_split_asm)
qed

definition ref_idp :: identity_provider where
  "ref_idp =
     \<lparr>ip_Discover = (\<lambda>issuer. Inr (issuer @ ''/auth'')), ip_Exchange = (\<lambda>_ code. if code = ''c1'' then Inr (Some ''raw'') else Inl (External ''bad code'')),
      ip_Verify = (\<lambda>_ raw. Inr \<lparr>it_Nonce = ''n1'', it_Claims = Inr \<lparr>cl_Email = ''a@b'', cl_Name = ''ann'', cl_Issuer = ''idp'', cl_Subject = ''42'',
        cl_Audience = [''gimme''], cl_ExpiresAt = 0, cl_IssuedAt = 0\<rparr>\<rparr>),
      ip_AuthCodeURL = (\<lambda>_ state nonce. ''https://idp/auth?state='' @ state)\<rparr>"

definition ref_provider :: OIDCProvider where
  "ref_provider = \<lparr>op_oauth2Config = \<lparr>oa_ClientID = ''gimme'', oa_ClientSecret = ''s'', oa_RedirectURL = ''/auth/callback'',
     oa_Endpoint = ''https://idp/auth'', oa_Scopes = [''openid'', ''profile'', ''email'']\<rparr>, op_verifier = ''gimme'', op_signingSecret = ''k'', op_secureCookies = True\<rparr>"

definition ref_callback :: request where
  "ref_callback = \<lparr>rq_Method = ''GET'', rq_Path = ''/auth/callback'', rq_Header = (\<lambda>_. ''''),
     rq_Query = (\<lambda>k. if k = ''state'' then ''s1'' else if k = ''code'' then ''c1'' else ''''), rq_Param = (\<lambda>_. ''''),
     rq_Cookie = (\<lambda>k. if k = stateCookieName then Some ''s1'' else if k = nonceCookieName then Some ''n1'' else None)\<rparr>"

definition ref_user :: identity where
  "ref_user = \<lparr>id_Sub = ''42'', id_Email = ''a@b'', id_Name = ''ann''\<rparr>"

definition ref_admin :: "string \<Rightarrow> request" where
  "ref_admin cookie = ref_callback\<lparr>rq_Path := ''/admin'', rq_Cookie := (\<lambda>k. if k = sessionCookieName then Some cookie else None)\<rparr>"

lemma ref_callback_ok: "callback_ok ref_idp ref_provider ref_callback ref_user"
proof -
  have "stateCookieName \<noteq> nonceCookieName" by code_simp
  then show ?thesis by (simp add: callback_ok_def ref_idp_def ref_provider_def ref_callback_def ref_user_def)
qed

definition ref_session :: string where
  "ref_session = ref_token_text (ref_fields ''HS256'' (session_claims 5000000000 ref_user) ''k'')"

lemma ref_issued: "issued (snd (handleCallback ref_idp ref_jwt ref_provider 5000000000 ref_callback)) = Some ref_session"
  by code_simp

theorem oidc_session_lifetime_witness:
  "LoginMiddleware ref_jwt ref_provider 6000000000 (ref_admin ref_session) = Inr ref_user"
proof -
  have t: "truncate_second 5000000000 \<le> 6000000000 \<and> 6000000000 < truncate_second (5000000000 + sessionCookieTTL)" by code_simp
  have c: "rq_Cookie (ref_admin ref_session) sessionCookieName = Some ref_session" by (simp add: ref_admin_def)
  from oidc_session_lifetime [OF ref_jwt.jwt_doc_axioms ref_issued ref_callback_ok c, of 6000000000] show ?thesis unfolding if_P [OF t] .
qed

end
