(* ===== verification/Gimme_ConfigSpec.thy ===== *)
theory Gimme_ConfigSpec
  imports Gimme_Config
begin

text \<open>
  What an accepted configuration guarantees to the rest of the program, and which sizes are read
  exactly. The documented behaviour of viper (environment over file over default) is the locale
  \<open>viper_doc\<close>.
\<close>

subsection \<open>Sizes\<close>

lemma div_less_of_mult: "0 < p \<Longrightarrow> x < c * p \<Longrightarrow> x div p < (c :: int)"
proof (rule ccontr)
  assume p: "0 < p" "x < c * p" "\<not> x div p < c"
  then have "c * p \<le> x div p * p" by (intro mult_right_mono) simp_all
  also have "\<dots> \<le> x" using p(1) by (simp add: div_mult_mod_eq [symmetric] minus_mod_eq_div_mult [symmetric])
  finally show False using p(2) by simp
qed

lemma float_trunc_bounds:
  assumes "\<not> float_ge f c" and "\<not> float_le f (- c)" and "0 < c"
  shows "- c < float_trunc f \<and> float_trunc f < c"
proof (cases f)
  case (Pair m e)
  show ?thesis
  proof (cases "0 \<le> e")
    case True
    with assms Pair show ?thesis by (auto simp: float_ge_def float_le_def float_trunc_def)
  next
    case False
    let ?p = "2 ^ nat (- e) :: int"
    have "\<bar>m\<bar> < c * ?p" using assms(1,2) False Pair by (auto simp: float_ge_def float_le_def)
    then have "\<bar>m\<bar> div ?p < c" by (intro div_less_of_mult) simp_all
    moreover have "0 \<le> \<bar>m\<bar> div ?p" by (simp add: pos_imp_zdiv_nonneg_iff)
    ultimately show ?thesis using assms(3) False Pair by (cases "m = 0"; cases "0 < m") (simp_all add: float_trunc_def)
  qed
qed

lemma parseSize_range: "parseSize raw = Inr b \<Longrightarrow> - (2 ^ 63) < b \<and> b < 2 ^ 63"
  using float_trunc_bounds [of _ "2 ^ 63"]
  by (auto simp: parseSize_def Let_def split: option.splits prod.splits if_split_asm)

lemma bit_count_le: "n < 2 ^ k \<Longrightarrow> bit_count n \<le> int k"
proof (induction n arbitrary: k rule: bit_count.induct)
  case (1 n)
  show ?case
  proof (cases "n \<le> 0")
    case True
    then show ?thesis by (simp add: bit_count.simps [of n])
  next
    case False
    with 1(2) obtain k' where k: "k = Suc k'" by (cases k) auto
    have "n div 2 < 2 ^ k'" using 1(2) k by (intro div_less_of_mult) (simp_all add: mult.commute)
    with 1(1) [OF False, of k'] False k show ?thesis by (simp add: bit_count.simps [of n])
  qed
qed

lemma bit_count_pos: "0 < n \<Longrightarrow> 1 \<le> bit_count n"
proof -
  have "0 \<le> bit_count m" for m by (induction m rule: bit_count.induct) (simp add: bit_count.simps)
  then show "0 < n \<Longrightarrow> 1 \<le> bit_count n" by (simp add: bit_count.simps [of n])
qed

lemma nearest_float_exact:
  assumes "0 < n" and "n < 2 ^ 53"
  obtains k where "nearest_float n 1 = Some (n * 2 ^ k, - int k)"
proof -
  have one: "bit_count 1 = 1" by code_simp
  define e0 where "e0 = bit_count n - 54"
  have range: "- 53 \<le> e0" "e0 \<le> - 1" using bit_count_pos [OF assms(1)] bit_count_le [of n 53] assms(2) by (simp_all add: e0_def)
  define large where "large = (if 0 \<le> e0 then 2 ^ 53 \<le> n div (1 * 2 ^ nat e0) else 2 ^ 53 \<le> n * 2 ^ nat (- e0) div 1)"
  define e where "e = max (if large then e0 + 1 else e0) (- 1074)"
  have e: "e \<le> 0" using range by (simp add: e_def)
  have r: "round_half_even x 1 = x" for x by (simp add: round_half_even_def)
  define m where "m = (if 0 \<le> e then round_half_even n (1 * 2 ^ nat e) else round_half_even (n * 2 ^ nat (- e)) 1)"
  have m: "m = n * 2 ^ nat (- e)" using e by (cases "e = 0") (simp_all add: r m_def)
  have "(2 :: int) ^ 53 \<le> 2 ^ 1024" by (intro power_increasing) simp_all
  then have "n < 2 ^ 1024" using assms(2) by (rule less_le_trans [rotated])
  then have small: "\<not> (0 \<le> e \<and> 2 ^ 1024 \<le> m * 2 ^ nat e)" using e m by (cases "e = 0") (simp_all only: not_less, auto)
  have n0: "n \<noteq> 0" and width: "bit_count n - bit_count 1 - 53 = e0" using assms(1) by (simp_all add: one e0_def)
  have "nearest_float n 1 = (if 0 \<le> e \<and> 2 ^ 1024 \<le> m * 2 ^ nat e then None else Some (m, e))"
    unfolding nearest_float_def Let_def if_not_P [OF n0] width large_def [symmetric] e_def [symmetric] m_def [symmetric] by (rule refl)
  then have "nearest_float n 1 = Some (n * 2 ^ nat (- e), e)" unfolding if_not_P [OF small] unfolding m .
  moreover have "e = - int (nat (- e))" using e by simp
  ultimately show thesis using that [of "nat (- e)"] by simp
qed

lemma takeWhile_run: "list_all P xs \<Longrightarrow> ys = [] \<or> \<not> P (hd ys) \<Longrightarrow> takeWhile P (xs @ ys) = xs"
  by (induction xs) (auto simp: takeWhile_eq_Nil_iff)

lemma dropWhile_run: "list_all P xs \<Longrightarrow> ys = [] \<or> \<not> P (hd ys) \<Longrightarrow> dropWhile P (xs @ ys) = ys"
  by (induction xs) (auto simp: dropWhile_eq_self_iff)

lemma is_dec_range: "is_dec c \<longleftrightarrow> 48 \<le> (of_char c :: nat) \<and> (of_char c :: nat) \<le> 57"
  by (simp add: is_dec_def less_eq_char_def)

lemma no_sign_class: "c \<in> {CHR ''+'', CHR ''-'', CHR ''.''} \<Longrightarrow> \<not> is_dec c \<and> \<not> is_letter c \<and> \<not> is_re_space c"
proof -
  have "list_all (\<lambda>c. \<not> is_dec c \<and> \<not> is_letter c \<and> \<not> is_re_space c) [CHR ''+'', CHR ''-'', CHR ''.'']" by code_simp
  then show "c \<in> {CHR ''+'', CHR ''-'', CHR ''.''} \<Longrightarrow> \<not> is_dec c \<and> \<not> is_letter c \<and> \<not> is_re_space c" by (auto simp: list_all_iff)
qed

lemma disjoint_classes: "is_dec c \<Longrightarrow> \<not> is_re_space c \<and> \<not> is_letter c" "is_letter c \<Longrightarrow> \<not> is_re_space c"
  unfolding is_dec_range is_letter_def is_re_space_def Let_def insert_iff empty_iff by (simp; linarith)+

lemma char_classes:
  "is_dec c \<Longrightarrow> \<not> is_re_space c \<and> \<not> is_letter c \<and> c \<notin> {CHR ''+'', CHR ''-'', CHR ''.''}"
  "is_letter c \<Longrightarrow> \<not> is_re_space c \<and> \<not> is_dec c \<and> c \<notin> {CHR ''+'', CHR ''-'', CHR ''.''}"
  "is_re_space c \<Longrightarrow> \<not> is_dec c \<and> \<not> is_letter c \<and> c \<notin> {CHR ''+'', CHR ''-'', CHR ''.''}"
  using no_sign_class [of c] disjoint_classes [of c] by blast+

lemma float_trunc_scaled: "0 < x \<Longrightarrow> float_trunc (x * 2 ^ k, - int k) = x"
  by (cases "k = 0") (simp_all add: float_trunc_def sgn_if)

text \<open>A number with an optional unit, and spaces around both, matches with these parts.\<close>

lemma sizePattern_number:
  assumes "list_all is_re_space s1" and "list_all is_re_space s2" and "list_all is_re_space s3"
    and "list_all is_dec ds" and "ds \<noteq> []" and "list_all is_letter unit"
  shows "sizePattern (s1 @ ds @ s2 @ unit @ s3) = Some (ds, unit)"
proof -
  have hd_ds: "is_dec (hd ds)" using assms(4,5) by (cases ds) auto
  have hd_of: "xs = [] \<or> P (hd (xs @ ys))" if "list_all P xs" for P and xs ys :: string using that by (cases xs) auto
  have rest_hd: "s2 @ unit @ s3 = [] \<or> is_re_space (hd (s2 @ unit @ s3)) \<or> is_letter (hd (s2 @ unit @ s3))"
    using hd_of [OF assms(2), of "unit @ s3"] hd_of [OF assms(6), of s3] hd_of [OF assms(3), of "[]"]
    by (cases s2; cases unit) (simp_all, blast?)
  then have not_dec: "s2 @ unit @ s3 = [] \<or> \<not> is_dec (hd (s2 @ unit @ s3))" using char_classes by blast
  have no_dot: "(case s2 @ unit @ s3 of [] \<Rightarrow> [] | c # r \<Rightarrow> if c = CHR ''.'' then takeWhile is_dec r else []) = []"
  proof (cases "s2 @ unit @ s3")
    case (Cons c r)
    with rest_hd have "is_re_space c \<or> is_letter c" by simp
    then have "c \<noteq> CHR ''.''" using char_classes(2,3) [of c] by blast
    with Cons show ?thesis by simp
  qed simp
  have start: "dropWhile is_re_space (s1 @ ds @ s2 @ unit @ s3) = ds @ s2 @ unit @ s3"
    using char_classes(1) [OF hd_ds] assms(5) by (intro dropWhile_run [OF assms(1)]) simp
  have sign: "(case ds @ s2 @ unit @ s3 of [] \<Rightarrow> [] | c # _ \<Rightarrow> if c = CHR ''+'' \<or> c = CHR ''-'' then [c] else []) = []"
  proof (cases ds)
    case (Cons c r)
    with hd_ds have "is_dec c" by simp
    then have "\<not> (c = CHR ''+'' \<or> c = CHR ''-'')" using char_classes(1) [of c] by blast
    with Cons show ?thesis by simp
  qed (use assms(5) in simp)
  have num: "takeWhile is_dec (ds @ s2 @ unit @ s3) = ds" "dropWhile is_dec (ds @ s2 @ unit @ s3) = s2 @ unit @ s3"
    by (rule takeWhile_run [OF assms(4) not_dec], rule dropWhile_run [OF assms(4) not_dec])
  have s3: "dropWhile is_re_space s3 = []" using dropWhile_run [OF assms(3), of "[]"] by simp
  have after_unit: "s3 = [] \<or> \<not> is_letter (hd s3)" using hd_of [OF assms(3), of "[]"] char_classes(3) unfolding append_Nil2 by blast
  have spaces: "dropWhile is_re_space (s2 @ unit @ s3) = (if unit = [] then [] else unit @ s3)"
  proof (cases unit)
    case Nil
    have "list_all is_re_space (s2 @ s3)" using assms(2,3) by simp
    then show ?thesis using Nil dropWhile_run [of is_re_space "s2 @ s3" "[]"] by simp
  next
    case (Cons c cs)
    then have "unit @ s3 = [] \<or> \<not> is_re_space (hd (unit @ s3))" using assms(6) char_classes(2) [of c] by simp
    then show ?thesis using dropWhile_run [OF assms(2)] Cons by simp
  qed
  have unit_part: "takeWhile is_letter (if unit = [] then [] else unit @ s3) = unit"
    "dropWhile is_re_space (dropWhile is_letter (if unit = [] then [] else unit @ s3)) = []"
    using takeWhile_run [OF assms(6) after_unit] dropWhile_run [OF assms(6) after_unit] s3 by simp_all
  show ?thesis
    unfolding sizePattern_def Let_def start sign using num no_dot spaces unit_part assms(5) by simp
qed

lemma ParseFloat_digits:
  assumes "0 < n" and "n < 2 ^ 53"
  obtains k where "ParseFloat_decimal (Itoa n) = Some (n * 2 ^ k, - int k)"
proof -
  have d: "digits_value (Itoa n) = n" "list_all is_dec (Itoa n)" "Itoa n \<noteq> []"
    using dec_digits_value [of n] assms(1) by (simp_all add: Itoa_def)
  have "CHR ''.'' \<notin> set (Itoa n)" using d(2) char_classes(1) unfolding list_all_iff by blast
  then have cut: "Cut (Itoa n) (CHR ''.'') = (Itoa n, '''', False)" by (rule Cut_not_found)
  have sign: "split_sign (Itoa n) = (False, Itoa n)"
  proof (cases "Itoa n")
    case (Cons c r)
    with d(2) have "\<not> (c = CHR ''-'' \<or> c = CHR ''+'')" using char_classes(1) [of c] by simp
    with Cons show ?thesis by (simp add: split_sign_def)
  qed (use d(3) in simp)
  obtain k where "nearest_float n 1 = Some (n * 2 ^ k, - int k)" using nearest_float_exact [OF assms] .
  then have "ParseFloat_decimal (Itoa n) = Some (n * 2 ^ k, - int k)"
    by (simp add: ParseFloat_decimal_def sign cut d(1))
  then show thesis by (rule that)
qed

text \<open>C23: a whole number of bytes below \<open>2^53\<close>, or of one of the units, is read exactly, whatever
  the spaces around it and the case of the unit: its value is the count times the power of 1024,
  or the size is rejected when it does not fit in 64 bits.\<close>

theorem parseSize_exact:
  assumes "list_all is_re_space s1" and "list_all is_re_space s2" and "list_all is_re_space s3" and "list_all is_letter unit"
    and "0 \<le> n" and "n < 2 ^ 53" and "sizeMultipliers (ToUpper unit) = Some multiplier"
  shows "parseSize (s1 @ Itoa n @ s2 @ unit @ s3) =
    (if n * multiplier < 2 ^ 63 then Inr (n * multiplier) else Inl (SizeOverflow (s1 @ Itoa n @ s2 @ unit @ s3)))"
proof -
  let ?raw = "s1 @ Itoa n @ s2 @ unit @ s3"
  have d: "list_all is_dec (Itoa n)" "Itoa n \<noteq> []" using dec_digits_value [OF assms(5)] assms(5) by (simp_all add: Itoa_def)
  note pat = sizePattern_number [OF assms(1-3) d assms(4)]
  have mult: "0 < multiplier"
    using assms(7) by (auto simp: sizeMultipliers_def split: if_split_asm)
  have step: "parseSize ?raw = (let bytes = (m * multiplier, e)
      in if float_ge bytes (2 ^ 63) \<or> float_le bytes (- (2 ^ 63)) then Inl (SizeOverflow ?raw) else Inr (float_trunc bytes))"
    if "ParseFloat_decimal (Itoa n) = Some (m, e)" for m e
    unfolding parseSize_def pat using assms(7) that by simp
  show ?thesis
  proof (cases "n = 0")
    case True
    have "ParseFloat_decimal (Itoa 0) = Some (0, 0)" by code_simp
    from step [unfolded True, OF this] show ?thesis by (simp add: True float_ge_def float_le_def float_trunc_def)
  next
    case False
    with assms(5,6) obtain k where f: "ParseFloat_decimal (Itoa n) = Some (n * 2 ^ k, - int k)" using ParseFloat_digits [of n] by auto
    let ?b = "(n * 2 ^ k * multiplier, - int k)"
    have val: "n * 2 ^ k * multiplier = n * multiplier * 2 ^ k" by simp
    have pos: "0 < n * multiplier" using False assms(5) mult by simp
    have ge: "float_ge ?b (2 ^ 63) \<longleftrightarrow> 2 ^ 63 \<le> n * multiplier"
      unfolding float_ge_def val by (cases "k = 0") simp_all
    have le: "\<not> float_le ?b (- (2 ^ 63))"
    proof -
      have "- (2 ^ 63) * 2 ^ k < n * multiplier * (2 :: int) ^ k" using pos by (intro mult_strict_right_mono) simp_all
      then show ?thesis unfolding float_le_def val by (cases "k = 0") simp_all
    qed
    have tr: "float_trunc ?b = n * multiplier"
      unfolding val by (rule float_trunc_scaled [OF pos])
    show ?thesis unfolding step [OF f] Let_def tr using ge le by auto
  qed
qed

theorem parseSize_exact_witness:
  "parseSize ('' '' @ Itoa 100 @ '' '' @ ''mb'' @ '''') = Inr 104857600"
proof -
  have "list_all is_re_space '' ''" "list_all is_re_space ''''" "list_all is_letter ''mb''" "sizeMultipliers (ToUpper ''mb'') = Some (2 ^ 20)"
    by code_simp+
  from parseSize_exact [OF this(1,1,2,3) _ _ this(4), of 100] show ?thesis by simp
qed

subsection \<open>Trimming\<close>

lemma drop_spaces_done:
  "list_all (\<lambda>r. r \<noteq> []) rs \<Longrightarrow> length s \<le> n \<Longrightarrow> find (\<lambda>r. prefix r (drop_spaces rs n s)) rs = None"
proof (induction rs n s rule: drop_spaces.induct)
  case (1 rs s)
  then show ?case by (auto simp: find_None_iff list_all_iff)
next
  case (2 rs n s)
  show ?case
  proof (cases "find (\<lambda>r. prefix r s) rs")
    case (Some r)
    then have "r \<in> set rs" "prefix r s" by (auto simp: find_Some_iff)
    with 2(2) have "r \<noteq> []" "length r \<le> length s" by (auto simp: list_all_iff prefix_length_le)
    then have "length (drop (length r) s) \<le> n" using 2(3) by (cases r) auto
    with 2(1) [OF Some 2(2)] Some show ?thesis by simp
  qed simp
qed

lemma drop_spaces_fixed: "find (\<lambda>r. prefix r s) rs = None \<Longrightarrow> drop_spaces rs n s = s"
  by (cases n) simp_all

lemma drop_spaces_suffix: "suffix (drop_spaces rs n s) s"
proof (induction rs n s rule: drop_spaces.induct)
  case (2 rs n s)
  then show ?case by (auto split: option.split intro: suffix_order.trans [OF _ suffix_drop])
qed simp

lemma TrimSpace_set: "set (TrimSpace s) \<subseteq> set s"
proof -
  have "set (drop_spaces rs n s) \<subseteq> set s" for rs n s using drop_spaces_suffix by (rule set_mono_suffix)
  then show ?thesis unfolding TrimSpace_def Let_def set_rev by (metis set_rev subset_trans)
qed

lemma TrimSpace_idem: "TrimSpace (TrimSpace s) = TrimSpace s"
proof -
  have runes: "list_all (\<lambda>r. r \<noteq> []) space_runes" "list_all (\<lambda>r. r \<noteq> []) (map rev space_runes)" by code_simp+
  define l where "l = drop_spaces space_runes (length s) s"
  define t where "t = drop_spaces (map rev space_runes) (length l) (rev l)"
  have t: "TrimSpace s = rev t" by (simp add: TrimSpace_def Let_def l_def t_def)
  have no_left: "find (\<lambda>r. prefix r l) space_runes = None" unfolding l_def by (rule drop_spaces_done [OF runes(1)]) simp
  have no_right: "find (\<lambda>r. prefix r t) (map rev space_runes) = None" unfolding t_def by (rule drop_spaces_done [OF runes(2)]) simp
  have "prefix (rev t) l" using drop_spaces_suffix [of "map rev space_runes" "length l" "rev l"] by (simp add: t_def suffix_to_prefix)
  then have "find (\<lambda>r. prefix r (rev t)) space_runes = None"
    using no_left unfolding find_None_iff by (meson prefix_order.trans)
  from drop_spaces_fixed [OF this] drop_spaces_fixed [OF no_right] show ?thesis unfolding t by (simp add: TrimSpace_def Let_def)
qed

subsection \<open>Accepted configurations\<close>

definition size_ok :: "Size \<Rightarrow> bool" where
  "size_ok sz \<longleftrightarrow> sz_err sz = None \<and> 0 < sz_Bytes sz"

definition valid_config :: "Configuration \<Rightarrow> bool" where
  "valid_config c \<longleftrightarrow>
     (auth_Mode (Auth c) = ''basic'' \<and> AdminUser c \<noteq> '''' \<and> AdminPassword c \<noteq> '''' \<or>
      auth_Mode (Auth c) = ''oidc'' \<and> oc_Issuer (auth_OIDC (Auth c)) \<noteq> '''' \<and> oc_ClientID (auth_OIDC (Auth c)) \<noteq> '''' \<and>
        oc_RedirectURL (auth_OIDC (Auth c)) \<noteq> '''') \<and>
     32 \<le> length (Secret c) \<and> '''' \<notin> {S3Url c, S3Key c, S3Secret c, S3Location c} \<and>
     size_ok (uc_MaxSize (Upload c)) \<and> size_ok (uc_MaxUncompressedSize (Upload c)) \<and> 0 < uc_MaxEntries (Upload c) \<and>
     (cc_Enabled (Cache c) \<longrightarrow> cc_Type (Cache c) = ''redis'' \<and> RedisURL c \<noteq> '''') \<and>
     (tsc_Mode (TokenStore c) = ''file'' \<or> tsc_Mode (TokenStore c) = ''redis'' \<and> RedisURL c \<noteq> '''' \<or>
      tsc_Mode (TokenStore c) = ''postgres'' \<and> tsc_PostgresURL (TokenStore c) \<noteq> '''')"

lemma problem_if_Nil [simp]: "problem_if b p = [] \<longleftrightarrow> \<not> b"
  by (simp add: problem_if_def)

lemma sizeProblem_Nil: "sizeProblem k sz = [] \<longleftrightarrow> size_ok sz"
  by (simp add: sizeProblem_def size_ok_def)

lemma secret_problems_Nil: "secret_problems s = [] \<longleftrightarrow> 32 \<le> length s"
  by (auto simp: secret_problems_def)

lemma auth_problems_Nil:
  "auth_problems a = [] \<longleftrightarrow> auth_Mode a = ''basic'' \<or> auth_Mode a = ''oidc'' \<and> oc_Issuer (auth_OIDC a) \<noteq> '''' \<and>
     oc_ClientID (auth_OIDC a) \<noteq> '''' \<and> oc_RedirectURL (auth_OIDC a) \<noteq> ''''"
  by (simp add: auth_problems_def)

lemma token_mode_problems:
  "(mode \<noteq> ''file'' \<and> mode \<noteq> ''redis'' \<and> mode \<noteq> ''postgres'' \<or> mode = ''redis'' \<and> url = '''' \<or> mode = ''postgres'' \<and> pg = '''') \<longleftrightarrow>
   \<not> (mode = ''file'' \<or> mode = ''redis'' \<and> url \<noteq> '''' \<or> mode = ''postgres'' \<and> pg \<noteq> '''')"
  for mode url pg :: string by auto

lemma config_problems_Nil: "config_problems c = [] \<longleftrightarrow> valid_config c"
proof -
  have basic: "(if m = ''basic'' then problem_if b p @ problem_if b' p' else []) = [] \<longleftrightarrow> (m = ''basic'' \<longrightarrow> \<not> b \<and> \<not> b')" for m b p b' p' by simp
  have cache: "(if en then problem_if b p @ problem_if b' p' else []) = [] \<longleftrightarrow> (en \<longrightarrow> \<not> b \<and> \<not> b')" for en b p b' p' by simp
  have auth: "(m = ''basic'' \<longrightarrow> \<not> user = '''' \<and> \<not> pw = '''') \<and> (m = ''basic'' \<or> m = ''oidc'' \<and> oidc) \<longleftrightarrow>
      m = ''basic'' \<and> user \<noteq> '''' \<and> pw \<noteq> '''' \<or> m = ''oidc'' \<and> oidc" for m user pw :: string and oidc by auto
  show ?thesis
    unfolding config_problems_def append_is_Nil_conv basic cache problem_if_Nil sizeProblem_Nil secret_problems_Nil auth_problems_Nil
      valid_config_def insert_iff empty_iff auth [symmetric] not_le
    using token_mode_problems [of "tsc_Mode (TokenStore c)" "RedisURL c" "tsc_PostgresURL (TokenStore c)"]
    by argo
qed

lemma accepted:
  "NewConfig vp = Inr c \<longleftrightarrow>
     (\<forall>m. vp_ReadInConfig vp config_setup \<noteq> Some (ReadFailed m)) \<and> c = read_config vp config_setup \<and> valid_config c"
  unfolding NewConfig_def Let_def validateConfig_def config_problems_Nil
  by (auto split: option.split read_error.split)

lemma splitOrigins_clean:
  assumes "origin \<in> set (splitOrigins raw)"
  shows "origin \<noteq> '''' \<and> CHR '','' \<notin> set origin \<and> TrimSpace origin = origin"
proof -
  from assms obtain item part where o: "part \<in> set (Split item (CHR '',''))" "origin = TrimSpace part" "origin \<noteq> ''''"
    by (auto simp: splitOrigins_def)
  have "set (TrimSpace part) \<subseteq> set part" by (rule TrimSpace_set)
  with o Split_parts [OF o(1)] show ?thesis by (auto simp: TrimSpace_idem)
qed

text \<open>C22: \<open>NewConfig\<close> accepts a configuration exactly when the file, if there is one, was read and
  every requirement holds: the credentials of the authentication mode, a secret of 32 bytes, the
  storage, positive limits, and a Redis or PostgreSQL URL wherever a component needs one.\<close>

theorem NewConfig_accepts:
  "NewConfig vp = Inr c \<longleftrightarrow>
     (\<forall>m. vp_ReadInConfig vp config_setup \<noteq> Some (ReadFailed m)) \<and> c = read_config vp config_setup \<and> valid_config c"
  by (rule accepted)

text \<open>C21: in an accepted configuration both size limits are positive and fit in 64 bits, the limit on
  the number of entries is positive, each allowed origin is non-empty, free of commas and of spaces
  around it, and the modes are among those the program knows.\<close>

theorem NewConfig_wellformed:
  assumes "NewConfig vp = Inr c"
  shows "{sz_Bytes (uc_MaxSize (Upload c)), sz_Bytes (uc_MaxUncompressedSize (Upload c))} \<subseteq> {0 <..< 2 ^ 63} \<and>
    0 < uc_MaxEntries (Upload c) \<and>
    (\<forall>origin \<in> set (CORSAllowedOrigins c). origin \<noteq> '''' \<and> CHR '','' \<notin> set origin \<and> TrimSpace origin = origin) \<and>
    auth_Mode (Auth c) \<in> {''basic'', ''oidc''} \<and> tsc_Mode (TokenStore c) \<in> {''file'', ''redis'', ''postgres''}"
proof -
  have c: "c = read_config vp config_setup" and valid: "valid_config c" using assms accepted by blast+
  have size: "sz_Bytes (readSize vp s k) \<in> {0 <..< 2 ^ 63}" if "size_ok (readSize vp s k)" for s k
    using that parseSize_range by (auto simp: readSize_def size_of_def size_ok_def split: sum.splits)
  have "uc_MaxSize (Upload c) = readSize vp config_setup ''upload.max_size''"
    "uc_MaxUncompressedSize (Upload c) = readSize vp config_setup ''upload.max_uncompressed_size''"
    "CORSAllowedOrigins c = splitOrigins (vp_GetStringSlice vp config_setup ''cors.allowed_origins'')"
    by (simp_all only: c read_config_def Configuration.select_convs UploadConfig.select_convs)
  then show ?thesis using valid size splitOrigins_clean unfolding valid_config_def by auto
qed

subsection \<open>Starting without a file\<close>

definition required_keys :: "string list" where
  "required_keys = [''secret'', ''admin.user'', ''admin.password'', ''s3.url'', ''s3.key'', ''s3.secret'', ''s3.location'']"

definition default_config :: "(string \<Rightarrow> string) \<Rightarrow> Configuration" where
  "default_config env =
     \<lparr>AppPort = ''8080'', AdminUser = env ''GIMME_ADMIN_USER'', AdminPassword = env ''GIMME_ADMIN_PASSWORD'', Secret = env ''GIMME_SECRET'',
      S3Url = env ''GIMME_S3_URL'', S3Key = env ''GIMME_S3_KEY'', S3Secret = env ''GIMME_S3_SECRET'', S3BucketName = ''gimme'',
      S3Location = env ''GIMME_S3_LOCATION'', S3SSL = True, EnableMetrics = True, CORSAllowedOrigins = [], RedisURL = '''',
      TokenFile = ''/tmp/gimme-tokens.enc'', Cache = \<lparr>cc_Enabled = False, cc_Type = ''redis'', cc_TTL = 3600\<rparr>, CompressionEnabled = True,
      Auth = \<lparr>auth_Mode = ''basic'', auth_OIDC = \<lparr>oc_Issuer = '''', oc_ClientID = '''', oc_ClientSecret = '''', oc_RedirectURL = '''', oc_SecureCookies = True\<rparr>\<rparr>,
      TokenStore = \<lparr>tsc_Mode = ''file'', tsc_PostgresURL = ''''\<rparr>,
      Upload = \<lparr>uc_MaxSize = \<lparr>sz_Bytes = 104857600, sz_raw = ''100MB'', sz_err = None\<rparr>, uc_MaxEntries = 10000,
        uc_MaxUncompressedSize = \<lparr>sz_Bytes = 524288000, sz_raw = ''500MB'', sz_err = None\<rparr>\<rparr>\<rparr>"

lemma default_sizes:
  "size_of ''100MB'' = \<lparr>sz_Bytes = 104857600, sz_raw = ''100MB'', sz_err = None\<rparr>"
  "size_of ''500MB'' = \<lparr>sz_Bytes = 524288000, sz_raw = ''500MB'', sz_err = None\<rparr>"
proof -
  have "case parseSize ''100MB'' of Inl _ \<Rightarrow> False | Inr b \<Rightarrow> b = 104857600" "case parseSize ''500MB'' of Inl _ \<Rightarrow> False | Inr b \<Rightarrow> b = 524288000"
    by code_simp+
  then show "size_of ''100MB'' = \<lparr>sz_Bytes = 104857600, sz_raw = ''100MB'', sz_err = None\<rparr>"
    and "size_of ''500MB'' = \<lparr>sz_Bytes = 524288000, sz_raw = ''500MB'', sz_err = None\<rparr>"
    by (auto simp: size_of_def split: sum.splits)
qed

text \<open>
  The documented behaviour of viper that the program relies on: the value of a key is that of the
  environment variable bound to it when this is not empty, else, without a file, the default of
  the key, else the zero value.
\<close>

definition env_of :: "viper_setup \<Rightarrow> (string \<Rightarrow> string) \<Rightarrow> string \<Rightarrow> string" where
  "env_of setup env k = (case map_of (vs_Env setup) k of None \<Rightarrow> '''' | Some var \<Rightarrow> env var)"

locale viper_doc =
  fixes vp :: viper_pkg and env :: "string \<Rightarrow> string"
  assumes env_string: "env_of setup env k \<noteq> '''' \<Longrightarrow> vp_GetString vp setup k = env_of setup env k"
    and default_string: "vp_ReadInConfig vp setup = Some ConfigFileNotFound \<Longrightarrow> env_of setup env k = '''' \<Longrightarrow>
      vp_GetString vp setup k = (case map_of (vs_Defaults setup) k of Some (VString s) \<Rightarrow> s | _ \<Rightarrow> '''')"
    and default_bool: "vp_ReadInConfig vp setup = Some ConfigFileNotFound \<Longrightarrow> env_of setup env k = '''' \<Longrightarrow>
      map_of (vs_Defaults setup) k = Some (VBool b) \<Longrightarrow> vp_GetBool vp setup k = b"
    and default_int: "vp_ReadInConfig vp setup = Some ConfigFileNotFound \<Longrightarrow> env_of setup env k = '''' \<Longrightarrow>
      map_of (vs_Defaults setup) k = Some (VInt i) \<Longrightarrow> vp_GetInt vp setup k = i"
    and default_strings: "vp_ReadInConfig vp setup = Some ConfigFileNotFound \<Longrightarrow> env_of setup env k = '''' \<Longrightarrow>
      map_of (vs_Defaults setup) k = Some (VStrings ss) \<Longrightarrow> vp_GetStringSlice vp setup k = ss"
begin

lemma defaults:
  assumes no_file: "vp_ReadInConfig vp config_setup = Some ConfigFileNotFound"
    and "\<forall>k \<in> set required_keys. env_of config_setup env k \<noteq> ''''"
    and "\<forall>k. k \<notin> set required_keys \<longrightarrow> env_of config_setup env k = ''''"
    and "32 \<le> length (env ''GIMME_SECRET'')"
  shows "NewConfig vp = Inr (default_config env)"
proof -
  let ?str = "vp_GetString vp config_setup"
  have other: "?str k = (case map_of config_defaults k of Some (VString s) \<Rightarrow> s | _ \<Rightarrow> '''')" if "k \<notin> set required_keys" for k
    using default_string [OF no_file] assms(3) that by (simp add: config_setup_def)
  have bool: "vp_GetBool vp config_setup k = b" if "map_of config_defaults k = Some (VBool b)" "k \<notin> set required_keys" for k b
    using default_bool [OF no_file] assms(3) that by (simp add: config_setup_def)
  have int: "vp_GetInt vp config_setup k = i" if "map_of config_defaults k = Some (VInt i)" "k \<notin> set required_keys" for k i
    using default_int [OF no_file] assms(3) that by (simp add: config_setup_def)
  have strings: "vp_GetStringSlice vp config_setup ''cors.allowed_origins'' = []"
    using default_strings [OF no_file, of "''cors.allowed_origins''"] assms(3)
    by (simp add: config_setup_def config_defaults_def required_keys_def)
  have req: "?str k = env_of config_setup env k" "env_of config_setup env k \<noteq> ''''" if "k \<in> set required_keys" for k
    using env_string assms(2) that by blast+
  have "map (env_of config_setup env) required_keys =
      map env [''GIMME_SECRET'', ''GIMME_ADMIN_USER'', ''GIMME_ADMIN_PASSWORD'', ''GIMME_S3_URL'', ''GIMME_S3_KEY'', ''GIMME_S3_SECRET'', ''GIMME_S3_LOCATION'']"
    by (simp add: required_keys_def env_of_def config_setup_def config_env_def)
  then have given: "map ?str required_keys =
      map env [''GIMME_SECRET'', ''GIMME_ADMIN_USER'', ''GIMME_ADMIN_PASSWORD'', ''GIMME_S3_URL'', ''GIMME_S3_KEY'', ''GIMME_S3_SECRET'', ''GIMME_S3_LOCATION'']"
    and nonempty: "'''' \<notin> set (map env [''GIMME_SECRET'', ''GIMME_ADMIN_USER'', ''GIMME_ADMIN_PASSWORD'', ''GIMME_S3_URL'', ''GIMME_S3_KEY'', ''GIMME_S3_SECRET'', ''GIMME_S3_LOCATION''])"
    using req by (simp cong: map_cong, metis imageE list.set_map)
  have strs: "map ?str [''port'', ''s3.bucketName'', ''redis_url'', ''token_file'', ''cache.type'', ''auth.mode'', ''tokenStore.mode'',
      ''upload.max_size'', ''upload.max_uncompressed_size''] =
      [''8080'', ''gimme'', '''', ''/tmp/gimme-tokens.enc'', ''redis'', ''basic'', ''file'', ''100MB'', ''500MB'']"
    by (simp add: other required_keys_def config_defaults_def)
  have unset: "map ?str [''auth.oidc.issuer'', ''auth.oidc.client_id'', ''auth.oidc.client_secret'', ''auth.oidc.redirect_url'', ''tokenStore.pg_url''] =
      ['''', '''', '''', '''', '''']"
    by (simp add: other required_keys_def config_defaults_def)
  have bools: "vp_GetBool vp config_setup ''s3.ssl''" "vp_GetBool vp config_setup ''metrics''" "\<not> vp_GetBool vp config_setup ''cache.enabled''"
    "vp_GetBool vp config_setup ''compression.enabled''" "vp_GetBool vp config_setup ''auth.oidc.secure_cookies''"
    by (simp_all add: bool [where b = True] bool [where b = False] required_keys_def config_defaults_def)
  have ints: "vp_GetInt vp config_setup ''cache.ttl'' = 3600" "vp_GetInt vp config_setup ''upload.max_entries'' = 10000"
    by (rule int; simp add: required_keys_def config_defaults_def)+
  have "read_config vp config_setup = default_config env"
    using given strs unset bools unfolding read_config_def default_config_def readSize_def
    by (simp add: required_keys_def strings ints default_sizes splitOrigins_def)
  moreover have "valid_config (default_config env)"
    using nonempty assms(4) by (auto simp: valid_config_def default_config_def size_ok_def)
  ultimately show ?thesis using accepted no_file by simp
qed

end

text \<open>Without a file, seven environment variables are enough: with them set, and a secret of at
  least 32 bytes, the program starts with the documented defaults for everything else.\<close>

lemma NewConfig_defaults:
  assumes "viper_doc vp env" and "vp_ReadInConfig vp config_setup = Some ConfigFileNotFound"
    and "\<forall>k \<in> set required_keys. env_of config_setup env k \<noteq> ''''"
    and "\<forall>k. k \<notin> set required_keys \<longrightarrow> env_of config_setup env k = ''''"
    and "32 \<le> length (env ''GIMME_SECRET'')"
  shows "NewConfig vp = Inr (default_config env)"
  using assms by (rule viper_doc.defaults)

text \<open>Viper without a file over a given environment, with the seven variables set.\<close>

definition env_viper :: "(string \<Rightarrow> string) \<Rightarrow> viper_pkg" where
  "env_viper env =
     \<lparr>vp_ReadInConfig = (\<lambda>_. Some ConfigFileNotFound),
      vp_GetString = (\<lambda>st k. if env_of st env k \<noteq> '''' then env_of st env k
        else (case map_of (vs_Defaults st) k of Some (VString s) \<Rightarrow> s | _ \<Rightarrow> '''')),
      vp_GetBool = (\<lambda>st k. if env_of st env k \<noteq> '''' then env_of st env k = ''true''
        else (case map_of (vs_Defaults st) k of Some (VBool b) \<Rightarrow> b | _ \<Rightarrow> False)),
      vp_GetInt = (\<lambda>st k. if env_of st env k \<noteq> '''' then digits_value (env_of st env k)
        else (case map_of (vs_Defaults st) k of Some (VInt i) \<Rightarrow> i | _ \<Rightarrow> 0)),
      vp_GetStringSlice = (\<lambda>st k. if env_of st env k \<noteq> '''' then [env_of st env k]
        else (case map_of (vs_Defaults st) k of Some (VStrings ss) \<Rightarrow> ss | _ \<Rightarrow> []))\<rparr>"

interpretation env_viper: viper_doc "env_viper env" env for env
  by unfold_locales (simp_all add: env_viper_def)

definition ref_env :: "string \<Rightarrow> string" where
  "ref_env var =
     (case map_of [(''GIMME_SECRET'', replicate 32 CHR ''s''), (''GIMME_ADMIN_USER'', ''admin''), (''GIMME_ADMIN_PASSWORD'', ''pw''),
        (''GIMME_S3_URL'', ''s3.local''), (''GIMME_S3_KEY'', ''key''), (''GIMME_S3_SECRET'', ''sec''), (''GIMME_S3_LOCATION'', ''eu'')] var of
        None \<Rightarrow> '''' | Some v \<Rightarrow> v)"

lemma ref_env_required: "\<forall>k \<in> set required_keys. env_of config_setup ref_env k \<noteq> ''''"
  unfolding list_all_iff [symmetric] by code_simp

lemma ref_env_other: "\<forall>k. k \<notin> set required_keys \<longrightarrow> env_of config_setup ref_env k = ''''"
proof (intro allI impI)
  fix k
  assume k: "k \<notin> set required_keys"
  have all: "list_all (\<lambda>(k, var). k \<in> set required_keys \<or> ref_env var = '''') config_env" by code_simp
  show "env_of config_setup ref_env k = ''''"
  proof (cases "map_of config_env k")
    case (Some var)
    then have "(k, var) \<in> set config_env" by (rule map_of_SomeD)
    with all k have "ref_env var = ''''" by (auto simp: list_all_iff)
    with Some show ?thesis by (simp add: env_of_def config_setup_def)
  qed (simp add: env_of_def config_setup_def)
qed

lemma ref_config: "NewConfig (env_viper ref_env) = Inr (read_config (env_viper ref_env) config_setup)"
proof -
  have "case NewConfig (env_viper ref_env) of Inl _ \<Rightarrow> False | Inr _ \<Rightarrow> True" by code_simp
  then show ?thesis by (auto simp: accepted split: sum.splits)
qed

theorem NewConfig_wellformed_witness:
  "let c = read_config (env_viper ref_env) config_setup in
     {sz_Bytes (uc_MaxSize (Upload c)), sz_Bytes (uc_MaxUncompressedSize (Upload c))} \<subseteq> {0 <..< 2 ^ 63} \<and>
     0 < uc_MaxEntries (Upload c) \<and>
     list_all (\<lambda>origin. origin \<noteq> '''' \<and> CHR '','' \<notin> set origin \<and> TrimSpace origin = origin) (CORSAllowedOrigins c) \<and>
     auth_Mode (Auth c) \<in> {''basic'', ''oidc''} \<and> tsc_Mode (TokenStore c) \<in> {''file'', ''redis'', ''postgres''}"
  using NewConfig_wellformed [OF ref_config] unfolding Let_def list_all_iff .

end
