(* ===== verification/Gimme_ApiRef.thy ===== *)
theory Gimme_ApiRef
  imports Gimme_Api Gimme_PGStore Gimme_Ref
begin

text \<open>
  A concrete application for the examples: the in-memory object storage and cache, tokens in the
  reference PostgreSQL table, a login that asks for one user, and requests to its routes.
\<close>

definition ref_http :: http_pkg where
  "ref_http = \<lparr>hp_ParseFloat = (\<lambda>_. Inl (External ''invalid syntax'')), hp_ParseTime = (\<lambda>_. None),
     hp_FormatTime = (\<lambda>_. ''Thu, 01 Jan 1970 00:00:00 GMT''), hp_wantsJSON = (\<lambda>a. a = ''application/json'')\<rparr>"

definition ref_login :: "go_time \<Rightarrow> request \<Rightarrow> response option" where
  "ref_login now rq = (if rq_Header rq ''Authorization'' = ''Basic Z2ltbWU6Z2ltbWU='' then None else Some (respond 401 [] NoBody))"

definition ref_app :: "(zip_file list, mem_world, mem_redis_world, mem_pg) gimme_app" where
  "ref_app = \<lparr>ga_hp = ref_http, ga_pk = ref_packages, ga_svc = ref_service, ga_store = pg_iface mem_pg_pool,
     ga_sha256 = (\<lambda>s. s), ga_login = ref_login\<rparr>"

definition ref_request :: "string \<Rightarrow> (string \<times> string) list \<Rightarrow> (string \<times> string) list \<Rightarrow> request" where
  "ref_request method headers params =
     \<lparr>rq_Method = method, rq_Path = '''', rq_Header = (\<lambda>k. case map_of headers k of None \<Rightarrow> '''' | Some v \<Rightarrow> v), rq_Query = (\<lambda>_. ''''),
      rq_Param = (\<lambda>k. case map_of params k of None \<Rightarrow> '''' | Some v \<Rightarrow> v), rq_Cookie = (\<lambda>_. None)\<rparr>"

definition ref_world2 :: mem_world where
  "ref_world2 = [ref_object ''p@1.0.0/a.js'' ''plain'', ref_object ''p@1.0.0/b.js'' ''other'']"

definition ref_get :: request where
  "ref_get = ref_request ''GET'' [] [(''package'', ''p@1.0.0''), (''file'', ''/a.js'')]"

definition ref_delete :: request where
  "ref_delete = ref_request ''DELETE'' [(''Authorization'', ''Bearer gim_1'')] [(''package'', ''p@1.0.0'')]"

definition ref_post_token :: "zip_file list route" where
  "ref_post_token = PostToken (ref_request ''POST'' [(''Authorization'', ''Basic Z2ltbWU6Z2ltbWU='')] [])
     \<lparr>ae_now = 5000, ae_rand = (\<lambda>n. Inr (replicate n CHR ''k'')), ae_uuid = ''0b'', ae_sha256 = (\<lambda>s. take 8 s)\<rparr>
     (Some \<lparr>ctr_Name = ''ci'', ctr_ExpirationDate = ''''\<rparr>)"

lemma ref_app_sel:
  "ga_hp ref_app = ref_http" "ga_pk ref_app = ref_packages" "ga_svc ref_app = ref_service"
  "ga_store ref_app = pg_iface mem_pg_pool" "ga_sha256 ref_app = (\<lambda>s. s)"
  by (simp_all add: ref_app_def)

lemma ref_app_store:
  "token_store (ga_store ref_app) (\<lambda>_. pg_purgeExpired mem_pg_pool) pg_stamp (\<lambda>p. pg_fresh (set (fst p)))
     (\<lambda>p. pg_unique (set (fst p))) (\<lambda>p. pg_view (set (fst p)))"
  unfolding ref_app_sel by (rule pg_tokens.meets_token_store [OF mem_pg.pg_tokens_axioms])

lemma ref_pg_unique: "pg_unique (set (fst ref_pg))"
  by (simp add: pg_unique_def ref_pg_def)

lemma ref_get_slice: "getSlice (rq_Param ref_get ''package'') = Inr \<lparr>ps_Name = ''p'', ps_Version = ''1.0.0''\<rparr>"
proof -
  have "case getSlice (rq_Param ref_get ''package'') of Inl _ \<Rightarrow> False | Inr sl \<Rightarrow> ps_Name sl = ''p'' \<and> ps_Version sl = ''1.0.0''" by code_simp
  then show ?thesis by (auto split: sum.splits)
qed

end
