(* ===== verification/Gimme_Listing.thy ===== *)
theory Gimme_Listing
  imports Gimme_Serve
begin

text \<open>
  Listing the files of a package, \<open>GetFiles\<close>: the paging loop ends on every reliable
  storage, the first page is exact (the first visible files in key order, precompressed
  variants hidden), every listed file exists with its size. On later pages the hiding of
  variants depends on the cursor: a variant can reappear and a file can be dropped. The last
  property is about the cache: a request that finds nothing is remembered.
\<close>

subsection \<open>Keys in order\<close>

lemma keys_after_sorted: "sorted (keys_after st p a)" "distinct (keys_after st p a)"
  by (simp_all add: keys_after_def)

lemma keys_after_rest:
  assumes "finite (dom st)" and "keys_after st p '''' = before @ rest" and "before \<noteq> []" and "p \<noteq> ''''"
  shows "keys_after st p (last before) = rest"
proof -
  let ?K = "{k \<in> dom st. prefix p k}"
  have fin: "finite ?K" using assms(1) by simp
  have L: "sorted (before @ rest)" "distinct (before @ rest)" "set (before @ rest) = ?K"
    using keys_after_sorted [of st p "''''"] keys_after_set [OF assms(1), of p "''''"] unfolding assms(2) by simp_all
  have "last before \<in> ?K" using L(3) assms(3) by auto
  then have ne: "last before \<noteq> ''''" using assms(4) by auto
  have less: "k \<in> set rest \<longleftrightarrow> last before < k" if "k \<in> ?K" for k
  proof -
    have 1: "\<And>x y. x \<in> set before \<Longrightarrow> y \<in> set rest \<Longrightarrow> x < y" using L(1,2) by (fastforce simp: sorted_append order.strict_iff_order)
    have 2: "x \<le> last before" if "x \<in> set before" for x
      using that L(1) assms(3) sorted_wrt_last [of "(\<le>)" before x] by (simp add: sorted_append)
    show ?thesis using 1 2 L(3) that assms(3) by (metis (no_types, lifting) Un_iff last_in_set not_less set_append)
  qed
  have "set rest \<subseteq> ?K" using L(3) by auto
  then have rest: "set rest = {k \<in> ?K. last before < k}" using less by blast
  have "{k \<in> dom st. prefix p k \<and> (last before = '''' \<or> last before < k)} = set rest"
    using rest ne by auto
  then show ?thesis
    unfolding keys_after_def using L(1,2) by (simp add: sorted_append sorted_list_of_set.idem_if_sorted_distinct)
qed

subsection \<open>One page\<close>

abbreviation names :: "(File \<times> string) list \<Rightarrow> string list" where
  "names c \<equiv> map (fl_Name \<circ> fst) c"

lemma collect_page_names:
  assumes "int (length c) \<le> limit"
  shows "names (snd (collect_page mime limit keys cur c objs)) =
    take (nat limit + 1) (names c @ filter (\<lambda>k. \<not> isEncodedVariant mime k keys) (map oi_Key objs))"
  using assms
proof (induction mime limit keys cur c objs rule: collect_page.induct)
  case (2 mime limit keys cur c ob objs)
  show ?case
  proof (cases "isEncodedVariant mime (oi_Key ob) keys")
    case False
    show ?thesis
    proof (cases "limit < int (length c) + 1")
      case True
      with False 2(3) have "length c = nat limit" by linarith
      with False True show ?thesis by simp
    qed (use False 2 in simp)
  qed (use 2 in simp)
qed simp

lemma collect_page_cursor:
  "objs \<noteq> [] \<Longrightarrow> fst (collect_page mime limit keys cur c objs) \<in> oi_Key ` set objs"
proof (induction mime limit keys cur c objs rule: collect_page.induct)
  case (2 mime limit keys cur c ob objs)
  then show ?case by (cases objs) (auto simp: Let_def)
qed simp

lemma collect_page_last:
  "int (length (snd (collect_page mime limit keys cur c objs))) \<le> limit \<Longrightarrow> objs \<noteq> [] \<Longrightarrow>
     fst (collect_page mime limit keys cur c objs) = oi_Key (last objs)"
proof (induction mime limit keys cur c objs rule: collect_page.induct)
  case (2 mime limit keys cur c ob objs)
  then show ?case by (cases objs) (auto simp: Let_def split: if_splits)
qed simp

lemma collect_page_member:
  "(f, cu) \<in> set (snd (collect_page mime limit keys cur c objs)) \<Longrightarrow>
     (f, cu) \<in> set c \<or> (\<exists>ob \<in> set objs. f = \<lparr>fl_Name = oi_Key ob, fl_Size = oi_Size ob, Folder = False\<rparr>)"
  by (induction mime limit keys cur c objs rule: collect_page.induct) (auto simp: Let_def split: if_splits)

subsection \<open>The loop\<close>

context reliable_storage
begin

lemma page_keys:
  assumes "1 \<le> limit"
  shows "map oi_Key (fst (os_ListObjectsPage os p cur limit w)) = take (nat limit) (keys_after (store w) p cur)"
    and "snd (os_ListObjectsPage os p cur limit w) \<longleftrightarrow> nat limit < length (keys_after (store w) p cur)"
    and "fst (os_ListObjectsPage os p cur limit w) = [] \<longleftrightarrow> keys_after (store w) p cur = []"
proof -
  show keys: "map oi_Key (fst (os_ListObjectsPage os p cur limit w)) = take (nat limit) (keys_after (store w) p cur)"
    and "snd (os_ListObjectsPage os p cur limit w) \<longleftrightarrow> nat limit < length (keys_after (store w) p cur)"
    using page_eq [of limit p cur w] assms by auto
  from assms have "0 < nat limit" by simp
  with arg_cong [OF keys, of length] show "fst (os_ListObjectsPage os p cur limit w) = [] \<longleftrightarrow> keys_after (store w) p cur = []"
    by (auto simp: length_0_conv [symmetric] simp del: length_0_conv)
qed

lemma keys_after_shrinks:
  assumes "k \<in> set (keys_after (store w) p cur)" and "p \<noteq> ''''"
  shows "length (keys_after (store w) p k) < length (keys_after (store w) p cur)"
proof -
  note K = keys_after_set [OF finite_store [of w]]
  have "k \<noteq> ''''" using assms by (auto simp: K)
  then have "set (keys_after (store w) p k) \<subset> set (keys_after (store w) p cur)"
    using assms(1) by (auto simp: K)
  then have "card (set (keys_after (store w) p k)) < card (set (keys_after (store w) p cur))"
    by (rule psubset_card_mono [OF finite_set])
  then show ?thesis by (simp add: distinct_card keys_after_sorted)
qed

lemma files_loop_returns:
  assumes "1 \<le> limit" and "p \<noteq> ''''"
  shows "\<exists>c'. files_loop mime os p limit w cur keys c = Some c' \<and>
    (\<forall>(f, cu) \<in> set c'. (f, cu) \<in> set c \<or> prefix p (fl_Name f) \<and> (\<exists>st. store w (fl_Name f) = Some st \<and> fl_Size f = int (length (so_Body st))))"
proof (induction "length (keys_after (store w) p cur)" arbitrary: cur keys c rule: less_induct)
  case less
  let ?page = "os_ListObjectsPage os p cur limit w"
  let ?keys = "keys \<union> oi_Key ` set (fst ?page)"
  let ?next = "collect_page mime limit ?keys cur c (fst ?page)"
  let ?ok = "\<lambda>f. prefix p (fl_Name f) \<and> (\<exists>st. store w (fl_Name f) = Some st \<and> fl_Size f = int (length (so_Body st)))"
  have new: "(f, cu) \<in> set c \<or> ?ok f" if "(f, cu) \<in> set (snd ?next)" for f cu
    using collect_page_member [OF that] page_sound [of _ p cur limit w] by auto
  show ?case
  proof (cases "limit < int (length c) \<or> fst ?page = [] \<or> \<not> snd ?page")
    case True
    then show ?thesis using new by (subst files_loop.simps) (auto simp: Let_def)
  next
    case False
    then have "fst ?next \<in> oi_Key ` set (fst ?page)" by (intro collect_page_cursor) simp
    then have "fst ?next \<in> set (map oi_Key (fst ?page))" by simp
    then have "fst ?next \<in> set (keys_after (store w) p cur)"
      unfolding page_keys(1) [OF assms(1)] by (rule in_set_takeD)
    from less [OF keys_after_shrinks [OF this assms(2)], of ?keys "snd ?next"] new False show ?thesis
      by (subst files_loop.simps) (fastforce simp: Let_def)
  qed
qed

end

subsection \<open>The first page\<close>

lemma isEncodedVariant_cong:
  assumes "\<And>x. x < k \<Longrightarrow> x \<in> A \<longleftrightarrow> x \<in> B"
  shows "isEncodedVariant mime k A \<longleftrightarrow> isEncodedVariant mime k B"
proof -
  have "s \<in> A \<longleftrightarrow> s \<in> B" if "e \<in> set encodings" and "CutSuffix k (encoding_suffix e) = (s, True)" for e s
  proof -
    have "k = s @ encoding_suffix e"
      using that(2) by (auto simp: CutSuffix_def HasSuffix_def suffix_def split: if_splits)
    moreover have "encoding_suffix e \<noteq> ''''" using suffix_length [OF that(1)] by auto
    ultimately show ?thesis using assms [of s] by simp
  qed
  then have "(case CutSuffix k (encoding_suffix e) of (s, found) \<Rightarrow> found \<and> s \<in> A \<and> snd (compressibleContentType mime s)) \<longleftrightarrow>
      (case CutSuffix k (encoding_suffix e) of (s, found) \<Rightarrow> found \<and> s \<in> B \<and> snd (compressibleContentType mime s))"
    if "e \<in> set encodings" for e
    using that by (cases "CutSuffix k (encoding_suffix e)") auto
  then show ?thesis unfolding isEncodedVariant_def list_ex_iff by (rule bex_cong [OF refl])
qed

lemma take_short: "length (take (Suc n) xs) \<le> n \<Longrightarrow> take (Suc n) xs = xs"
  by (auto simp: min_def split: if_splits)

lemma filter_take_split: "filter P (before @ rest) = filter P (before @ take n rest) @ filter P (drop n rest)"
  by (metis append.assoc append_take_drop_id filter_append)

context reliable_storage
begin

lemma files_loop_first:
  assumes "1 \<le> limit" and "p \<noteq> ''''" and "keys_after (store w) p '''' = before @ rest"
    and "vis = (\<lambda>k. \<not> isEncodedVariant mime k (set (before @ rest)))"
    and "names c = filter vis before" and "int (length c) \<le> limit"
  shows "\<exists>c'. files_loop mime os p limit w (if before = [] then '''' else last before) (set before) c = Some c' \<and>
    names c' = take (nat limit + 1) (filter vis (before @ rest))"
  using assms(3-6)
proof (induction "length rest" arbitrary: before rest c rule: less_induct)
  case less
  let ?cur = "if before = [] then '''' else last before"
  let ?page = "os_ListObjectsPage os p ?cur limit w"
  let ?ks = "take (nat limit) rest"
  let ?keys = "set before \<union> oi_Key ` set (fst ?page)"
  let ?next = "collect_page mime limit ?keys ?cur c (fst ?page)"
  have rest: "keys_after (store w) p ?cur = rest"
    using keys_after_rest [OF finite_store less.prems(1) _ assms(2)] less.prems(1) by auto
  note page = page_keys [OF assms(1), of p ?cur w, unfolded rest]
  have keys: "?keys = set (before @ ?ks)" using page(1) by (metis list.set_map set_append)
  have order: "sorted (before @ rest)" "distinct (before @ rest)"
    using keys_after_sorted [of "store w" p "''''"] unfolding less.prems(1) .
  have vis: "\<not> isEncodedVariant mime k ?keys \<longleftrightarrow> vis k" if "k \<in> set ?ks" for k
  proof -
    have "x \<in> set (before @ ?ks) \<longleftrightarrow> x \<in> set (before @ rest)" if "x < k" for x
    proof -
      have "x \<notin> set (drop (nat limit) rest)"
        using order(1) \<open>k \<in> set ?ks\<close> that by (metis append_take_drop_id leD sorted_append)
      then show ?thesis by (metis Un_iff append_take_drop_id set_append)
    qed
    from isEncodedVariant_cong [OF this] show ?thesis unfolding keys less.prems(2) by blast
  qed
  have new: "names (snd ?next) = take (nat limit + 1) (filter vis (before @ ?ks))"
    using collect_page_names [OF less.prems(4), of mime ?keys ?cur "fst ?page"] vis less.prems(3)
    unfolding page(1) by (simp cong: filter_cong)
  show ?case
  proof (cases "rest = [] \<or> length rest \<le> nat limit")
    case True
    then have "files_loop mime os p limit w ?cur (set before) c = Some (snd ?next) \<or>
        rest = [] \<and> files_loop mime os p limit w ?cur (set before) c = Some c"
      using less.prems(4) page(2,3) by (subst (1 2) files_loop.simps) (auto simp: Let_def)
    moreover have "names c = take (nat limit + 1) (filter vis before)"
      using less.prems(3,4) by (metis length_map nat_int_comparison(3) nat_le_iff order.trans le_add1 take_all)
    ultimately show ?thesis using new True by auto
  next
    case False
    have step: "files_loop mime os p limit w ?cur (set before) c = files_loop mime os p limit w (fst ?next) ?keys (snd ?next)"
      using less.prems(4) page(2,3) False by (subst files_loop.simps) (simp add: Let_def)
    show ?thesis
    proof (cases "limit < int (length (snd ?next))")
      case True
      then have "files_loop mime os p limit w (fst ?next) ?keys (snd ?next) = Some (snd ?next)"
        by (subst files_loop.simps) simp
      moreover have "nat limit < length (snd ?next)" using True assms(1) by (subst nat_less_iff) simp_all
      then have "nat limit + 1 \<le> length (names (snd ?next))" by simp
      then have "nat limit + 1 \<le> length (filter vis (before @ ?ks))" unfolding new length_take min.bounded_iff by blast
      then have "names (snd ?next) = take (nat limit + 1) (filter vis (before @ rest))"
        unfolding new filter_take_split [of vis before rest "nat limit"] by simp
      ultimately show ?thesis using step by auto
    next
      case nover: False
      have ne: "fst ?page \<noteq> []" using False page(3) by simp
      have "fst ?next = oi_Key (last (fst ?page))" using collect_page_last ne nover by (simp add: not_less)
      also have "\<dots> = last (before @ ?ks)" using page(1) ne by (metis last_append last_map list.map_disc_iff)
      finally have cur: "fst ?next = last (before @ ?ks)" .
      have "before @ ?ks \<noteq> []" using page(1) ne by auto
      moreover have "names (snd ?next) = filter vis (before @ ?ks)"
        using new take_short [of "nat limit"] nover by (metis (no_types, lifting) Suc_eq_plus1 length_map not_less nat_int nat_mono)
      ultimately show ?thesis
        using less.hyps [of "drop (nat limit) rest" "before @ ?ks" "snd ?next"] less.prems(1,2) False nover assms(1) step cur keys
        by simp
    qed
  qed
qed

end

subsection \<open>Properties\<close>

definition listing_prefix :: "string \<Rightarrow> string \<Rightarrow> string" where
  "listing_prefix pkg v = pkg @ ''@'' @ v @ ''/''"

text \<open>A compressed copy of another file of a list: its name with a suffix, of a kind that is compressed.\<close>

definition encoded_copy :: "mime_pkg \<Rightarrow> string list \<Rightarrow> string \<Rightarrow> bool" where
  "encoded_copy mime ks k \<longleftrightarrow>
     (\<exists>source \<in> set ks. (k = source @ ''.br'' \<or> k = source @ ''.gz'') \<and> snd (compressibleContentType mime source))"

text \<open>The files of a folder that a listing is to show: all but the compressed copies of others.\<close>

definition visible_files :: "mime_pkg \<Rightarrow> store \<Rightarrow> string \<Rightarrow> string list" where
  "visible_files mime st p = filter (\<lambda>k. \<not> encoded_copy mime (keys_after st p '''') k) (keys_after st p '''')"

lemma isEncodedVariant_iff:
  "isEncodedVariant mime k A \<longleftrightarrow> (\<exists>source \<in> A. (k = source @ ''.br'' \<or> k = source @ ''.gz'') \<and> snd (compressibleContentType mime source))"
proof -
  have cut: "(case CutSuffix k sf of (s, found) \<Rightarrow> found \<and> s \<in> A \<and> snd (compressibleContentType mime s)) \<longleftrightarrow>
      (\<exists>s \<in> A. k = s @ sf \<and> snd (compressibleContentType mime s))" for sf
  proof (cases "\<exists>s. k = s @ sf")
    case True
    then obtain s where "k = s @ sf" by blast
    then show ?thesis by simp
  next
    case False
    then have "\<not> snd (CutSuffix k sf)" using CutSuffix_True [of k sf] by (metis prod.collapse)
    then show ?thesis using False by (simp add: case_prod_unfold)
  qed
  show ?thesis unfolding isEncodedVariant_def cut encodings_def by auto
qed

lemma visible_files_eq:
  "visible_files mime st p = filter (\<lambda>k. \<not> isEncodedVariant mime k (set (keys_after st p ''''))) (keys_after st p '''')"
  by (simp add: visible_files_def encoded_copy_def isEncodedVariant_iff)

lemma GetFiles_resolved:
  assumes "(if IsPinnedVersion (pk_semver pk) version then Some version else resolveVersion pk svc pkg version w) = Some v"
    and "1 \<le> limit"
    and "files_loop (pk_mime pk) (objectStorageManager svc) (listing_prefix pkg v) limit w after (seedBoundaryKeys {} after) [] = Some c"
  shows "\<exists>l. GetFiles pk svc pkg version after limit w = Some l \<and> ls_Version l = v \<and>
    Files l = map fst (take (nat limit) c) \<and> HasMore l = (limit < int (length c)) \<and>
    (TotalKnown l \<longleftrightarrow> after = '''' \<and> \<not> snd (os_ListObjectsPage (objectStorageManager svc) (listing_prefix pkg v) after limit w) \<and>
       \<not> HasMore l) \<and> Total l = int (length (Files l))"
  using assms unfolding GetFiles_def listing_prefix_def Let_def by auto

text \<open>A listing returns, whatever the cursor, with at most the requested number of stored files.\<close>

lemma GetFiles_returns:
  assumes "reliable_storage (objectStorageManager svc) store" and "1 \<le> limit"
  shows "\<exists>l. GetFiles pk svc pkg version after limit w = Some l \<and> int (length (Files l)) \<le> limit \<and>
    (\<forall>f \<in> set (Files l). prefix (listing_prefix pkg (ls_Version l)) (fl_Name f) \<and>
       (\<exists>st. store w (fl_Name f) = Some st \<and> fl_Size f = int (length (so_Body st))))"
proof (cases "if IsPinnedVersion (pk_semver pk) version then Some version else resolveVersion pk svc pkg version w")
  case None
  then show ?thesis using assms(2) by (auto simp: GetFiles_def split: if_splits)
next
  case (Some v)
  have "listing_prefix pkg v \<noteq> ''''" by (simp add: listing_prefix_def)
  from reliable_storage.files_loop_returns [OF assms this, of "pk_mime pk" w after "seedBoundaryKeys {} after" "[]"]
  obtain c where c: "files_loop (pk_mime pk) (objectStorageManager svc) (listing_prefix pkg v) limit w after (seedBoundaryKeys {} after) [] = Some c"
    and ok: "\<forall>(f, cu) \<in> set c. prefix (listing_prefix pkg v) (fl_Name f) \<and>
       (\<exists>st. store w (fl_Name f) = Some st \<and> fl_Size f = int (length (so_Body st)))" by auto
  from GetFiles_resolved [OF Some assms(2) c] obtain l where
    l: "GetFiles pk svc pkg version after limit w = Some l" "ls_Version l = v" "Files l = map fst (take (nat limit) c)" by blast
  have "\<forall>f \<in> set (Files l). prefix (listing_prefix pkg v) (fl_Name f) \<and>
       (\<exists>st. store w (fl_Name f) = Some st \<and> fl_Size f = int (length (so_Body st)))"
    using ok in_set_takeD [of _ "nat limit" c] unfolding l(3) by fastforce
  with l assms(2) show ?thesis by auto
qed

definition ref_folder :: "string list \<Rightarrow> mem_world" where
  "ref_folder ns = map (\<lambda>n. ref_object (''p@1.0.0/'' @ n) n) ns"

abbreviation ref_listing :: "string \<Rightarrow> int \<Rightarrow> string list \<Rightarrow> FileListing option" where
  "ref_listing after limit ns \<equiv> GetFiles ref_packages ref_service ''p'' ''1.0.0'' after limit (ref_folder ns)"

text \<open>C36: On a reliable storage the first page of a listing is exact. The request is for the version
  itself when it is pinned, and else for the version that it resolves to; when there is none the
  listing is empty. Otherwise it shows, in key order, the first files of the folder that are not
  compressed copies of others, each with its stored size, it announces more exactly when there are more,
  and it knows the total when all keys fitted on one page of the storage.\<close>

theorem GetFiles_first_page:
  assumes "reliable_storage (objectStorageManager svc) store" and "1 \<le> limit"
  shows "\<exists>l. GetFiles pk svc pkg version '''' limit w = Some l \<and>
    (case (if IsPinnedVersion (pk_semver pk) version then Some version else resolveVersion pk svc pkg version w) of
       None \<Rightarrow> Files l = [] \<and> \<not> HasMore l \<and> ls_Version l = version
     | Some v \<Rightarrow>
         (let keys = keys_after (store w) (pkg @ ''@'' @ v @ ''/'') ''''; vis = visible_files (pk_mime pk) (store w) (pkg @ ''@'' @ v @ ''/'') in
          ls_Version l = v \<and> map fl_Name (Files l) = take (nat limit) vis \<and>
          (\<forall>f \<in> set (Files l). \<exists>ob. store w (fl_Name f) = Some ob \<and> fl_Size f = int (length (so_Body ob))) \<and>
          (HasMore l \<longleftrightarrow> limit < int (length vis)) \<and>
          (int (length keys) \<le> limit \<longrightarrow> TotalKnown l \<and> Total l = int (length vis))))"
proof (cases "if IsPinnedVersion (pk_semver pk) version then Some version else resolveVersion pk svc pkg version w")
  case None
  then show ?thesis using assms(2) by (auto simp: GetFiles_def split: if_splits)
next
  case (Some v)
  let ?p = "listing_prefix pkg v" and ?os = "objectStorageManager svc"
  define vis where "vis = visible_files (pk_mime pk) (store w) ?p"
  have p: "?p \<noteq> ''''" by (simp add: listing_prefix_def)
  obtain c where c: "files_loop (pk_mime pk) ?os ?p limit w '''' (seedBoundaryKeys {} '''') [] = Some c"
    and names: "names c = take (nat limit + 1) vis"
    using reliable_storage.files_loop_first [OF assms p, of w "[]" "keys_after (store w) ?p ''''" _ "pk_mime pk" "[]"] assms(2)
    by (auto simp: seedBoundaryKeys_def vis_def visible_files_eq)
  from GetFiles_resolved [OF Some assms(2) c] obtain l where l: "GetFiles pk svc pkg version '''' limit w = Some l" "ls_Version l = v"
    "Files l = map fst (take (nat limit) c)" "HasMore l = (limit < int (length c))" "Total l = int (length (Files l))"
    "TotalKnown l \<longleftrightarrow> \<not> snd (os_ListObjectsPage ?os ?p '''' limit w) \<and> \<not> HasMore l" by blast
  have len: "length c = min (length vis) (nat limit + 1)" using arg_cong [OF names, of length] by simp
  have files: "map fl_Name (Files l) = take (nat limit) vis"
  proof -
    have "map fl_Name (Files l) = take (nat limit) (names c)" by (simp add: l(3) take_map)
    then show ?thesis by (simp add: names min_def)
  qed
  have more: "HasMore l \<longleftrightarrow> limit < int (length vis)" unfolding l(4) len using assms(2) by linarith
  have total: "TotalKnown l \<and> Total l = int (length vis)" if "int (length (keys_after (store w) ?p '''')) \<le> limit"
  proof -
    have "length vis \<le> length (keys_after (store w) ?p '''')" by (simp add: vis_def visible_files_def)
    with that have small: "int (length vis) \<le> limit" by linarith
    then have "length (Files l) = length vis" using arg_cong [OF files, of length] by (simp add: nat_le_iff)
    with small that more l(5,6) reliable_storage.page_keys(2) [OF assms, of ?p "''''" w] show ?thesis by auto
  qed
  have sizes: "\<forall>f \<in> set (Files l). \<exists>ob. store w (fl_Name f) = Some ob \<and> fl_Size f = int (length (so_Body ob))"
    using GetFiles_returns [OF assms, of pk pkg version "''''" w] l(1) by auto
  show ?thesis
    unfolding Some option.case Let_def
    using l(1,2) files more total sizes unfolding vis_def listing_prefix_def by blast
qed

theorem GetFiles_first_page_witness:
  "\<exists>l. ref_listing '''' 2 [''c.js'', ''a.js'', ''a.js.gz'', ''b.js''] = Some l \<and>
     map fl_Name (Files l) = take 2 (visible_files (pk_mime ref_packages)
       (mem_objs ''gimme'' (ref_folder [''c.js'', ''a.js'', ''a.js.gz'', ''b.js''])) ''p@1.0.0/'') \<and>
     map fl_Name (Files l) = [''p@1.0.0/a.js'', ''p@1.0.0/b.js'']"
proof -
  let ?l = "ref_listing '''' 2 [''c.js'', ''a.js'', ''a.js.gz'', ''b.js'']"
  have pin: "IsPinnedVersion (pk_semver ref_packages) ''1.0.0''" by code_simp
  have v: "map_option (\<lambda>l. map fl_Name (Files l)) ?l = Some [''p@1.0.0/a.js'', ''p@1.0.0/b.js'']" by code_simp
  obtain l where l: "?l = Some l" "map fl_Name (Files l) = take (nat 2) (visible_files (pk_mime ref_packages)
       (mem_objs ''gimme'' (ref_folder [''c.js'', ''a.js'', ''a.js.gz'', ''b.js''])) ''p@1.0.0/'')"
    using GetFiles_first_page [OF ref_storage.reliable_storage_axioms, of 2 ref_packages "''p''" "''1.0.0''"
        "ref_folder [''c.js'', ''a.js'', ''a.js.gz'', ''b.js'']"]
    unfolding Let_def if_P [OF pin] option.case by auto
  from v [unfolded l(1)] have "map fl_Name (Files l) = [''p@1.0.0/a.js'', ''p@1.0.0/b.js'']" by (simp only: option.map option.inject)
  with l show ?thesis by (intro exI [of _ l] conjI) (simp_all only: nat_numeral)
qed

lemma collect_page_extends: "\<exists>new. snd (collect_page mime limit keys cur c objs) = c @ new"
  by (induction mime limit keys cur c objs rule: collect_page.induct) (auto simp: Let_def)

context reliable_storage
begin

lemma files_loop_extends:
  assumes "files_loop mime os p limit w cur keys c = Some c'" and "1 \<le> limit" and "p \<noteq> ''''"
  shows "\<exists>new. c' = c @ new"
  using assms(1)
proof (induction "length (keys_after (store w) p cur)" arbitrary: cur keys c rule: less_induct)
  case less
  let ?page = "os_ListObjectsPage os p cur limit w"
  let ?keys = "keys \<union> oi_Key ` set (fst ?page)"
  let ?next = "collect_page mime limit ?keys cur c (fst ?page)"
  obtain new where new: "snd ?next = c @ new" using collect_page_extends by blast
  show ?case
  proof (cases "limit < int (length c) \<or> fst ?page = [] \<or> \<not> snd ?page")
    case True
    then have "c' = c \<or> c' = snd ?next"
      using less.prems [unfolded files_loop.simps [of mime os p limit w cur keys c]] by (auto simp: Let_def split: if_splits)
    with new show ?thesis by (metis append_Nil2)
  next
    case False
    then have "fst ?next \<in> set (map oi_Key (fst ?page))" using collect_page_cursor by fastforce
    then have "fst ?next \<in> set (keys_after (store w) p cur)" unfolding page_keys(1) [OF assms(2)] by (rule in_set_takeD)
    moreover have "files_loop mime os p limit w (fst ?next) ?keys (snd ?next) = Some c'"
      using less.prems [unfolded files_loop.simps [of mime os p limit w cur keys c]] False by (simp add: Let_def)
    ultimately show ?thesis using less.hyps [OF keys_after_shrinks [OF _ assms(3)]] new by fastforce
  qed
qed

text \<open>The first key of a page is collected when its source is not known.\<close>

lemma files_loop_head:
  assumes "1 \<le> limit" and "p \<noteq> ''''" and "keys_after (store w) p cur = k # rest"
    and "\<not> isEncodedVariant mime k (keys \<union> set (k # rest))"
    and "files_loop mime os p limit w cur keys [] = Some c'"
  shows "\<exists>f cu new. c' = (f, cu) # new \<and> fl_Name f = k"
proof -
  let ?page = "os_ListObjectsPage os p cur limit w"
  let ?keys = "keys \<union> oi_Key ` set (fst ?page)"
  let ?next = "collect_page mime limit ?keys cur [] (fst ?page)"
  have page: "map oi_Key (fst ?page) = k # take (nat limit - 1) rest"
    using page_keys(1) [OF assms(1), of p cur w] assms(1,3) by (cases "nat limit") auto
  then obtain ob obs where obs: "fst ?page = ob # obs" "oi_Key ob = k" by auto
  have "oi_Key ` set (fst ?page) \<subseteq> set (k # rest)"
    using page set_take_subset [of "nat limit - 1" rest] by (metis list.set_map set_take_subset list.simps(15) insert_mono)
  then have "\<not> isEncodedVariant mime k ?keys" using assms(4) unfolding isEncodedVariant_iff by blast
  then have "\<exists>f cu new. snd ?next = (f, cu) # new \<and> fl_Name f = k"
    using obs assms(1) collect_page_extends [of mime limit ?keys k "[(\<lparr>fl_Name = k, fl_Size = oi_Size ob, Folder = False\<rparr>, cur)]" obs]
    by (auto simp: Let_def)
  then obtain f cu new where next1: "snd ?next = (f, cu) # new" "fl_Name f = k" by blast
  have "\<exists>more. c' = snd ?next @ more"
  proof (cases "snd ?page")
    case False
    then show ?thesis using assms(1) assms(5) [unfolded files_loop.simps [of mime os p limit w cur keys "[]"]] obs(1) by (simp add: Let_def)
  next
    case True
    then have "files_loop mime os p limit w (fst ?next) ?keys (snd ?next) = Some c'"
      using assms(1) assms(5) [unfolded files_loop.simps [of mime os p limit w cur keys "[]"]] obs(1) by (simp add: Let_def)
    from files_loop_extends [OF this assms(1,2)] show ?thesis .
  qed
  with next1 show ?thesis by auto
qed

end

text \<open>C37: Paging does not show the same files as the whole listing. On a reliable storage, a compressed
  copy of a stored file is not visible in the folder; but when the keys after the cursor of a page
  start with the copy, and the cursor is neither its source nor a compressed copy of that source, then
  the page lists the copy first, as a file of its own.\<close>

theorem GetFiles_variant_reappears:
  assumes "reliable_storage (objectStorageManager svc) store" and "1 \<le> limit" and "IsPinnedVersion (pk_semver pk) version"
    and "keys_after (store w) (pkg @ ''@'' @ version @ ''/'') after = k # rest"
    and "k = source @ ''.br'' \<or> k = source @ ''.gz''" and "snd (compressibleContentType (pk_mime pk) source)"
    and "source \<in> set (keys_after (store w) (pkg @ ''@'' @ version @ ''/'') '''')"
    and "after \<notin> {source, source @ ''.br'', source @ ''.gz''}" and "after \<noteq> ''''"
  shows "k \<notin> set (visible_files (pk_mime pk) (store w) (pkg @ ''@'' @ version @ ''/'')) \<and>
    (\<exists>l f fs. GetFiles pk svc pkg version after limit w = Some l \<and> Files l = f # fs \<and> fl_Name f = k)"
proof -
  let ?p = "listing_prefix pkg version" and ?os = "objectStorageManager svc"
  let ?seed = "seedBoundaryKeys {} after"
  have p: "?p \<noteq> ''''" and pfx: "pkg @ ''@'' @ version @ ''/'' = ?p" by (simp_all add: listing_prefix_def)
  have hidden: "k \<notin> set (visible_files (pk_mime pk) (store w) ?p)"
    using assms(5-7) unfolding pfx by (auto simp: visible_files_def encoded_copy_def)
  have seeds: "?seed \<subseteq> insert after {x. after = x @ ''.br'' \<or> after = x @ ''.gz''}"
  proof -
    have found: "after = x @ sf" if "CutSuffix after sf = (x, True)" for x sf using that CutSuffix_True by blast
    show ?thesis
      unfolding seedBoundaryKeys_def encodings_def by (auto split: prod.splits if_splits dest: found)
  qed
  have order: "sorted (k # rest)" "distinct (k # rest)" using keys_after_sorted [of "store w" ?p after] assms(4) unfolding pfx by simp_all
  have copy: "source' = source" if "k = source' @ ''.br'' \<or> k = source' @ ''.gz''" for source'
    using that assms(5) by auto
  have "source < k" using assms(5) by auto
  then have "source \<notin> set (k # rest)" using order by auto
  moreover have "source \<notin> ?seed" using seeds assms(8) by auto
  ultimately have new: "\<not> isEncodedVariant (pk_mime pk) k (?seed \<union> set (k # rest))"
    unfolding isEncodedVariant_iff using copy by blast
  obtain c where c: "files_loop (pk_mime pk) ?os ?p limit w after ?seed [] = Some c"
    using reliable_storage.files_loop_returns [OF assms(1,2) p, of "pk_mime pk" w after ?seed "[]"] by blast
  from reliable_storage.files_loop_head [OF assms(1,2) p assms(4) [unfolded pfx] new c]
  obtain f cu more where head: "c = (f, cu) # more" "fl_Name f = k" by blast
  have res: "(if IsPinnedVersion (pk_semver pk) version then Some version else resolveVersion pk svc pkg version w) = Some version"
    using assms(3) by simp
  from GetFiles_resolved [OF res assms(2) c] obtain l where "GetFiles pk svc pkg version after limit w = Some l"
    "Files l = map fst (take (nat limit) c)" by blast
  moreover have "\<exists>fs. map fst (take (nat limit) c) = f # fs" using head(1) assms(2) by (cases "nat limit") auto
  ultimately show ?thesis using hidden head(2) unfolding pfx by auto
qed

theorem GetFiles_variant_reappears_witness:
  "''p@1.0.0/a.js.br'' \<notin> set (visible_files (pk_mime ref_packages)
     (mem_objs ''gimme'' (ref_folder [''a.js'', ''a.js-x'', ''a.js-y'', ''a.js.br''])) ''p@1.0.0/'') \<and>
   (\<exists>l f fs. ref_listing ''p@1.0.0/a.js-y'' 1 [''a.js'', ''a.js-x'', ''a.js-y'', ''a.js.br''] = Some l \<and>
     Files l = f # fs \<and> fl_Name f = ''p@1.0.0/a.js.br'')"
proof -
  let ?w = "ref_folder [''a.js'', ''a.js-x'', ''a.js-y'', ''a.js.br'']"
  have pin: "IsPinnedVersion (pk_semver ref_packages) ''1.0.0''" by code_simp
  have dom: "dom (mem_objs ''gimme'' ?w) = {''p@1.0.0/a.js'', ''p@1.0.0/a.js-x'', ''p@1.0.0/a.js-y'', ''p@1.0.0/a.js.br''}"
    by (auto simp: mem_objs_def ref_folder_def ref_object_def split: if_splits)
  have keys: "keys_after (mem_objs ''gimme'' ?w) (''p'' @ ''@'' @ ''1.0.0'' @ ''/'') ''p@1.0.0/a.js-y'' = [''p@1.0.0/a.js.br'']"
    unfolding keys_after_def dom by code_simp
  have src: "''p@1.0.0/a.js'' \<in> set (keys_after (mem_objs ''gimme'' ?w) (''p'' @ ''@'' @ ''1.0.0'' @ ''/'') '''')"
    unfolding keys_after_def dom by code_simp
  have kind: "snd (compressibleContentType (pk_mime ref_packages) ''p@1.0.0/a.js'')" by code_simp
  have copy: "''p@1.0.0/a.js.br'' = ''p@1.0.0/a.js'' @ ''.br'' \<or> ''p@1.0.0/a.js.br'' = ''p@1.0.0/a.js'' @ ''.gz''"
    and cursor: "''p@1.0.0/a.js-y'' \<notin> {''p@1.0.0/a.js'', ''p@1.0.0/a.js'' @ ''.br'', ''p@1.0.0/a.js'' @ ''.gz''}" "''p@1.0.0/a.js-y'' \<noteq> ''''"
    and one: "1 \<le> (1 :: int)" by simp_all
  have folder: "''p'' @ ''@'' @ ''1.0.0'' @ ''/'' = ''p@1.0.0/''" by simp
  note at = GetFiles_variant_reappears [where pk = ref_packages and svc = ref_service and store = "mem_objs ''gimme''" and w = ?w and limit = 1
    and pkg = "''p''" and version = "''1.0.0''" and after = "''p@1.0.0/a.js-y''" and k = "''p@1.0.0/a.js.br''" and source = "''p@1.0.0/a.js''" and rest = "[]"]
  show ?thesis
    using at [OF ref_storage.reliable_storage_axioms one pin keys copy kind src cursor] unfolding folder .
qed

text \<open>Paging can drop a file: of two files \<open>a.js.br\<close> and \<open>a.js.gz\<close> without an
  \<open>a.js\<close>, both are listed on one page; with pages of one file the first page announces
  more and the page after its cursor is empty.\<close>

lemma GetFiles_page_drops_file:
  "map_option (\<lambda>l. map fl_Name (Files l)) (ref_listing '''' 10 [''a.js.br'', ''a.js.gz'']) =
     Some [''p@1.0.0/a.js.br'', ''p@1.0.0/a.js.gz''] \<and>
   map_option (\<lambda>l. (map fl_Name (Files l), HasMore l, Next l)) (ref_listing '''' 1 [''a.js.br'', ''a.js.gz'']) =
     Some ([''p@1.0.0/a.js.br''], True, ''p@1.0.0/a.js.br'') \<and>
   map_option (\<lambda>l. map fl_Name (Files l)) (ref_listing ''p@1.0.0/a.js.br'' 1 [''a.js.br'', ''a.js.gz'']) = Some []"
  by (intro conjI; code_simp)

text \<open>C38: A miss is remembered. On a reliable storage, when an alias is requested before any version
  exists that it matches, and the cache keeps the entry it is given, then a version that is uploaded
  next is not served under the alias: although the alias resolves to it, the request is still
  answered with a missing object, whatever is stored of that version, until the entry is gone.\<close>

theorem GetFile_remembers_miss:
  assumes "reliable_storage (objectStorageManager svc) store" and "semver_laws (pk_semver pk)"
    and "cacheManager svc = Some cm" and "CHR ''@'' \<notin> set pkg"
    and "version = latestVersionAlias \<or> IsValid (pk_semver pk) (''v'' @ version)" and "\<not> isFullSemver (pk_semver pk) version"
    and "\<And>v. stored_version (store (gs_storage s)) pkg v \<Longrightarrow> \<not> versionMatches (pk_semver pk) v version"
    and "\<And>k. prefix (pkg @ ''@'' @ version @ ''/'') k \<Longrightarrow> store (gs_storage s) k = None"
    and "cache_Get cm (pkg @ ''@'' @ version @ fl) (gs_cache s) = None"
    and "\<And>e. cache_Get cm (pkg @ ''@'' @ version @ fl) (snd (cache_Set cm (pkg @ ''@'' @ version @ fl) e (cacheTTL svc) (gs_cache s))) = Some e"
    and "GetFile pk svc pkg version fl accepted s = (r, s1)"
    and "CreatePackage pk svc sched order pkg v file n s1 = (None, s2)"
  shows "(\<exists>ob x. fst (GetFile pk svc pkg version fl accepted' s2) = Inr (ob, '''') \<and> Stat ob = Inl x) \<and>
    (stored_version (store (gs_storage s2)) pkg v \<and> versionMatches (pk_semver pk) v version \<longrightarrow>
       (\<exists>v'. resolveVersion pk svc pkg version (gs_storage s2) = Some v'))"
proof -
  let ?key = "pkg @ ''@'' @ version @ fl" and ?path = "pkg @ ''@'' @ version @ ''/'' @ TrimLeft fl (CHR ''/'')"
  have unpinned: "\<not> IsPinnedVersion (pk_semver pk) version" using assms(6) by (simp add: IsPinnedVersion_def)
  have "resolveVersion pk svc pkg version (gs_storage s) = None"
    using resolved_highest [OF assms(1,2), where pkg = pkg and version = version and w = "gs_storage s"] assms(7) by (auto split: option.splits)
  then have path: "file_path pk svc pkg version fl (gs_storage s) = ?path" using unpinned by (simp add: file_path_def)
  obtain q where q: "getEncodedObject pk svc ?path fl accepted (gs_storage s) = Inr q" using getEncodedObject_total [OF assms(1)] by blast
  have s1: "gs_cache s1 = snd (cache_Set cm ?key \<lparr>ObjectPath = ?path\<rparr> (cacheTTL svc) (gs_cache s))" "gs_storage s1 = gs_storage s"
    using assms(3,5,9,11) unpinned path q by (auto simp: GetFile_def Let_def split: if_split_asm)
  have cached: "cache_Get cm ?key (gs_cache s2) = Some \<lparr>ObjectPath = ?path\<rparr>"
    using CreatePackage_cache [OF assms(12)] s1(1) assms(10) by simp
  have full: "isFullSemver (pk_semver pk) v" using CreatePackage_accepted [OF assms(12)] by blast
  have slash: "CHR ''/'' \<notin> set version" "CHR ''/'' \<notin> set v"
    using assms(5) full semver_no_slash [OF assms(2)] by (auto simp: latestVersionAlias_def isFullSemver_def)
  have "store (gs_storage s2) k = None" if "prefix ?path k" for k
  proof -
    from that obtain z where "k = ?path @ z" unfolding prefix_def by blast
    then obtain t where t: "k = pkg @ ''@'' @ version @ ''/'' @ t" by simp
    have "\<not> prefix (pkg @ ''@'' @ v @ ''/'') k"
      using folder_key_split [OF assms(4,4) slash(2,1), of t] full assms(6) unfolding t by blast
    from CreatePackage_frame [OF reliable_storage.axioms(1) [OF assms(1)] assms(12) this] assms(8) [of k] t s1(2)
    show ?thesis by simp
  qed
  from missing_object [OF assms(1) this]
  have "\<exists>ob x. getEncodedObject pk svc ?path fl accepted' (gs_storage s2) = Inr (ob, '''') \<and> Stat ob = Inl x" by blast
  moreover have "fst (GetFile pk svc pkg version fl accepted' s2) = getEncodedObject pk svc ?path fl accepted' (gs_storage s2)"
    using assms(3,5) unpinned cached by (simp add: GetFile_def)
  moreover have "\<exists>v'. resolveVersion pk svc pkg version (gs_storage s2) = Some v'"
    if "stored_version (store (gs_storage s2)) pkg v" "versionMatches (pk_semver pk) v version"
    using resolved_highest [OF assms(1,2), where pkg = pkg and version = version and w = "gs_storage s2"] that by (auto split: option.splits)
  ultimately show ?thesis by auto
qed

theorem GetFile_remembers_miss_witness:
  "\<exists>ob x. fst (GetFile ref_packages ref_service ''p'' ''1'' ''/a.js'' [] (snd (CreatePackage ref_packages ref_service [] (\<lambda>_. False) ''p'' ''1.0.0''
     [ref_file ''a.js'' ''abc''] 100 (snd (GetFile ref_packages ref_service ''p'' ''1'' ''/a.js'' [] (ref_state [] [])))))) = Inr (ob, '''') \<and> Stat ob = Inl x"
proof -
  let ?miss = "GetFile ref_packages ref_service ''p'' ''1'' ''/a.js'' [] (ref_state [] [])"
  let ?up = "CreatePackage ref_packages ref_service [] (\<lambda>_. False) ''p'' ''1.0.0'' [ref_file ''a.js'' ''abc''] 100 (snd ?miss)"
  have up: "fst ?up = None" by code_simp
  have unpinned: "''1'' = latestVersionAlias \<or> IsValid (pk_semver ref_packages) (''v'' @ ''1'')" "\<not> isFullSemver (pk_semver ref_packages) ''1''"
    "CHR ''@'' \<notin> set ''p''" by code_simp+
  have empty: "mem_objs ''gimme'' (gs_storage (ref_state [] [])) k = None" for k by (simp add: ref_state_sel mem_objs_def)
  have none: "\<not> stored_version (mem_objs ''gimme'' (gs_storage (ref_state [] []))) ''p'' v" for v
    by (auto simp: stored_version_def empty)
  have get: "cache_Get (NewRedisCache mem_redis mem_codec 3) (''p'' @ ''@'' @ ''1'' @ ''/a.js'') (gs_cache (ref_state [] [])) = None"
    unfolding ref_state_sel by code_simp
  from GetFile_remembers_miss [OF ref_storage.reliable_storage_axioms ref_laws ref_service_sel(2) unpinned(3,1,2) _ empty get mem_cache_roundtrip
      prod.collapse [symmetric] fst_eq_pair [OF up]] none
  show ?thesis by blast
qed

end
