(* ===== verification/Gimme_ApiSpec.thy ===== *)
theory Gimme_ApiSpec
  imports Gimme_ApiRef Gimme_Listing
begin

text \<open>
  What the routes guarantee: only a request with a valid token changes the storage and only a
  request that the login provider lets through changes the tokens; which answers caches may keep;
  that a revalidation with the entity tag of an answer is answered with 304; that a listing
  request over a reliable storage returns, within its limit; that what the links of a listing carry
  can be read back.
\<close>

subsection \<open>Who may change what\<close>

lemma GetFile_storage: "gs_storage (snd (GetFile pk svc pkg version fileName accepted s)) = gs_storage s"
  by (simp add: GetFile_def Let_def split: option.split sum.split)

lemma getPackage_storage: "gs_storage (snd (getPackage hp pk svc rq s)) = gs_storage s"
proof -
  have "gs_storage s' = gs_storage s" if "GetFile pk svc pkg version f acc s = (r, s')" for pkg version f acc r s'
    using GetFile_storage [of pk svc pkg version f acc s] that by simp
  then show ?thesis by (auto simp: getPackage_def Let_def split: sum.splits prod.splits)
qed

text \<open>C8: the stored packages change only by an upload or a deletion whose bearer token is known
  to the token store, not revoked and not expired at that instant; every other request and every
  other route leaves the storage as it is. This holds over every token store that meets the
  contract, so for the file, the Redis and the PostgreSQL store.\<close>

theorem storage_change_requires_token:
  assumes "token_store (ga_store app) sweep stamp fresh tinv view" and "tinv t"
    and "handle app now route s t = (r, s', t')" and "gs_storage s' \<noteq> gs_storage s"
  shows "\<exists>rq e. (\<exists>form sched order. route = PostPackage rq form sched order \<or> route = DeletePackageRoute rq) \<and>
    view t (hashToken (ga_sha256 app) (extractToken (rq_Header rq ''Authorization''))) = Some e \<and> \<not> IsRevoked e \<and> \<not> IsExpired now e"
proof -
  have token: "\<exists>e. view t (hashToken (ga_sha256 app) (extractToken (rq_Header rq ''Authorization''))) = Some e \<and> \<not> IsRevoked e \<and> \<not> IsExpired now e"
    if "with_token app now rq handler s t = (r, s', t')" for rq handler
  proof (cases "fst (AuthenticateMiddleware (ga_store app) (ga_sha256 app) now (rq_Header rq ''Authorization'') t)")
    case True
    then show ?thesis by (rule token_store.authenticate_sound [OF assms(1,2)])
  next
    case False
    with that have "s' = s" by (auto simp: with_token_def split: prod.splits bool.splits)
    with assms(4) show ?thesis by simp
  qed
  have login: "s' = s" if "with_login app now rq handler s t = (r, s', t')" for rq handler
    using that by (auto simp: with_login_def split: option.splits prod.splits)
  show ?thesis
  proof (cases route)
    case (PostPackage rq form sched order)
    with assms(3) token show ?thesis by auto
  next
    case (DeletePackageRoute rq)
    with assms(3) token show ?thesis by auto
  next
    case (GetPackageFile rq)
    with assms(3,4) getPackage_storage [of "ga_hp app" "ga_pk app" "ga_svc app" rq s] show ?thesis by (auto split: prod.splits)
  qed (use assms(3,4) login in auto)
qed

theorem storage_change_requires_token_witness:
  "\<exists>rq e. ((\<exists>form sched order. DeletePackageRoute ref_delete = PostPackage rq form sched order) \<or>
        DeletePackageRoute ref_delete = (DeletePackageRoute rq :: zip_file list route)) \<and>
     pg_view (set (fst ref_pg)) (hashToken (\<lambda>s. s) (extractToken (rq_Header rq ''Authorization''))) = Some e \<and>
     \<not> IsRevoked e \<and> \<not> IsExpired 7000 e"
proof -
  let ?h = "handle ref_app 7000 (DeletePackageRoute ref_delete) (ref_state ref_world2 []) ref_pg"
  have changed: "gs_storage (fst (snd ?h)) \<noteq> gs_storage (ref_state ref_world2 [])"
  proof
    assume "gs_storage (fst (snd ?h)) = gs_storage (ref_state ref_world2 [])"
    then have "length (gs_storage (fst (snd ?h))) = length (gs_storage (ref_state ref_world2 []))" by (rule arg_cong)
    moreover have "length (gs_storage (fst (snd ?h))) \<noteq> length (gs_storage (ref_state ref_world2 []))" by code_simp
    ultimately show False by (rule notE [rotated])
  qed
  have eq: "?h = (fst ?h, fst (snd ?h), snd (snd ?h))" by simp
  from storage_change_requires_token [OF ref_app_store ref_pg_unique eq changed]
  show ?thesis unfolding ref_app_sel ex_disj_distrib by blast
qed

text \<open>Tokens are issued and revoked only behind the login of the administrator: whenever the
  token store holds something after a request that it did not hold before, the request was one of
  the token routes and the login middleware let it through.\<close>

lemma token_change_login:
  assumes "token_store (ga_store app) sweep stamp fresh tinv view" and "tinv t"
    and "handle app now route s t = (r, s', t')" and "\<not> view t' \<subseteq>\<^sub>m view t"
  shows "\<exists>rq. (\<exists>env json. route = PostToken rq env json \<or> route = DeleteTokenRoute rq) \<and> ga_login app now rq = None"
proof -
  have auth: "view t' \<subseteq>\<^sub>m view t" if "with_token app now rq handler s t = (r, s', t')" for rq handler
  proof -
    have "t' = snd (AuthenticateMiddleware (ga_store app) (ga_sha256 app) now (rq_Header rq ''Authorization'') t)"
      using that by (auto simp: with_token_def split: prod.splits bool.splits)
    then show ?thesis
      using token_store.get_inv [OF assms(1,2)]
      by (cases rule: AuthenticateMiddleware_state [of "ga_store app" "ga_sha256 app" now "rq_Header rq ''Authorization''" t]) auto
  qed
  have login: "ga_login app now rq = None" if "with_login app now rq handler s t = (r, s', t')" for rq handler
    using that assms(4) by (auto simp: with_login_def split: option.splits)
  have admin: "view (snd (getAdmin (ga_store app) t)) \<subseteq>\<^sub>m view t"
    using token_store.list_inv [OF assms(1,2)] by (auto simp: getAdmin_def ListTokens_def split: prod.split)
  show ?thesis
  proof (cases route)
    case (GetAdminRoute rq)
    with assms(3) have "t' = t \<or> t' = snd (getAdmin (ga_store app) t)" by (auto simp: with_login_def split: option.splits prod.splits)
    with admin assms(4) show ?thesis by auto
  qed (use assms(3,4) auth login in \<open>auto split: prod.splits\<close>)
qed

subsection \<open>Caching\<close>

lemma respond_header: "rs_Header (respond n (hs @ [(k, v)]) b) k = Some v"
  by (simp add: respond_def)

lemma respond_header_other: "k \<noteq> k' \<Longrightarrow> rs_Header (respond n (hs @ [(k', v)]) b) k = rs_Header (respond n hs b') k"
  by (simp add: respond_def)

lemma respond_simps [simp]: "rs_Status (respond n hs b) = n" "rs_Body (respond n hs b) = b"
  by (simp_all add: respond_def)

lemma serve_object_cache:
  "rs_Status (serve_object hp pk rq f version object infos encoding) \<in> {200, 304} \<and>
   rs_Header (serve_object hp pk rq f version object infos encoding) ''Cache-Control'' = Some (cacheControlHeader (pk_semver pk) version)"
  by (auto simp: serve_object_def object_headers_def respond_def Let_def)

lemma GetHTTPCode_error: "GetHTTPCode e \<noteq> 200 \<and> GetHTTPCode e \<noteq> 304"
  by (simp add: GetHTTPCode_def httpCodes_def split: option.split ErrorKindEnum.split)

lemma gimme_error_simps: "rs_Status (gimme_error_response hs e) = GetHTTPCode e" "rs_Header (gimme_error_response hs e) = map_of (rev hs)"
  by (simp_all add: gimme_error_response_def respond_def)

lemma immutable_header: "cacheControlHeader sv version = ''public, max-age=31536000, immutable'' \<longleftrightarrow> IsPinnedVersion sv version"
  by (simp add: cacheControlHeader_def)

text \<open>The answer to a request for a file of a version.\<close>

lemma getPackage_file:
  assumes "getSlice (rq_Param rq ''package'') = Inr pkg" and "rq_Param rq ''file'' \<noteq> ''/''"
  shows "getPackage hp pk svc rq s =
    (let accepted = parseAcceptEncoding (hp_ParseFloat hp) (rq_Header rq ''Accept-Encoding'');
         noStore = [(''Vary'', ''Accept-Encoding''), (''Cache-Control'', ''no-store'')]
     in case GetFile pk svc (ps_Name pkg) (ps_Version pkg) (rq_Param rq ''file'') (acc_encodings accepted) s of
          (Inl err, s') \<Rightarrow> (Some (gimme_error_response noStore err), s')
        | (Inr (object, encoding), s') \<Rightarrow>
            (case Stat object of
               Inl _ \<Rightarrow> (Some (respond 404 noStore (ErrorText ''object not found'')), s')
             | Inr infos \<Rightarrow>
                 if encoding = '''' \<and> \<not> acc_identity accepted
                 then (Some (respond 406 noStore (ErrorText ''no acceptable content coding available for this file'')), s')
                 else (Some (serve_object hp pk rq (rq_Param rq ''file'') (ps_Version pkg) object infos encoding), s')))"
  using assms by (simp add: getPackage_def Let_def)

lemma getPackage_bad_slice:
  assumes "getSlice (rq_Param rq ''package'') = Inl err" and "rq_Param rq ''file'' \<noteq> ''/''"
  shows "\<exists>r. fst (getPackage hp pk svc rq s) = Some r \<and> rs_Status r = 400 \<and> rs_Header r ''Cache-Control'' = None"
proof -
  have "GetHTTPCode err = 400"
    using assms(1) by (auto simp: getSlice_def Let_def GetHTTPCode_def httpCodes_def NewBusinessError_def split: if_splits)
  then show ?thesis using assms by (simp add: getPackage_def Let_def gimme_error_simps)
qed

lemma getPackage_file_cacheable:
  assumes "getSlice (rq_Param rq ''package'') = Inr pkg" and "rq_Param rq ''file'' \<noteq> ''/''"
  shows "\<exists>r. fst (getPackage hp pk svc rq s) = Some r \<and>
    rs_Header r ''Cache-Control'' = Some (if rs_Status r \<in> {200, 304} then cacheControlHeader (pk_semver pk) (ps_Version pkg) else ''no-store'') \<and>
    (rs_Header r ''Cache-Control'' = Some ''public, max-age=31536000, immutable'' \<longleftrightarrow>
       rs_Status r \<in> {200, 304} \<and> IsPinnedVersion (pk_semver pk) (ps_Version pkg))"
proof -
  define accepted where "accepted = parseAcceptEncoding (hp_ParseFloat hp) (rq_Header rq ''Accept-Encoding'')"
  obtain res s' where g: "GetFile pk svc (ps_Name pkg) (ps_Version pkg) (rq_Param rq ''file'') (acc_encodings accepted) s = (res, s')" by fastforce
  let ?noStore = "[(''Vary'', ''Accept-Encoding''), (''Cache-Control'', ''no-store'')]"
  define good :: "response \<Rightarrow> bool" where "good r' \<longleftrightarrow>
      rs_Status r' \<in> {200, 304} \<and> rs_Header r' ''Cache-Control'' = Some (cacheControlHeader (pk_semver pk) (ps_Version pkg)) \<or>
      rs_Status r' \<notin> {200, 304} \<and> rs_Header r' ''Cache-Control'' = Some ''no-store''" for r'
  note answer = getPackage_file [OF assms, of hp pk svc s, folded accepted_def, unfolded Let_def g prod.case]
  have err: "good (gimme_error_response ?noStore e)" for e by (simp add: good_def gimme_error_simps GetHTTPCode_error)
  have bad: "good (respond 404 ?noStore b)" "good (respond 406 ?noStore b)" for b by (simp_all add: good_def respond_def)
  have served: "good (serve_object hp pk rq f (ps_Version pkg) object infos encoding)" for f object infos encoding
    unfolding good_def using serve_object_cache by blast
  have "\<exists>r'. fst (getPackage hp pk svc rq s) = Some r' \<and> good r'"
    unfolding answer using err bad served by (simp split: sum.split prod.split)
  then obtain r' where r': "fst (getPackage hp pk svc rq s) = Some r'" "good r'" by blast
  then show ?thesis using immutable_header [of "pk_semver pk" "ps_Version pkg"] unfolding good_def by auto
qed

text \<open>C16: what a cache may keep of the answer to a request for a file. When the package segment names
  a package and a version, the answer is marked immutable exactly when it is the content (or its
  revalidation) of a full, pinned version, the content of an alias may be kept for five minutes,
  and every error says no-store. When the segment does not, the answer is a 400 without any
  Cache-Control header.\<close>

theorem getPackage_cacheable:
  assumes "rq_Param rq ''file'' \<noteq> ''/''"
  shows "\<exists>r. fst (getPackage hp pk svc rq s) = Some r \<and>
    (case getSlice (rq_Param rq ''package'') of
       Inl _ \<Rightarrow> rs_Status r = 400 \<and> rs_Header r ''Cache-Control'' = None
     | Inr pkg \<Rightarrow>
         rs_Header r ''Cache-Control'' = Some
           (if rs_Status r \<notin> {200, 304} then ''no-store''
            else if IsPinnedVersion (pk_semver pk) (ps_Version pkg) then ''public, max-age=31536000, immutable''
            else ''public, max-age=300''))"
proof (cases "getSlice (rq_Param rq ''package'')")
  case (Inl err)
  then show ?thesis using getPackage_bad_slice [OF Inl assms, of hp pk svc s] by simp
next
  case (Inr pkg)
  then show ?thesis using getPackage_file_cacheable [OF Inr assms, of hp pk svc s] by (auto simp: cacheControlHeader_def)
qed

theorem getPackage_cacheable_witness:
  "\<exists>r. fst (getPackage ref_http ref_packages ref_service ref_get (ref_state ref_world2 [])) = Some r \<and>
    rs_Header r ''Cache-Control'' = Some (if rs_Status r \<notin> {200, 304} then ''no-store'' else ''public, max-age=31536000, immutable'')"
proof -
  have f: "rq_Param ref_get ''file'' \<noteq> ''/''" by code_simp
  have pin: "IsPinnedVersion (pk_semver ref_packages) ''1.0.0''" by code_simp
  from getPackage_cacheable [OF f, of ref_http ref_packages ref_service "ref_state ref_world2 []"]
  show ?thesis unfolding ref_get_slice sum.case packageSlice.select_convs if_P [OF pin] .
qed

subsection \<open>Revalidation\<close>

lemma TrimSpace_quoted: "TrimSpace (quoted s) = quoted s"
proof -
  have "list_all (\<lambda>r. r \<noteq> [] \<and> hd r \<noteq> CHR 0x22) (space_runes @ map rev space_runes)" by code_simp
  then have other: "r \<noteq> [] \<and> hd r \<noteq> CHR 0x22" if "r \<in> set space_runes \<or> r \<in> set (map rev space_runes)" for r
    using that unfolding list_all_iff set_append by blast
  have head: "find (\<lambda>r. prefix r (CHR 0x22 # t)) rs = None" if "rs \<in> {space_runes, map rev space_runes}" for t rs
    unfolding find_None_iff
  proof
    assume "\<exists>r. r \<in> set rs \<and> prefix r (CHR 0x22 # t)"
    then obtain r where "r \<in> set rs" "prefix r (CHR 0x22 # t)" by blast
    with that other [of r] show False by (cases r) auto
  qed
  have drop: "drop_spaces rs n (CHR 0x22 # t) = CHR 0x22 # t" if "rs \<in> {space_runes, map rev space_runes}" for t rs n
    using head [OF that] by (cases n) simp_all
  have "drop_spaces space_runes n (quoted s) = quoted s" for n
    unfolding quoted_def using drop [of space_runes n "s @ [CHR 0x22]"] by simp
  moreover have "rev (quoted s) = CHR 0x22 # rev s @ [CHR 0x22]" by (simp add: quoted_def)
  then have "drop_spaces (map rev space_runes) n (rev (quoted s)) = rev (quoted s)" for n using drop [of "map rev space_runes" n] by simp
  ultimately show ?thesis by (simp add: TrimSpace_def Let_def)
qed

lemma etagMatches_self:
  assumes "CHR '','' \<notin> set (quoted s)"
  shows "etagMatches (quoted s) (quoted s)"
proof -
  have "quoted s \<noteq> ''''" by (simp add: quoted_def)
  then show ?thesis using Split_no_sep [OF assms] by (simp add: etagMatches_def TrimSpace_quoted)
qed

lemma serve_object_etag:
  "rs_Header (serve_object hp pk rq f version object infos encoding) ''ETag'' =
     (if oi_ETag infos = '''' then None else Some (object_etag infos))"
  by (auto simp: serve_object_def object_headers_def respond_def Let_def split: option.splits)

text \<open>C17: a client that repeats a request for a file with the entity tag of the answer it got is
  answered 304 with the same tag and without a body, as long as the service finds the same object
  and the tag, which comes from the object storage, has no comma in it: the header is split at
  commas, so a tag with a comma would not match itself.\<close>

theorem revalidation_not_modified:
  assumes "getSlice (rq_Param rq ''package'') = Inr pkg" and "rq_Param rq ''file'' \<noteq> ''/''"
    and "fst (getPackage hp pk svc rq s) = Some r" and "rs_Status r = 200"
    and "rs_Header r ''ETag'' = Some tag" and "CHR '','' \<notin> set tag"
    and "\<And>accepted. fst (GetFile pk svc (ps_Name pkg) (ps_Version pkg) (rq_Param rq ''file'') accepted s') =
      fst (GetFile pk svc (ps_Name pkg) (ps_Version pkg) (rq_Param rq ''file'') accepted s)"
  shows "\<exists>r'. fst (getPackage hp pk svc (rq\<lparr>rq_Header := (rq_Header rq)(''If-None-Match'' := tag)\<rparr>) s') = Some r' \<and>
    rs_Status r' = 304 \<and> rs_Body r' = NoBody \<and> rs_Header r' ''ETag'' = Some tag"
proof -
  let ?rq = "rq\<lparr>rq_Header := (rq_Header rq)(''If-None-Match'' := tag)\<rparr>"
  define accepted where "accepted = parseAcceptEncoding (hp_ParseFloat hp) (rq_Header rq ''Accept-Encoding'')"
  let ?get = "GetFile pk svc (ps_Name pkg) (ps_Version pkg) (rq_Param rq ''file'') (acc_encodings accepted)"
  obtain res s1 where g: "?get s = (res, s1)" by fastforce
  with assms(7) obtain s2 where g': "?get s' = (res, s2)" by (metis fst_conv prod.collapse)
  note answer = getPackage_file [OF assms(1,2), of hp pk svc s, folded accepted_def, unfolded Let_def g prod.case]
  have sl: "getSlice (rq_Param ?rq ''package'') = Inr pkg" "rq_Param ?rq ''file'' \<noteq> ''/''" using assms(1,2) by simp_all
  have acc: "parseAcceptEncoding (hp_ParseFloat hp) (rq_Header ?rq ''Accept-Encoding'') = accepted" by (simp add: accepted_def)
  have sel: "rq_Param ?rq = rq_Param rq" by simp
  note answer' = getPackage_file [OF sl, of hp pk svc s', unfolded acc, unfolded Let_def sel g' prod.case]
  from assms(3,4) obtain object encoding infos where found: "res = Inr (object, encoding)" "Stat object = Inr infos"
      "\<not> (encoding = '''' \<and> \<not> acc_identity accepted)"
      "r = serve_object hp pk rq (rq_Param rq ''file'') (ps_Version pkg) object infos encoding"
    unfolding answer using GetHTTPCode_error
    by (auto simp: gimme_error_simps split: sum.splits prod.splits if_split_asm)
  have tag: "tag = object_etag infos" "oi_ETag infos \<noteq> ''''"
    using assms(5) unfolding found(4) serve_object_etag by (auto split: if_split_asm)
  then have "etagMatches tag (object_etag infos)" using etagMatches_self assms(6) by (simp add: object_etag_def)
  then have nm: "notModified (hp_ParseTime hp) (rq_Header ?rq) (object_etag infos) (oi_LastModified infos)"
    using tag by (simp add: notModified_def object_etag_def quoted_def)
  have "fst (getPackage hp pk svc ?rq s') =
      Some (serve_object hp pk ?rq (rq_Param rq ''file'') (ps_Version pkg) object infos encoding)"
    unfolding answer' found(1) sum.case prod.case found(2) if_not_P [OF found(3)] fst_conv by (rule refl)
  moreover have "serve_object hp pk ?rq (rq_Param rq ''file'') (ps_Version pkg) object infos encoding =
      respond 304 (object_headers hp pk infos (ps_Version pkg)) NoBody"
    unfolding serve_object_def Let_def using nm by simp
  ultimately show ?thesis using serve_object_etag [of hp pk ?rq "rq_Param rq ''file''" "ps_Version pkg" object infos encoding] tag by simp
qed

theorem revalidation_not_modified_witness:
  "\<exists>r'. fst (getPackage ref_http ref_packages ref_service (ref_get\<lparr>rq_Header := (rq_Header ref_get)(''If-None-Match'' := quoted ''tag'')\<rparr>)
      (ref_state ref_world2 [])) = Some r' \<and> rs_Status r' = 304 \<and> rs_Body r' = NoBody \<and> rs_Header r' ''ETag'' = Some (quoted ''tag'')"
proof -
  let ?g = "getPackage ref_http ref_packages ref_service ref_get (ref_state ref_world2 [])"
  have f: "rq_Param ref_get ''file'' \<noteq> ''/''" by code_simp
  have "case fst ?g of None \<Rightarrow> False | Some r \<Rightarrow> rs_Status r = 200 \<and> rs_Header r ''ETag'' = Some (quoted ''tag'')" by code_simp
  then obtain r where r: "fst ?g = Some r" "rs_Status r = 200" "rs_Header r ''ETag'' = Some (quoted ''tag'')"
    by (auto split: option.splits)
  have tag: "CHR '','' \<notin> set (quoted ''tag'')" by (simp add: quoted_def)
  show ?thesis by (rule revalidation_not_modified [OF ref_get_slice f r tag refl])
qed

subsection \<open>Listings\<close>

text \<open>\<open>url.ParseQuery\<close>: the pairs of a query, in order; a pair with a semicolon, an empty one and
  one that does not unescape are skipped.\<close>

definition parse_pair :: "string \<Rightarrow> (string \<times> string) option" where
  "parse_pair p =
     (if Contains p (CHR '';'') \<or> p = '''' then None
      else (case Cut p (CHR ''='') of (k, v, _) \<Rightarrow>
         (case (unescape True k, unescape True v) of (Some k', Some v') \<Rightarrow> Some (k', v') | _ \<Rightarrow> None)))"

definition ParseQuery :: "string \<Rightarrow> (string \<times> string) list" where
  "ParseQuery s = List.map_filter parse_pair (Split s (CHR ''&''))"

lemma dec_unescape: "list_all is_dec s \<Longrightarrow> unescape True s = Some s \<and> set ''&;#'' \<inter> set s = {}"
proof (induction s)
  case (Cons c s)
  then have "c \<noteq> CHR ''%''" "c \<noteq> CHR ''+''" "c \<notin> set ''&;#''" by (auto simp: is_dec_def less_eq_char_def)
  with Cons show ?case by auto
qed simp

lemma Itoa_query: "0 \<le> i \<Longrightarrow> unescape True (Itoa i) = Some (Itoa i) \<and> set ''&;#'' \<inter> set (Itoa i) = {}"
  using dec_digits_value [of i] dec_unescape [of "dec_digits i"] by (simp add: Itoa_def)

lemma parse_pair_escaped:
  assumes "k \<in> {''limit'', ''after''}" and "unescape True v = Some v'" and "CHR '';'' \<notin> set v"
  shows "parse_pair (k @ CHR ''='' # v) = Some (k, v')"
proof -
  have "CHR ''='' \<notin> set k" "unescape True k = Some k" "CHR '';'' \<notin> set k" using assms(1) by auto
  then show ?thesis using assms by (simp add: parse_pair_def Contains_def Cut_found)
qed

lemma listingURL_query:
  assumes "0 \<le> limit"
  shows "ParseQuery (''limit='' @ Itoa limit @ (if after \<noteq> '''' then ''&after='' @ QueryEscape after else '''')) =
    (''limit'', Itoa limit) # (if after \<noteq> '''' then [(''after'', after)] else [])"
proof -
  note itoa = Itoa_query [OF assms]
  have limit: "parse_pair (''limit='' @ Itoa limit) = Some (''limit'', Itoa limit)"
    using parse_pair_escaped [of "''limit''" "Itoa limit"] itoa by simp
  have cursor: "parse_pair (''after='' @ QueryEscape after) = Some (''after'', after)"
    using parse_pair_escaped [of "''after''" "QueryEscape after"] QueryEscape_semicolon unescape_QueryEscape by simp
  show ?thesis
  proof (cases "after = ''''")
    case True
    then show ?thesis using itoa limit by (simp add: ParseQuery_def Split_no_sep List.map_filter_simps)
  next
    case False
    have "CHR ''&'' \<notin> set (''limit='' @ Itoa limit)" "CHR ''&'' \<notin> set (''after='' @ QueryEscape after)"
      using itoa QueryEscape_sep [of after] by auto
    then have "Split ((''limit='' @ Itoa limit) @ CHR ''&'' # (''after='' @ QueryEscape after)) (CHR ''&'') =
        [''limit='' @ Itoa limit, ''after='' @ QueryEscape after]" by (subst Split_sep) (simp_all add: Split_no_sep)
    then show ?thesis using False limit cursor by (simp add: ParseQuery_def List.map_filter_simps)
  qed
qed

text \<open>C26: the links of a listing are well formed and unambiguous: \<open>listingURL\<close> is a path and a
  query, in which \<open>url.PathUnescape\<close> reads the package name back and \<open>url.ParseQuery\<close> the
  parameters; the handler reads the page size of the link from the one, and the other is the cursor,
  present when there is one, whatever bytes the name and the cursor contain. (How the HTTP framework
  routes such a path is not part of this statement.)\<close>

theorem listingURL_roundtrip:
  assumes "1 \<le> limit" and "limit \<le> maxListingLimit"
  shows "\<exists>segment query. listingURL pkg limit after = ''/gimme/'' @ segment @ ''?'' @ query \<and>
    set ''/?#'' \<inter> set segment = {} \<and> CHR ''#'' \<notin> set query \<and> unescape False segment = Some pkg \<and>
    (\<exists>raw. map_of (ParseQuery query) ''limit'' = Some raw \<and> listingLimit raw = limit) \<and>
    map_of (ParseQuery query) ''after'' = (if after = '''' then None else Some after)"
proof -
  define q where "q = ''limit='' @ Itoa limit @ (if after \<noteq> '''' then ''&after='' @ QueryEscape after else '''')"
  have url: "listingURL pkg limit after = ''/gimme/'' @ PathEscape pkg @ ''?'' @ q" by (simp add: listingURL_def q_def)
  have query: "ParseQuery q = (''limit'', Itoa limit) # (if after \<noteq> '''' then [(''after'', after)] else [])"
    unfolding q_def using assms(1) by (intro listingURL_query) simp
  have digits: "Itoa limit \<noteq> ''''"
    using dec_digits_value [of limit] assms by (simp_all add: Itoa_def)
  have "CHR ''#'' \<notin> set (Itoa limit)" using Itoa_query [of limit] assms by auto
  then have hash: "CHR ''#'' \<notin> set q" using QueryEscape_hash by (simp add: q_def)
  have "Atoi (Itoa limit) = Some limit" using assms by (intro Atoi_Itoa) (simp_all add: maxListingLimit_def)
  then have limit: "listingLimit (Itoa limit) = limit" using assms digits by (simp add: listingLimit_def)
  show ?thesis
    using url hash limit PathEscape_seps [of pkg] unescape_PathEscape [of pkg] by (intro exI [of _ "PathEscape pkg"] exI [of _ q]) (simp add: query)
qed

theorem listingURL_roundtrip_witness:
  "\<exists>segment query. listingURL ''a b@1'' 25 ''a b@1.0.0/x&y=1.js'' = ''/gimme/'' @ segment @ ''?'' @ query \<and>
    set ''/?#'' \<inter> set segment = {} \<and> CHR ''#'' \<notin> set query \<and> unescape False segment = Some ''a b@1'' \<and>
    (\<exists>raw. map_of (ParseQuery query) ''limit'' = Some raw \<and> listingLimit raw = 25) \<and>
    map_of (ParseQuery query) ''after'' = Some ''a b@1.0.0/x&y=1.js''"
  using listingURL_roundtrip [of 25 "''a b@1''" "''a b@1.0.0/x&y=1.js''"] by (simp add: maxListingLimit_def)

subsection \<open>Listing requests are answered\<close>

lemma listingLimit_range: "1 \<le> listingLimit raw \<and> listingLimit raw \<le> maxListingLimit"
  by (simp add: listingLimit_def defaultListingLimit_def maxListingLimit_def split: option.split)

text \<open>The version and the files that the body of an answer lists, if it is a listing.\<close>

definition listed :: "body \<Rightarrow> (string \<times> File list) option" where
  "listed b = (case b of ListingJSON l \<Rightarrow> Some (plr_Version l, plr_Files l) | ListingHTML _ l _ \<Rightarrow> Some (ls_Version l, Files l) | _ \<Rightarrow> None)"

lemma listed_simps [simp]:
  "listed NoBody = None" "listed (ErrorJSON e) = None" "listed (ErrorText m) = None" "listed (VersionsJSON v) = None"
  "listed (VersionsHTML n vs) = None" "listed (ObjectBody ob i) = None"
  by (simp_all add: listed_def)

text \<open>Listed files are stored files of the version, no more of them than the request allows.\<close>

definition listing_ok :: "(string \<Rightarrow> stored_object option) \<Rightarrow> request \<Rightarrow> response \<Rightarrow> bool" where
  "listing_ok st rq r \<longleftrightarrow>
     (\<forall>v files. listed (rs_Body r) = Some (v, files) \<longrightarrow>
        (\<exists>pkg. getSlice (rq_Param rq ''package'') = Inr pkg \<and> int (length files) \<le> listingLimit (rq_Query rq ''limit'') \<and>
          (\<forall>f \<in> set files. prefix (listing_prefix (ps_Name pkg) v) (fl_Name f) \<and>
             (\<exists>ob. st (fl_Name f) = Some ob \<and> fl_Size f = int (length (so_Body ob))))))"

lemma listing_ok_other: "listed (rs_Body r) = None \<Longrightarrow> listing_ok st rq r"
  by (simp add: listing_ok_def)

lemma gimme_error_body: "rs_Body (gimme_error_response hs e) = ErrorJSON e"
  by (simp add: gimme_error_response_def)

lemma getHTMLPackage_returns:
  assumes "reliable_storage (objectStorageManager svc) store" and "getSlice (rq_Param rq ''package'') = Inr pkg"
  shows "\<exists>r. getHTMLPackage hp pk svc rq p (ps_Name pkg) (ps_Version pkg) s = Some r \<and> listing_ok (store (gs_storage s)) rq r"
proof -
  define limit where "limit = listingLimit (rq_Query rq ''limit'')"
  have range: "1 \<le> limit" using listingLimit_range by (simp add: limit_def)
  from GetFiles_returns [OF assms(1) range, of pk "ps_Name pkg" "ps_Version pkg" "rq_Query rq ''after''" "gs_storage s"]
  obtain l where "GetFiles pk svc (ps_Name pkg) (ps_Version pkg) (rq_Query rq ''after'') limit (gs_storage s) = Some l" "int (length (Files l)) \<le> limit"
    "\<forall>f \<in> set (Files l). prefix (listing_prefix (ps_Name pkg) (ls_Version l)) (fl_Name f) \<and>
       (\<exists>ob. store (gs_storage s) (fl_Name f) = Some ob \<and> fl_Size f = int (length (so_Body ob)))" by blast
  then show ?thesis
    unfolding getHTMLPackage_def Let_def limit_def [symmetric]
    using assms(2) by (auto simp: listing_ok_def listed_def head_html_def limit_def)
qed

lemma getPackageVersions_listed: "listed (rs_Body (getPackageVersions hp pk svc rq name s)) = None"
  by (simp add: getPackageVersions_def Let_def head_html_def)

lemma getPackage_returns:
  assumes "reliable_storage (objectStorageManager svc) store"
  shows "\<exists>r. fst (getPackage hp pk svc rq s) = Some r \<and> listing_ok (store (gs_storage s)) rq r"
proof (cases "getSlice (rq_Param rq ''package'')")
  case (Inl err)
  then show ?thesis by (simp add: getPackage_def Let_def listing_ok_other getPackageVersions_listed gimme_error_body)
next
  case (Inr slice)
  show ?thesis
  proof (cases "rq_Param rq ''file'' = ''/''")
    case True
    with Inr show ?thesis
      by (simp add: getPackage_def Let_def getHTMLPackage_returns [OF assms] listing_ok_other getPackageVersions_listed)
  next
    case False
    have "listed (rs_Body (serve_object hp pk rq f v object infos e)) = None" for f v object infos e
      by (simp add: serve_object_def Let_def)
    then show ?thesis by (simp add: getPackage_file [OF Inr False] Let_def listing_ok_other gimme_error_body split: sum.split prod.split)
  qed
qed

text \<open>C20: over a reliable object storage, whose calls do not fail, every listing request is answered,
  whatever the cursor: the loop over the pages ends. A listing, as HTML or as JSON, holds at most as
  many files as the limit of the request, which is between 1 and 500, and every file it shows is a
  stored file of the listed version, with its size.\<close>

theorem listing_returns:
  assumes "reliable_storage (objectStorageManager (ga_svc app)) store" and "route \<in> {GetFolder rq, GetPackageFile rq}"
  shows "1 \<le> listingLimit (rq_Query rq ''limit'') \<and> listingLimit (rq_Query rq ''limit'') \<le> 500 \<and>
    (\<exists>r. fst (handle app now route s t) = Some r \<and>
       (\<forall>v files. listed (rs_Body r) = Some (v, files) \<longrightarrow>
          (\<exists>pkg. getSlice (rq_Param rq ''package'') = Inr pkg \<and> int (length files) \<le> listingLimit (rq_Query rq ''limit'') \<and>
            (\<forall>f \<in> set files. prefix (listing_prefix (ps_Name pkg) v) (fl_Name f) \<and>
               (\<exists>ob. store (gs_storage s) (fl_Name f) = Some ob \<and> fl_Size f = int (length (so_Body ob)))))))"
proof -
  have "\<exists>r. getPackageFolder (ga_hp app) (ga_pk app) (ga_svc app) rq s = Some r \<and> listing_ok (store (gs_storage s)) rq r"
    by (simp add: getPackageFolder_def getHTMLPackage_returns [OF assms(1)] listing_ok_other getPackageVersions_listed gimme_error_body split: sum.split)
  then have "\<exists>r. fst (handle app now route s t) = Some r \<and> listing_ok (store (gs_storage s)) rq r"
    using assms(2) getPackage_returns [OF assms(1), of "ga_hp app" "ga_pk app" rq s] by (auto split: prod.split)
  then show ?thesis using listingLimit_range [of "rq_Query rq ''limit''"] unfolding listing_ok_def maxListingLimit_def by blast
qed

definition ref_list_request :: request where
  "ref_list_request = ref_get\<lparr>rq_Param := (\<lambda>k. if k = ''package'' then ''p@1.0.0'' else ''/'')\<rparr>"

theorem listing_returns_witness:
  "\<exists>r v files. fst (handle ref_app 7000 (GetFolder ref_list_request) (ref_state ref_world2 []) ref_pg) = Some r \<and>
     listed (rs_Body r) = Some (v, files) \<and> files \<noteq> [] \<and>
     (\<forall>f \<in> set files. \<exists>ob. mem_objs ''gimme'' ref_world2 (fl_Name f) = Some ob \<and> fl_Size f = int (length (so_Body ob)))"
proof -
  let ?h = "fst (handle ref_app 7000 (GetFolder ref_list_request) (ref_state ref_world2 []) ref_pg)"
  have "case ?h of None \<Rightarrow> False | Some r \<Rightarrow> (case listed (rs_Body r) of None \<Rightarrow> False | Some (v, files) \<Rightarrow> 0 < length files)" by code_simp
  then obtain r v files where r: "?h = Some r" "listed (rs_Body r) = Some (v, files)" "files \<noteq> []"
    by (auto split: option.splits)
  have storage: "reliable_storage (objectStorageManager (ga_svc ref_app)) (mem_objs ''gimme'')"
    unfolding ref_app_sel by (rule ref_storage.reliable_storage_axioms)
  from listing_returns [OF storage, of "GetFolder ref_list_request" ref_list_request 7000 "ref_state ref_world2 []" ref_pg] r
  show ?thesis by (auto simp: ref_state_sel)
qed

end
