(* ===== verification/Gimme_AppSpec.thy ===== *)
theory Gimme_AppSpec
  imports Gimme_App Gimme_OIDCSpec Gimme_ConfigSpec Gimme_ApiSpec Gimme_FileSpec
begin

text \<open>
  The server that a configuration starts: every component that needs a connection has it, the
  limits of uploads are in force, and with the OIDC provider the tokens can only be changed with a
  session that the provider issued.
\<close>

subsection \<open>Starting\<close>

lemma map_sum_id [simp]: "map_sum id f r = Inl e \<longleftrightarrow> r = Inl e" "map_sum id f r = Inr y \<longleftrightarrow> (\<exists>x. r = Inr x \<and> y = f x)"
  by (cases r; auto)+

lemma GetClient_Inr: "GetClient rc = Inr addr \<longleftrightarrow> rc = Some \<lparr>rcl_client = Some addr\<rparr>"
proof (cases rc)
  case (Some c)
  then show ?thesis by (cases c) (auto simp: GetClient_def split: option.split)
qed (simp add: GetClient_def)

lemma GetClient_Inl: "GetClient rc = Inl e \<Longrightarrow> e = NilRedisClient \<and> (\<forall>addr. rc \<noteq> Some \<lparr>rcl_client = Some addr\<rparr>)"
  by (auto simp: GetClient_def split: option.splits)

lemma shared_redis_Inr:
  "shared_redis ho config = Inr rc \<Longrightarrow> (RedisURL config = '''' \<longrightarrow> rc = None) \<and> (RedisURL config \<noteq> '''' \<longrightarrow> (\<exists>addr. rc = Some \<lparr>rcl_client = Some addr\<rparr>))"
  by (auto simp: shared_redis_def NewRedisClient_def split: sum.splits option.splits if_split_asm)

lemma shared_redis_Inl: "shared_redis ho config = Inl e \<Longrightarrow> e \<noteq> NilRedisClient"
  by (auto simp: shared_redis_def NewRedisClient_def split: sum.splits option.splits if_split_asm)

lemma configureAuthProvider_cases:
  "configureAuthProvider ho config = Inl e \<Longrightarrow> e \<noteq> NilRedisClient"
  "configureAuthProvider ho config = Inr provider \<Longrightarrow> auth_Mode (Auth config) = ''oidc'' \<Longrightarrow>
     \<exists>p. provider = OIDC p \<and> op_signingSecret p = deriveSecret ho (Secret config) ''oidc-session''"
  by (auto simp: configureAuthProvider_def NewOIDCProvider_def Let_def split: if_split_asm sum.splits)

lemma configureTokenStore_cases:
  assumes "configureTokenStore ho config rc b = (r, b')"
  shows "r = Inl NilRedisClient \<Longrightarrow> tsc_Mode (TokenStore config) = ''redis'' \<and> (\<forall>addr. rc \<noteq> Some \<lparr>rcl_client = Some addr\<rparr>)"
    and "r = Inr (RedisTS addr, pg) \<Longrightarrow> rc = Some \<lparr>rcl_client = Some addr\<rparr>"
    and "r = Inr (PGTS st, pg) \<Longrightarrow> pg = Some \<lparr>pgc_pool = Some (tsc_PostgresURL (TokenStore config))\<rparr> \<and>
      pg_pool_of st = ho_pg_pool ho (tsc_PostgresURL (TokenStore config))"
  using assms GetClient_Inl GetClient_Inr
  by (auto simp: configureTokenStore_def NewPGClient_def NewPGTokenStore_def split: if_split_asm sum.splits prod.splits option.splits)

lemma loadModules_Inr:
  assumes "loadModules ho config b = (Inr app, b')"
  obtains rc b1 store pg provider osm cache where "shared_redis ho config = Inr rc" and "configureTokenStore ho config rc b = (Inr (store, pg), b1)"
    and "configureAuthProvider ho config = Inr provider"
    and "(if cc_Enabled (Cache config) then map_sum id Some (GetClient rc) else Inr None) = Inr cache"
    and "app = \<lparr>app_config = config, app_tokenStore = store, app_authProvider = provider,
      app_contentService = NewContentService (storage_iface (pk_mime (ho_packages ho)) osm)
        (map_option (\<lambda>addr. NewRedisCache (ho_redis_client ho addr) (ho_codec ho) (ho_scan ho)) cache)
        (wrap64 (cc_TTL (Cache config) * 1000000000)) (configured_limits config) [WithCompression (CompressionEnabled config)],
      app_storageManager = osm, app_cache = cache, app_redisClient = rc, app_pgClient = pg\<rparr>"
  using assms unfolding loadModules_def by (auto split: sum.splits prod.splits option.splits)

lemma loadModules_no_nil:
  assumes "valid_config config"
  shows "fst (loadModules ho config b) \<noteq> Inl NilRedisClient"
proof (cases "shared_redis ho config")
  case (Inl e)
  then show ?thesis using shared_redis_Inl [OF Inl] by (simp add: loadModules_def)
next
  case (Inr rc)
  note shared = shared_redis_Inr [OF Inr]
  have needs: "\<exists>addr. rc = Some \<lparr>rcl_client = Some addr\<rparr>" if "tsc_Mode (TokenStore config) = ''redis'' \<or> cc_Enabled (Cache config)"
  proof -
    have "RedisURL config \<noteq> ''''" using that assms by (auto simp: valid_config_def)
    then show ?thesis using shared by blast
  qed
  obtain r b1 where t: "configureTokenStore ho config rc b = (r, b1)" by fastforce
  have r: "r \<noteq> Inl NilRedisClient" using configureTokenStore_cases(1) [OF t] needs by blast
  have "\<exists>cache. (if cc_Enabled (Cache config) then map_sum id Some (GetClient rc) else Inr None) = Inr cache"
    using needs GetClient_Inr by auto
  then obtain cache where c: "(if cc_Enabled (Cache config) then map_sum id Some (GetClient rc) else Inr None) = Inr cache" by blast
  show ?thesis
    using r configureAuthProvider_cases(1) [of ho config]
    unfolding loadModules_def Inr sum.case t c by (auto split: sum.split prod.split option.split)
qed

lemma start_Inr:
  assumes "start vp ho b = (Inr app, b')"
  shows "NewConfig vp = Inr (app_config app)" and "loadModules ho (app_config app) b = (Inr app, b')"
proof -
  from assms obtain config where c: "NewConfig vp = Inr config" "loadModules ho config b = (Inr app, b')"
    by (auto simp: start_def split: sum.splits)
  moreover have "app_config app = config" using loadModules_Inr [OF c(2)] by (metis Application.select_convs(1))
  ultimately show "NewConfig vp = Inr (app_config app)" and "loadModules ho (app_config app) b = (Inr app, b')" by simp_all
qed

text \<open>C10: no configuration that is accepted starts a component without its connection: there is no nil
  Redis client to trip over, the token store and the cache that use Redis hold the shared client,
  the PostgreSQL store its pool. The limits of the running service are the configured ones, each in
  its place and all of them positive: the archive size of \<open>upload.max_size\<close>, the entries of
  \<open>upload.max_entries\<close>, the contents of \<open>upload.max_uncompressed_size\<close>; and it keeps compressed
  variants exactly when the configuration says so.\<close>

theorem start_wired:
  "case fst (start vp ho b) of
     Inl e \<Rightarrow> e \<noteq> NilRedisClient
   | Inr app \<Rightarrow>
       (\<forall>addr. app_tokenStore app = RedisTS addr \<or> app_cache app = Some addr \<longrightarrow> app_redisClient app = Some \<lparr>rcl_client = Some addr\<rparr>) \<and>
       (\<forall>st. app_tokenStore app = PGTS st \<longrightarrow> app_pgClient app = Some \<lparr>pgc_pool = Some (tsc_PostgresURL (TokenStore (app_config app)))\<rparr>) \<and>
       (cacheManager (app_contentService app) = None \<longleftrightarrow> \<not> cc_Enabled (Cache (app_config app))) \<and>
       (compressionEnabled (app_contentService app) \<longleftrightarrow> CompressionEnabled (app_config app)) \<and>
       (let limits = uploadLimits (app_contentService app); configured = Upload (app_config app) in
          MaxSize limits = sz_Bytes (uc_MaxSize configured) \<and> MaxEntries limits = uc_MaxEntries configured \<and>
          MaxUncompressedSize limits = sz_Bytes (uc_MaxUncompressedSize configured) \<and>
          0 < MaxSize limits \<and> 0 < MaxEntries limits \<and> 0 < MaxUncompressedSize limits)"
proof (cases "fst (start vp ho b)")
  case (Inl e)
  have "e \<noteq> NilRedisClient"
  proof (cases "NewConfig vp")
    case (Inr config)
    then have "valid_config config" using accepted by blast
    from loadModules_no_nil [OF this, of ho b] show ?thesis using Inl Inr by (auto simp: start_def)
  qed (use Inl in \<open>auto simp: start_def\<close>)
  then show ?thesis using Inl by simp
next
  case (Inr app)
  then have s: "start vp ho b = (Inr app, snd (start vp ho b))" by (rule fst_eq_pair)
  have valid: "valid_config (app_config app)" using start_Inr(1) [OF s] accepted by blast
  obtain rc b1 store pg provider osm cache where m: "shared_redis ho (app_config app) = Inr rc"
    "configureTokenStore ho (app_config app) rc b = (Inr (store, pg), b1)" "configureAuthProvider ho (app_config app) = Inr provider"
    "(if cc_Enabled (Cache (app_config app)) then map_sum id Some (GetClient rc) else Inr None) = Inr cache"
    "app = \<lparr>app_config = app_config app, app_tokenStore = store, app_authProvider = provider,
      app_contentService = NewContentService (storage_iface (pk_mime (ho_packages ho)) osm)
        (map_option (\<lambda>addr. NewRedisCache (ho_redis_client ho addr) (ho_codec ho) (ho_scan ho)) cache)
        (wrap64 (cc_TTL (Cache (app_config app)) * 1000000000)) (configured_limits (app_config app)) [WithCompression (CompressionEnabled (app_config app))],
      app_storageManager = osm, app_cache = cache, app_redisClient = rc, app_pgClient = pg\<rparr>"
    using loadModules_Inr [OF start_Inr(2) [OF s]] .
  have sel: "app_tokenStore app = store" "app_cache app = cache" "app_redisClient app = rc" "app_pgClient app = pg"
    "cacheManager (app_contentService app) = map_option (\<lambda>addr. NewRedisCache (ho_redis_client ho addr) (ho_codec ho) (ho_scan ho)) cache"
    "uploadLimits (app_contentService app) = configured_limits (app_config app)"
    "compressionEnabled (app_contentService app) \<longleftrightarrow> CompressionEnabled (app_config app)"
    by (subst m(5); simp add: NewContentService_def WithCompression_def)+
  have cache: "rc = Some \<lparr>rcl_client = Some addr\<rparr>" if "cache = Some addr" for addr
    using m(4) that by (auto simp: map_sum_def GetClient_Inr split: if_split_asm sum.splits)
  have enabled: "cache = None \<longleftrightarrow> \<not> cc_Enabled (Cache (app_config app))"
    using m(4) by (auto split: if_split_asm)
  have same: "MaxSize (configured_limits c) = sz_Bytes (uc_MaxSize (Upload c))" "MaxEntries (configured_limits c) = uc_MaxEntries (Upload c)"
    "MaxUncompressedSize (configured_limits c) = sz_Bytes (uc_MaxUncompressedSize (Upload c))" for c
    by (simp_all add: configured_limits_def)
  have limits: "0 < MaxSize (configured_limits (app_config app))" "0 < MaxEntries (configured_limits (app_config app))"
    "0 < MaxUncompressedSize (configured_limits (app_config app))"
    using valid by (simp_all add: valid_config_def size_ok_def configured_limits_def)
  show ?thesis
    unfolding Inr sum.case sel Let_def
    using configureTokenStore_cases(2,3) [OF m(2)] cache enabled limits same by auto
qed

subsection \<open>A started server\<close>

text \<open>Redis for the tokens and the cache, OIDC for the administration.\<close>

definition ref_server_env :: "string \<Rightarrow> string" where
  "ref_server_env var =
     (case map_of [(''GIMME_REDIS_URL'', ''redis://r:6379''), (''GIMME_TOKENSTORE_MODE'', ''redis''), (''GIMME_CACHE_ENABLED'', ''true''),
        (''GIMME_AUTH_MODE'', ''oidc''), (''GIMME_AUTH_OIDC_ISSUER'', ''https://idp''), (''GIMME_AUTH_OIDC_CLIENT_ID'', ''gimme''),
        (''GIMME_AUTH_OIDC_REDIRECT_URL'', ''/auth/callback'')] var of
        Some v \<Rightarrow> v | None \<Rightarrow> ref_env var)"

definition ref_host :: "(zip_file list, mem_world, mem_redis_world, mem_pg) host" where
  "ref_host =
     \<lparr>ho_packages = ref_packages, ho_http = ref_http, ho_RedisParseURL = (\<lambda>url. Inr (drop 8 url)), ho_RedisPing = (\<lambda>_. None),
      ho_redis_client = (\<lambda>_. mem_redis), ho_codec = mem_codec, ho_scan = 3, ho_PGNew = (\<lambda>_. None), ho_PGPing = (\<lambda>_. None),
      ho_pg_pool = (\<lambda>_. mem_pg_pool), ho_file_env = ref_file_env, ho_idp = ref_idp, ho_jwt = ref_jwt, ho_BasicAuth = (\<lambda>_ _. None),
      ho_hmac_sha256 = (\<lambda>k m. take 1 k), ho_minio_New = (\<lambda>_ _ _ _. Inr mem_s3), ho_sha256 = (\<lambda>s. s)\<rparr>"

definition ref_boot :: "(mem_world, mem_pg) boot" where
  "ref_boot = \<lparr>bt_s3 = [], bt_pg = ref_pg, bt_disk = Map.empty, bt_faults = []\<rparr>"

definition ref_server :: "(mem_world, mem_redis_world, mem_pg) Application" where
  "ref_server = projr (fst (start (env_viper ref_server_env) ref_host ref_boot))"

lemma ref_server_start: "fst (start (env_viper ref_server_env) ref_host ref_boot) = Inr ref_server"
proof -
  have "case fst (start (env_viper ref_server_env) ref_host ref_boot) of Inl _ \<Rightarrow> False | Inr _ \<Rightarrow> True" by code_simp
  then show ?thesis by (auto simp: ref_server_def split: sum.splits)
qed

theorem start_wired_witness: "app_redisClient ref_server = Some \<lparr>rcl_client = Some ''r:6379''\<rparr>"
proof -
  have "app_cache ref_server = Some ''r:6379''" by code_simp
  with start_wired [of "env_viper ref_server_env" ref_host ref_boot] show ?thesis unfolding ref_server_start sum.case by blast
qed

subsection \<open>Administration with OIDC\<close>

lemma start_oidc:
  assumes "start vp ho b = (Inr app, b')" and "auth_Mode (Auth (app_config app)) = ''oidc''"
  obtains p where "app_authProvider app = OIDC p" and "op_signingSecret p = deriveSecret ho (Secret (app_config app)) ''oidc-session''"
proof -
  obtain rc b1 store pg provider osm cache where "configureAuthProvider ho (app_config app) = Inr provider"
    and "app = \<lparr>app_config = app_config app, app_tokenStore = store, app_authProvider = provider,
      app_contentService = NewContentService (storage_iface (pk_mime (ho_packages ho)) osm)
        (map_option (\<lambda>addr. NewRedisCache (ho_redis_client ho addr) (ho_codec ho) (ho_scan ho)) cache)
        (wrap64 (cc_TTL (Cache (app_config app)) * 1000000000)) (configured_limits (app_config app)) [WithCompression (CompressionEnabled (app_config app))],
      app_storageManager = osm, app_cache = cache, app_redisClient = rc, app_pgClient = pg\<rparr>"
    using loadModules_Inr [OF start_Inr(2) [OF assms(1)]] .
  then show thesis using configureAuthProvider_cases(2) [OF _ assms(2)] that by (metis Application.select_convs(3))
qed

text \<open>C9: on a server that was started with the OIDC provider, a request after which the token store
  holds something new is one of the token routes and carries a session cookie. Unless this cookie is
  a forgery (a token signed with the derived secret that no callback issued), a callback issued it
  less than eight hours before, to the very user the request now acts as: the identity provider had
  authenticated this user, in a login whose state and nonce were those of the browser's cookies. The
  callbacks on record are all those that set a session cookie, whatever their requests were.\<close>

theorem token_change_requires_session:
  assumes "start vp ho b = (Inr app, b')" and "auth_Mode (Auth (app_config app)) = ''oidc''" and "jwt_doc (ho_jwt ho)"
    and "token_store store sweep stamp fresh tinv view" and "tinv t"
    and "handle (web_app ho app store) now route s t = (r, s', t')" and "\<not> view t' \<subseteq>\<^sub>m view t"
  shows "\<exists>p rq cookie who. app_authProvider app = OIDC p \<and> op_signingSecret p = deriveSecret ho (Secret (app_config app)) ''oidc-session'' \<and>
    (\<exists>env json. route = PostToken rq env json \<or> route = DeleteTokenRoute rq) \<and> rq_Cookie rq sessionCookieName = Some cookie \<and>
    LoginMiddleware (ho_jwt ho) p now rq = Inr who \<and>
    (\<forall>hist. oidc_log (ho_idp ho) (ho_jwt ho) p hist \<longrightarrow>
       (\<forall>alg c. jwt_SignedString (ho_jwt ho) alg c (op_signingSecret p) = Inr cookie \<longrightarrow> cookie \<in> ss_cookie ` set hist) \<longrightarrow>
       (\<exists>ses \<in> set hist. ss_cookie ses = cookie \<and> callback_ok (ho_idp ho) p (ss_request ses) who \<and>
          truncate_second (ss_at ses) \<le> now \<and> now < ss_at ses + sessionCookieTTL))"
proof -
  obtain p where p: "app_authProvider app = OIDC p" "op_signingSecret p = deriveSecret ho (Secret (app_config app)) ''oidc-session''"
    using start_oidc [OF assms(1,2)] .
  have store: "token_store (ga_store (web_app ho app store)) sweep stamp fresh tinv view" using assms(4) by (simp add: web_app_def)
  from token_change_login [OF store assms(5-7)] obtain rq where rq:
    "\<exists>env json. route = PostToken rq env json \<or> route = DeleteTokenRoute rq" "ga_login (web_app ho app store) now rq = None" by blast
  from rq(2) obtain who where who: "LoginMiddleware (ho_jwt ho) p now rq = Inr who"
    by (auto simp: web_app_def provider_login_def p(1) split: sum.splits)
  then obtain cookie where cookie: "rq_Cookie rq sessionCookieName = Some cookie"
    by (cases "rq_Cookie rq sessionCookieName") (auto simp: LoginMiddleware_def)
  have "\<exists>ses \<in> set hist. ss_cookie ses = cookie \<and> callback_ok (ho_idp ho) p (ss_request ses) who \<and>
      truncate_second (ss_at ses) \<le> now \<and> now < ss_at ses + sessionCookieTTL"
    if "oidc_log (ho_idp ho) (ho_jwt ho) p hist"
      "\<forall>alg c. jwt_SignedString (ho_jwt ho) alg c (op_signingSecret p) = Inr cookie \<longrightarrow> cookie \<in> ss_cookie ` set hist" for hist
    using session_sound [OF assms(3) that(1) who cookie that(2)] by blast
  with p rq(1) cookie who show ?thesis by blast
qed

text \<open>A login and a new token on the reference server.\<close>

definition ref_oidc :: OIDCProvider where
  "ref_oidc = (case app_authProvider ref_server of OIDC p \<Rightarrow> p | _ \<Rightarrow> ref_provider)"

definition ref_login_cookie :: string where
  "ref_login_cookie = the (issued (snd (handleCallback ref_idp ref_jwt ref_oidc 5000000000 ref_callback)))"

definition ref_history :: "session list" where
  "ref_history = [\<lparr>ss_cookie = ref_login_cookie, ss_at = 5000000000, ss_request = ref_callback\<rparr>]"

definition ref_new_token :: "zip_file list route" where
  "ref_new_token = PostToken (ref_admin ref_login_cookie)
     \<lparr>ae_now = 5000, ae_rand = (\<lambda>n. Inr (replicate n CHR ''k'')), ae_uuid = ''0b'', ae_sha256 = (\<lambda>s. take 8 s)\<rparr>
     (Some \<lparr>ctr_Name = ''ci'', ctr_ExpirationDate = ''''\<rparr>)"

lemma ref_oidc_ok: "callback_ok ref_idp ref_oidc ref_callback ref_user"
proof -
  have "stateCookieName \<noteq> nonceCookieName" by code_simp
  then show ?thesis by (simp add: callback_ok_def ref_idp_def ref_callback_def ref_user_def)
qed

lemma ref_history_log: "oidc_log ref_idp ref_jwt ref_oidc ref_history"
proof -
  have "issued (snd (handleCallback ref_idp ref_jwt ref_oidc 5000000000 ref_callback)) \<noteq> None" by code_simp
  then have "issued (snd (handleCallback ref_idp ref_jwt ref_oidc 5000000000 ref_callback)) = Some ref_login_cookie"
    by (simp add: ref_login_cookie_def)
  from oidc_log.callback [OF oidc_log.none this] show ?thesis by (simp only: ref_history_def)
qed

lemma ref_new_token_stored:
  "\<not> pg_view (set (fst (snd (snd (handle (web_app ref_host ref_server (pg_iface mem_pg_pool)) 6000000000 ref_new_token (ref_state [] []) ref_pg)))))
     \<subseteq>\<^sub>m pg_view (set (fst ref_pg))"
proof -
  let ?t = "snd (snd (handle (web_app ref_host ref_server (pg_iface mem_pg_pool)) 6000000000 ref_new_token (ref_state [] []) ref_pg))"
  have "list_ex (\<lambda>x. col_token_hash x = ''67696d5f36623662'') (fst ?t)" "''67696d5f36623662'' \<notin> set (map col_token_hash (fst ref_pg))" by code_simp+
  then show ?thesis unfolding list_ex_iff set_map by (intro new_row_new_view [of "''67696d5f36623662''"]) (metis image_eqI)
qed

theorem token_change_requires_session_witness:
  "\<exists>ses \<in> set ref_history. ss_cookie ses = ref_login_cookie \<and> callback_ok ref_idp ref_oidc (ss_request ses) ref_user \<and>
     truncate_second (ss_at ses) \<le> 6000000000 \<and> 6000000000 < ss_at ses + sessionCookieTTL"
proof -
  let ?h = "handle (web_app ref_host ref_server (pg_iface mem_pg_pool)) 6000000000 ref_new_token (ref_state [] []) ref_pg"
  have eq: "?h = (fst ?h, fst (snd ?h), snd (snd ?h))" by simp
  have mode: "auth_Mode (Auth (app_config ref_server)) = ''oidc''" by code_simp
  have host: "ho_jwt ref_host = ref_jwt" "ho_idp ref_host = ref_idp" by (simp_all add: ref_host_def)
  have jwt: "jwt_doc (ho_jwt ref_host)" unfolding host by (rule ref_jwt.jwt_doc_axioms)
  from token_change_requires_session [OF fst_eq_pair [OF ref_server_start] mode jwt pg_tokens.meets_token_store [OF mem_pg.pg_tokens_axioms] ref_pg_unique eq ref_new_token_stored]
  obtain p rq cookie who where p: "app_authProvider ref_server = OIDC p"
    and route: "\<exists>env json. ref_new_token = PostToken rq env json \<or> ref_new_token = DeleteTokenRoute rq"
    and cookie: "rq_Cookie rq sessionCookieName = Some cookie"
    and ses: "\<And>hist. oidc_log ref_idp ref_jwt p hist \<Longrightarrow>
       \<forall>alg c. jwt_SignedString ref_jwt alg c (op_signingSecret p) = Inr cookie \<longrightarrow> cookie \<in> ss_cookie ` set hist \<Longrightarrow>
       \<exists>ses \<in> set hist. ss_cookie ses = cookie \<and> callback_ok ref_idp p (ss_request ses) who \<and>
          truncate_second (ss_at ses) \<le> 6000000000 \<and> 6000000000 < ss_at ses + sessionCookieTTL"
    unfolding host by blast
  have "p = ref_oidc" using p by (simp add: ref_oidc_def)
  moreover have "cookie = ref_login_cookie" using route cookie by (auto simp: ref_new_token_def ref_admin_def)
  moreover have "\<forall>alg c. jwt_SignedString ref_jwt alg c (op_signingSecret p) = Inr ref_login_cookie \<longrightarrow> ref_login_cookie \<in> ss_cookie ` set ref_history"
    by (simp add: ref_history_def)
  ultimately obtain ses where s: "ses \<in> set ref_history" "ss_cookie ses = ref_login_cookie" "callback_ok ref_idp ref_oidc (ss_request ses) who"
    "truncate_second (ss_at ses) \<le> 6000000000" "6000000000 < ss_at ses + sessionCookieTTL"
    using ses ref_history_log by blast
  moreover have "who = ref_user"
    using s(1,3) ref_oidc_ok callback_ok_unique by (auto simp: ref_history_def)
  ultimately show ?thesis by blast
qed

end
