(* ===== verification/Gimme_Publish.thy ===== *)
theory Gimme_Publish
  imports Gimme_Http
begin

text \<open>
  The command line client (cmd/gimme-cli and internal/publish): the arguments, the version that is
  published, the archive of a directory, the upload and the exit status. The file system, git, the
  environment, the JSON decoder and the HTTP transport are arguments; the temporary files are the
  state. The pipe between the writer of the form and the request is the form it carries, or the
  error it ends with.
\<close>

datatype publish_error =
    CannotPublish string go_error
  | NotADirectory string
  | OpenRootFailed string go_error
  | CreateTempArchiveFailed go_error
  | ReadFailedFor string go_error
  | InspectFailed string go_error
  | SymlinkToDirectory string
  | UnsupportedFileType string
  | ArchiveFailed string go_error
  | CloseFileFailed string go_error
  | NoFilesToPublish string
  | CloseArchiveFailed go_error
  | CloseArchiveFileFailed go_error
  | NoVersion
  | OpenArchiveFailed go_error
  | WritePartFailed go_error
  | CreateRequestFailed go_error
  | UploadPackageFailed go_error
  | ReadResponseFailed go_error
  | AuthenticationFailed
  | VersionConflict string
  | UploadTooLarge
  | ServerStatus string
  | ServerStatusMessage string string
  | FlagRequiresValue string
  | BadFlagSyntax string
  | FlagNotDefined string
  | FlagHelp
  | FlagNeedsArgument string
  | ExactlyOneDirectory
  | WorkingDirFailed go_error
  | MissingOption string
  | UnknownSubcommand string

subsection \<open>The version\<close>

record VersionSources =
  vs_WorkingDir :: string
  vs_LookupEnv :: "(string \<Rightarrow> string) option"
  vs_RunGit :: "(go_error + string) option"

definition stripV :: "string \<Rightarrow> string" where
  "stripV v = TrimPrefix v ''v''"

definition package_json_version :: "(string \<Rightarrow> go_error + string) \<Rightarrow> (string \<Rightarrow> go_error + string) \<Rightarrow> string \<Rightarrow> string option" where
  "package_json_version ReadFile json_version dir =
     (case ReadFile (path_Clean (dir @ ''/package.json'')) of
        Inl _ \<Rightarrow> None
      | Inr data \<Rightarrow> (case json_version data of Inl _ \<Rightarrow> None | Inr v \<Rightarrow> if v \<noteq> '''' then Some v else None))"

definition ResolveVersion ::
  "(string \<Rightarrow> go_error + string) \<Rightarrow> (string \<Rightarrow> go_error + string) \<Rightarrow> string \<Rightarrow> VersionSources \<Rightarrow> publish_error + (string \<times> string)" where
  "ResolveVersion ReadFile json_version explicit sources =
     (if explicit \<noteq> '''' then Inr (stripV explicit, ''--version'')
      else (case package_json_version ReadFile json_version (vs_WorkingDir sources) of
         Some v \<Rightarrow> Inr (stripV v, ''package.json'')
       | None \<Rightarrow>
           (let tag = (case vs_LookupEnv sources of None \<Rightarrow> ''''
                  | Some LookupEnv \<Rightarrow> if LookupEnv ''GITHUB_REF_TYPE'' = ''tag'' then LookupEnv ''GITHUB_REF_NAME'' else '''');
                git = (case vs_RunGit sources of Some (Inr v) \<Rightarrow> TrimSpace v | _ \<Rightarrow> '''')
            in if tag \<noteq> '''' then Inr (stripV tag, ''GitHub Actions tag'')
               else if git \<noteq> '''' then Inr (stripV git, ''git tag'')
               else Inl NoVersion)))"

subsection \<open>The archive\<close>

text \<open>An entry that \<open>fs.WalkDir\<close> visits, with what opening, inspecting and copying it gives: a copy
  that fails has written some first bytes.\<close>

datatype file_mode = DirMode | RegularMode | OtherMode

record opened_file =
  op_Stat :: "go_error + file_mode"
  op_HeaderErr :: "go_error option"
  op_Data :: string
  op_CopyErr :: "(nat \<times> go_error) option"
  op_CloseErr :: "go_error option"

record walk_entry =
  we_Name :: string
  we_Err :: "go_error option"
  we_IsDir :: bool
  we_Open :: "go_error + opened_file"

text \<open>The function that is called for each entry: its error, and the entry it wrote to the zip, if any.\<close>

definition walk_file :: "walk_entry \<Rightarrow> publish_error option \<times> (string \<times> string) list" where
  "walk_file e =
     (case we_Err e of
        Some err \<Rightarrow> (Some (ReadFailedFor (we_Name e) err), [])
      | None \<Rightarrow>
          if we_Name e = ''.'' \<or> we_IsDir e then (None, [])
          else (case we_Open e of
             Inl err \<Rightarrow> (Some (ReadFailedFor (we_Name e) err), [])
           | Inr f \<Rightarrow>
               (case op_Stat f of
                  Inl err \<Rightarrow> (Some (InspectFailed (we_Name e) err), [])
                | Inr DirMode \<Rightarrow> (Some (SymlinkToDirectory (we_Name e)), [])
                | Inr OtherMode \<Rightarrow> (Some (UnsupportedFileType (we_Name e)), [])
                | Inr RegularMode \<Rightarrow>
                    (case op_HeaderErr f of
                       Some err \<Rightarrow> (Some (ArchiveFailed (we_Name e) err), [])
                     | None \<Rightarrow>
                         (case op_CopyErr f of
                            Some (n, err) \<Rightarrow> (Some (ArchiveFailed (we_Name e) err), [(we_Name e, take n (op_Data f))])
                          | None \<Rightarrow>
                              (map_option (CloseFileFailed (we_Name e)) (op_CloseErr f), [(we_Name e, op_Data f)]))))))"

text \<open>The walk ends at the first error; what was written so far is in the zip.\<close>

fun walk_files :: "walk_entry list \<Rightarrow> (string \<times> string) list \<Rightarrow> publish_error option \<times> (string \<times> string) list" where
  "walk_files [] written = (None, written)"
| "walk_files (e # es) written =
     (case walk_file e of
        (Some err, z) \<Rightarrow> (Some err, written @ z)
      | (None, z) \<Rightarrow> walk_files es (written @ z))"

text \<open>The temporary directory: the archives in it, by path, each with the entries written to it.\<close>

type_synonym temps = "string \<rightharpoonup> (string \<times> string) list"

record archive_fs =
  af_Stat :: "string \<Rightarrow> go_error + bool"
  af_OpenRoot :: "string \<Rightarrow> go_error option"
  af_CreateTemp :: "go_error + string"
  af_Walk :: "string \<Rightarrow> walk_entry list"
  af_ZipClose :: "go_error option"
  af_TempClose :: "go_error option"
  af_RemoveErr :: "string \<Rightarrow> go_error option"

text \<open>\<open>os.Remove\<close>, whose error both callers ignore: when it fails the file stays.\<close>

definition os_Remove :: "archive_fs \<Rightarrow> string \<Rightarrow> temps \<Rightarrow> temps" where
  "os_Remove af path tmps = (case af_RemoveErr af path of None \<Rightarrow> tmps(path := None) | Some _ \<Rightarrow> tmps)"

text \<open>The error after the walk: an empty archive counts, a failure to close only when there is none
  yet. The number of files counted is the number of entries, as the walk did not fail.\<close>

definition archive_error :: "archive_fs \<Rightarrow> string \<Rightarrow> publish_error option \<Rightarrow> nat \<Rightarrow> publish_error option" where
  "archive_error af dir walkErr files_counted =
     (case walkErr of
        Some e \<Rightarrow> Some e
      | None \<Rightarrow>
          if files_counted = 0 then Some (NoFilesToPublish dir)
          else (case af_ZipClose af of
             Some e \<Rightarrow> Some (CloseArchiveFailed e)
           | None \<Rightarrow> map_option CloseArchiveFileFailed (af_TempClose af)))"

definition Archive :: "archive_fs \<Rightarrow> string \<Rightarrow> temps \<Rightarrow> (publish_error + string) \<times> temps" where
  "Archive af dir tmps =
     (case af_Stat af dir of
        Inl err \<Rightarrow> (Inl (CannotPublish dir err), tmps)
      | Inr isDir \<Rightarrow>
          if \<not> isDir then (Inl (NotADirectory dir), tmps)
          else (case af_OpenRoot af dir of
             Some err \<Rightarrow> (Inl (OpenRootFailed dir err), tmps)
           | None \<Rightarrow>
               (case af_CreateTemp af of
                  Inl err \<Rightarrow> (Inl (CreateTempArchiveFailed err), tmps)
                | Inr path \<Rightarrow>
                    (let created = tmps(path \<mapsto> []);
                         (walkErr, zs) = walk_files (af_Walk af dir) [];
                         written = created(path \<mapsto> zs)
                     in (case archive_error af dir walkErr (length zs) of
                           Some e \<Rightarrow> (Inl e, os_Remove af path written)
                         | None \<Rightarrow> (Inr path, written))))))"

subsection \<open>The upload\<close>

record push_options =
  po_URL :: string
  po_Token :: string
  po_Name :: string
  po_Version :: string
  po_ArchivePath :: string

text \<open>A part of the form: its headers and content; a field is named in its disposition.\<close>

datatype form_part = FieldPart string string | FilePart string string string "(string \<times> string) list"

record push_request =
  pr_Method :: string
  pr_URL :: string
  pr_Header :: "(string \<times> string) list"
  pr_Body :: "publish_error + form_part list"

record push_response =
  ps_StatusCode :: nat
  ps_Status :: string
  ps_Body :: string
  ps_BodyErr :: "go_error option"

text \<open>The transport; \<open>tr_PartErr\<close> is a failure of writing the \<open>n\<close>-th part.\<close>

record transport =
  tr_NewRequest :: "string \<Rightarrow> go_error option"
  tr_Do :: "push_request \<Rightarrow> go_error + push_response"
  tr_PartErr :: "nat \<Rightarrow> go_error option"
  tr_Boundary :: string
  tr_json_error :: "string \<Rightarrow> go_error + string"

definition writeMultipart :: "transport \<Rightarrow> temps \<Rightarrow> push_options \<Rightarrow> publish_error + form_part list" where
  "writeMultipart tr tmps opts =
     (case tr_PartErr tr 0 of
        Some err \<Rightarrow> Inl (WritePartFailed err)
      | None \<Rightarrow>
          (case tr_PartErr tr 1 of
             Some err \<Rightarrow> Inl (WritePartFailed err)
           | None \<Rightarrow>
               (case tmps (po_ArchivePath opts) of
                  None \<Rightarrow> Inl (OpenArchiveFailed (External ''no such file or directory''))
                | Some zs \<Rightarrow>
                    (case tr_PartErr tr 2 of
                       Some err \<Rightarrow> Inl (WritePartFailed err)
                     | None \<Rightarrow> Inr [FieldPart ''name'' (po_Name opts), FieldPart ''version'' (po_Version opts),
                         FilePart ''file'' ''package.zip'' ''application/zip'' zs]))))"

definition serverMessage :: "transport \<Rightarrow> string \<Rightarrow> string \<times> bool" where
  "serverMessage tr bd =
     (case tr_json_error tr bd of Inr e \<Rightarrow> if e \<noteq> '''' then (e, True) else ('''', False) | Inl _ \<Rightarrow> ('''', False))"

definition ellipsis :: string where "ellipsis = map char_of [226, 128, 166 :: nat]"

definition push_result :: "transport \<Rightarrow> nat \<Rightarrow> string \<Rightarrow> string \<Rightarrow> publish_error option" where
  "push_result tr code status bd =
     (if code = 201 then None
      else if code = 401 then Some AuthenticationFailed
      else (case serverMessage tr bd of (message, jsonBody) \<Rightarrow>
         if code = 409 then Some (VersionConflict message)
         else if code = 413 \<and> \<not> jsonBody then Some UploadTooLarge
         else (let message = (if message = '''' then TrimSpace bd else message);
                   message = (if length bd = 513 \<and> \<not> jsonBody then TrimSpace (take 512 bd) @ ellipsis else message)
               in if message = '''' then Some (ServerStatus status) else Some (ServerStatusMessage status message))))"

text \<open>The request that carries the form.\<close>

definition post_packages :: "transport \<Rightarrow> string \<Rightarrow> string \<Rightarrow> publish_error + form_part list \<Rightarrow> push_request" where
  "post_packages tr url token bd =
     \<lparr>pr_Method = ''POST'', pr_URL = TrimRight url (CHR ''/'') @ ''/packages'',
      pr_Header = [(''Authorization'', ''Bearer '' @ token), (''Content-Type'', ''multipart/form-data; boundary='' @ tr_Boundary tr)],
      pr_Body = bd\<rparr>"

definition Push :: "transport \<Rightarrow> temps \<Rightarrow> push_options \<Rightarrow> publish_error option" where
  "Push tr tmps opts =
     (let req = post_packages tr (po_URL opts) (po_Token opts) (writeMultipart tr tmps opts)
      in (case tr_NewRequest tr (pr_URL req) of
            Some err \<Rightarrow> Some (CreateRequestFailed err)
          | None \<Rightarrow>
              (case tr_Do tr req of
                 Inl err \<Rightarrow> Some (UploadPackageFailed err)
               | Inr resp \<Rightarrow>
                   (let bd = take 513 (ps_Body resp);
                        readErr = (if length (ps_Body resp) < 513 then ps_BodyErr resp else None)
                    in (case readErr of
                          Some err \<Rightarrow> Some (ReadResponseFailed err)
                        | None \<Rightarrow> push_result tr (ps_StatusCode resp) (ps_Status resp) bd)))))"

subsection \<open>The arguments\<close>

record push_args =
  pa_name :: string
  pa_version :: string
  pa_url :: string
  pa_token :: string

definition set_flag :: "string \<Rightarrow> string \<Rightarrow> push_args \<Rightarrow> push_args option" where
  "set_flag name v a =
     (if name = ''name'' then Some (a\<lparr>pa_name := v\<rparr>)
      else if name = ''version'' then Some (a\<lparr>pa_version := v\<rparr>)
      else if name = ''url'' then Some (a\<lparr>pa_url := v\<rparr>)
      else if name = ''token'' then Some (a\<lparr>pa_token := v\<rparr>)
      else None)"

text \<open>
  \<open>FlagSet.Parse\<close> for string flags: one or two dashes, the value after an equals sign (not as
  the first character) or as the next argument; the first argument that is no flag ends the flags.
\<close>

definition split_flag :: "string \<Rightarrow> string \<times> string option" where
  "split_flag name =
     (case name of [] \<Rightarrow> ('''', None)
      | c # r \<Rightarrow> (case Cut r (CHR ''='') of (k, v, found) \<Rightarrow> (c # k, if found then Some v else None)))"

function flag_Parse :: "string list \<Rightarrow> push_args \<Rightarrow> publish_error + push_args" where
  "flag_Parse [] a = Inr a"
| "flag_Parse (s # args) a =
     (if length s < 2 \<or> hd s \<noteq> CHR ''-'' \<or> s = ''--'' then Inr a
      else (let name = (if s ! 1 = CHR ''-'' then drop 2 s else drop 1 s)
            in if name = '''' \<or> hd name = CHR ''-'' \<or> hd name = CHR ''='' then Inl (BadFlagSyntax s)
               else (case split_flag name of (flag, v) \<Rightarrow>
                  if set_flag flag '''' a = None then Inl (if flag = ''help'' \<or> flag = ''h'' then FlagHelp else FlagNotDefined flag)
                  else (case v of
                     Some w \<Rightarrow> flag_Parse args (the (set_flag flag w a))
                   | None \<Rightarrow> if args = [] then Inl (FlagNeedsArgument flag)
                             else flag_Parse (tl args) (the (set_flag flag (hd args) a))))))"
  by pat_completeness auto
termination by (relation "measure (\<lambda>(args, _). length args)") auto

text \<open>The loop of \<open>parsePush\<close>: the flags with their values, and the other arguments.\<close>

function reorder :: "string list \<Rightarrow> string list \<Rightarrow> string list \<Rightarrow> publish_error + (string list \<times> string list)" where
  "reorder [] reordered positionals = Inr (reordered, positionals)"
| "reorder (arg # args) reordered positionals =
     (if HasPrefix arg ''-''
      then (if \<not> Contains arg (CHR ''='')
            then (if args = [] \<or> HasPrefix (hd args) ''-'' then Inl (FlagRequiresValue arg)
                  else reorder (tl args) (reordered @ [arg, hd args]) positionals)
            else reorder args (reordered @ [arg]) positionals)
      else reorder args reordered (positionals @ [arg]))"
  by pat_completeness auto
termination by (relation "measure (\<lambda>(args, _). length args)") auto

declare flag_Parse.simps [simp del] reorder.simps [simp del]

definition parsePush :: "string list \<Rightarrow> publish_error + (push_args \<times> string)" where
  "parsePush args =
     (case reorder args [] [] of
        Inl err \<Rightarrow> Inl err
      | Inr (reordered, positionals) \<Rightarrow>
          (case flag_Parse reordered \<lparr>pa_name = '''', pa_version = '''', pa_url = '''', pa_token = ''''\<rparr> of
             Inl err \<Rightarrow> Inl err
           | Inr a \<Rightarrow> if length positionals \<noteq> 1 then Inl ExactlyOneDirectory else Inr (a, positionals ! 0)))"

subsection \<open>The command\<close>

record cli_env =
  ce_Getenv :: "string \<Rightarrow> string"
  ce_Getwd :: "go_error + string"
  ce_RunGit :: "go_error + string"
  ce_ReadFile :: "string \<Rightarrow> go_error + string"
  ce_json_version :: "string \<Rightarrow> go_error + string"
  ce_fs :: archive_fs
  ce_transport :: transport
  ce_version :: string

text \<open>The exit status, what was printed, and the error on the other stream (with the usage or not).\<close>

record run_result =
  rr_Status :: nat
  rr_Stdout :: "string list"
  rr_Stderr :: "publish_error option"
  rr_Usage :: bool

definition fail_with :: "string list \<Rightarrow> publish_error \<Rightarrow> run_result" where
  "fail_with out err = \<lparr>rr_Status = 1, rr_Stdout = out, rr_Stderr = Some err, rr_Usage = False\<rparr>"

definition usage_error :: "publish_error option \<Rightarrow> run_result" where
  "usage_error err = \<lparr>rr_Status = 2, rr_Stdout = [], rr_Stderr = err, rr_Usage = True\<rparr>"

definition missing_option :: "string \<Rightarrow> string \<Rightarrow> string \<Rightarrow> string option" where
  "missing_option name url token =
     (if name = '''' then Some ''--name'' else if url = '''' then Some ''--url or GIMME_URL''
      else if token = '''' then Some ''--token or GIMME_TOKEN'' else None)"

definition publish :: "cli_env \<Rightarrow> string list \<Rightarrow> string \<Rightarrow> string \<Rightarrow> string \<Rightarrow> string \<Rightarrow> string \<Rightarrow> temps \<Rightarrow> run_result \<times> temps" where
  "publish ce out name resolved url token dir tmps =
     (case Archive (ce_fs ce) dir tmps of
        (Inl err, tmps') \<Rightarrow> (fail_with out err, tmps')
      | (Inr archivePath, tmps') \<Rightarrow>
          ((case Push (ce_transport ce) tmps' \<lparr>po_URL = url, po_Token = token, po_Name = name, po_Version = resolved, po_ArchivePath = archivePath\<rparr> of
              Some err \<Rightarrow> fail_with out err
            | None \<Rightarrow>
                (let base = TrimRight url (CHR ''/'')
                 in \<lparr>rr_Status = 0, rr_Stdout = out @ [''published '' @ name @ ''@'' @ resolved @ '' to '' @ base @ ''/gimme/'' @ name @ ''@'' @ resolved @ ''/''],
                     rr_Stderr = None, rr_Usage = False\<rparr>)),
           os_Remove (ce_fs ce) archivePath tmps'))"

definition run :: "cli_env \<Rightarrow> string list \<Rightarrow> temps \<Rightarrow> run_result \<times> temps" where
  "run ce args tmps =
     (if args = [''version''] then (\<lparr>rr_Status = 0, rr_Stdout = [ce_version ce], rr_Stderr = None, rr_Usage = False\<rparr>, tmps)
      else if args = [] then (usage_error None, tmps)
      else if hd args \<noteq> ''push'' then (usage_error (Some (UnknownSubcommand (hd args))), tmps)
      else (case parsePush (tl args) of
         Inl err \<Rightarrow> (usage_error (Some err), tmps)
       | Inr (a, dir) \<Rightarrow>
           (let url = (if pa_url a = '''' then ce_Getenv ce ''GIMME_URL'' else pa_url a);
                token = (if pa_token a = '''' then ce_Getenv ce ''GIMME_TOKEN'' else pa_token a)
            in (case missing_option (pa_name a) url token of
                  Some label \<Rightarrow> (usage_error (Some (MissingOption label)), tmps)
                | None \<Rightarrow>
                    (case ce_Getwd ce of
                       Inl err \<Rightarrow> (fail_with [] (WorkingDirFailed err), tmps)
                     | Inr workingDir \<Rightarrow>
                         (case ResolveVersion (ce_ReadFile ce) (ce_json_version ce) (pa_version a)
                             \<lparr>vs_WorkingDir = workingDir, vs_LookupEnv = Some (ce_Getenv ce), vs_RunGit = Some (ce_RunGit ce)\<rparr> of
                            Inl err \<Rightarrow> (fail_with [] err, tmps)
                          | Inr (resolved, source) \<Rightarrow>
                              publish ce [''version '' @ resolved @ '' (from '' @ source @ '')''] (pa_name a) resolved url token dir tmps))))))"

end
