(* ===== verification/Gimme_PublishSpec.thy ===== *)
theory Gimme_PublishSpec
  imports Gimme_Publish
begin

text \<open>
  What the command line client guarantees: the order of its arguments does not matter, a success
  means that the server accepted the files of the directory, and no archive is left behind unless
  its removal fails.
\<close>

subsection \<open>Arguments\<close>

text \<open>A flag with its value as the next argument, or after an equals sign.\<close>

datatype given_flag = NextArg string string | WithEquals string string

fun flag_args :: "given_flag \<Rightarrow> string list" where
  "flag_args (NextArg f v) = [''--'' @ f, v]"
| "flag_args (WithEquals f v) = [''--'' @ f @ ''='' @ v]"

fun flag_pair :: "given_flag \<Rightarrow> string \<times> string" where
  "flag_pair (NextArg f v) = (f, v)"
| "flag_pair (WithEquals f v) = (f, v)"

definition push_flags :: "string list" where
  "push_flags = [''name'', ''version'', ''url'', ''token'']"

fun flag_ok :: "given_flag \<Rightarrow> bool" where
  "flag_ok (NextArg f v) \<longleftrightarrow> f \<in> set push_flags \<and> \<not> HasPrefix v ''-''"
| "flag_ok (WithEquals f v) \<longleftrightarrow> f \<in> set push_flags"

text \<open>The last value given for a flag counts.\<close>

definition flag_value :: "given_flag list \<Rightarrow> string \<Rightarrow> string" where
  "flag_value gs f = (case map_of (rev (map flag_pair gs)) f of None \<Rightarrow> '''' | Some v \<Rightarrow> v)"

lemma push_flags_chars: "f \<in> set push_flags \<Longrightarrow> f \<noteq> '''' \<and> CHR ''='' \<notin> set f \<and> CHR ''-'' \<notin> set f"
  by (auto simp: push_flags_def)

lemma push_flags_cons:
  assumes "f \<in> set push_flags"
  obtains c r where "f = c # r" and "c \<noteq> CHR ''='' \<and> c \<noteq> CHR ''-''" and "CHR ''='' \<notin> set r"
  using push_flags_chars [OF assms] by (cases f) auto

lemma dashes [simp]: "HasPrefix (CHR ''-'' # s) ''-''"
  by (simp add: HasPrefix_def)

lemma reorder_next:
  "CHR ''='' \<notin> set f \<Longrightarrow> \<not> HasPrefix v ''-'' \<Longrightarrow> reorder ((''--'' @ f) # v # args) r p = reorder args (r @ [''--'' @ f, v]) p"
  by (subst reorder.simps) (simp add: Contains_def)

lemma reorder_equals: "reorder ((''--'' @ f @ ''='' @ v) # args) r p = reorder args (r @ [''--'' @ f @ ''='' @ v]) p"
  by (subst reorder.simps) (simp add: Contains_def)

lemma reorder_positional: "\<not> HasPrefix d ''-'' \<Longrightarrow> reorder (d # args) r p = reorder args r (p @ [d])"
  by (subst reorder.simps) simp

lemma reorder_flag: "flag_ok g \<Longrightarrow> reorder (flag_args g @ args) r p = reorder args (r @ flag_args g) p"
  using reorder_next reorder_equals push_flags_chars by (cases g) simp_all

lemma reorder_flags:
  "\<forall>g \<in> set gs. flag_ok g \<Longrightarrow> reorder (concat (map flag_args gs) @ rest) r p = reorder rest (r @ concat (map flag_args gs)) p"
  by (induction gs arbitrary: r) (simp_all add: reorder_flag)

lemma split_flag_simps:
  assumes "f \<in> set push_flags"
  shows "split_flag f = (f, None)" and "split_flag (f @ CHR ''='' # v) = (f, Some v)"
proof -
  obtain c r where f: "f = c # r" "CHR ''='' \<notin> set r" by (rule push_flags_cons [OF assms])
  show "split_flag f = (f, None)" by (simp add: split_flag_def f(1) Cut_not_found [OF f(2)])
  show "split_flag (f @ CHR ''='' # v) = (f, Some v)" by (simp add: split_flag_def f(1) Cut_found [OF f(2)])
qed

lemma set_flag_defined: "f \<in> set push_flags \<Longrightarrow> set_flag f v a \<noteq> None"
  by (auto simp: set_flag_def push_flags_def)

lemma flag_Parse_next:
  assumes "f \<in> set push_flags"
  shows "flag_Parse ((''--'' @ f) # v # args) a = flag_Parse args (the (set_flag f v a))"
proof -
  obtain c r where f: "f = c # r" "c \<noteq> CHR ''='' \<and> c \<noteq> CHR ''-''" using push_flags_cons [OF assms] by blast
  obtain y where "set_flag (c # r) '''' a = Some y" using set_flag_defined [OF assms, of "''''" a] f by auto
  then show ?thesis using split_flag_simps(1) [OF assms] f by (subst flag_Parse.simps) (simp add: Let_def)
qed

lemma flag_Parse_equals:
  assumes "f \<in> set push_flags"
  shows "flag_Parse ((''--'' @ f @ ''='' @ v) # args) a = flag_Parse args (the (set_flag f v a))"
proof -
  obtain c r where f: "f = c # r" "c \<noteq> CHR ''='' \<and> c \<noteq> CHR ''-''" using push_flags_cons [OF assms] by blast
  obtain y where "set_flag (c # r) '''' a = Some y" using set_flag_defined [OF assms, of "''''" a] f by auto
  then show ?thesis using split_flag_simps(2) [OF assms, of v] f by (subst flag_Parse.simps) (simp add: Let_def)
qed

lemma flag_Parse_step:
  "flag_ok g \<Longrightarrow> flag_Parse (flag_args g @ args) a = flag_Parse args (the (set_flag (fst (flag_pair g)) (snd (flag_pair g)) a))"
  using flag_Parse_next flag_Parse_equals by (cases g) simp_all

definition apply_flags :: "given_flag list \<Rightarrow> push_args \<Rightarrow> push_args" where
  "apply_flags gs a = fold (\<lambda>g a. the (set_flag (fst (flag_pair g)) (snd (flag_pair g)) a)) gs a"

lemma flag_Parse_flags: "\<forall>g \<in> set gs. flag_ok g \<Longrightarrow> flag_Parse (concat (map flag_args gs)) a = Inr (apply_flags gs a)"
  by (induction gs arbitrary: a) (simp_all add: apply_flags_def flag_Parse_step flag_Parse.simps(1))

lemma apply_flags_values:
  assumes "\<forall>g \<in> set gs. flag_ok g"
  shows "apply_flags gs \<lparr>pa_name = '''', pa_version = '''', pa_url = '''', pa_token = ''''\<rparr> =
    \<lparr>pa_name = flag_value gs ''name'', pa_version = flag_value gs ''version'', pa_url = flag_value gs ''url'', pa_token = flag_value gs ''token''\<rparr>"
  using assms
proof (induction gs rule: rev_induct)
  case (snoc g gs)
  then have f: "fst (flag_pair g) \<in> set push_flags" by (cases g) simp_all
  have v: "flag_value (gs @ [g]) k = (if k = fst (flag_pair g) then snd (flag_pair g) else flag_value gs k)" for k
    by (cases "flag_pair g") (simp add: flag_value_def)
  have "apply_flags (gs @ [g]) a = the (set_flag (fst (flag_pair g)) (snd (flag_pair g)) (apply_flags gs a))" for a
    by (simp add: apply_flags_def)
  note step = this
  from snoc have ih: "apply_flags gs \<lparr>pa_name = '''', pa_version = '''', pa_url = '''', pa_token = ''''\<rparr> =
    \<lparr>pa_name = flag_value gs ''name'', pa_version = flag_value gs ''version'', pa_url = flag_value gs ''url'', pa_token = flag_value gs ''token''\<rparr>" by simp
  from f consider "fst (flag_pair g) = ''name''" | "fst (flag_pair g) = ''version''" | "fst (flag_pair g) = ''url''" | "fst (flag_pair g) = ''token''"
    unfolding push_flags_def by auto
  then show ?case by cases (simp_all add: step ih v set_flag_def)
qed (simp add: apply_flags_def flag_value_def)

text \<open>The flags and the directory of \<open>push\<close> may come in any order and in either form: whatever
  flags stand before and after the directory, the values read are the last ones given for each
  flag, and the directory is the one argument that is neither a flag nor a value.\<close>

lemma parsePush_order:
  assumes "\<forall>g \<in> set (before @ after). flag_ok g" and "\<not> HasPrefix dir ''-''"
  shows "parsePush (concat (map flag_args before) @ dir # concat (map flag_args after)) =
    Inr (\<lparr>pa_name = flag_value (before @ after) ''name'', pa_version = flag_value (before @ after) ''version'',
          pa_url = flag_value (before @ after) ''url'', pa_token = flag_value (before @ after) ''token''\<rparr>, dir)"
proof -
  let ?args = "concat (map flag_args before) @ dir # concat (map flag_args after)"
  have "reorder ?args [] [] = reorder (dir # concat (map flag_args after)) (concat (map flag_args before)) []"
    using reorder_flags [of before "dir # concat (map flag_args after)" "[]" "[]"] assms(1) by simp
  also have "\<dots> = reorder (concat (map flag_args after)) (concat (map flag_args before)) [dir]" using assms(2) by (simp add: reorder_positional)
  also have "\<dots> = Inr (concat (map flag_args (before @ after)), [dir])"
    using reorder_flags [of after "[]" "concat (map flag_args before)" "[dir]"] assms(1) by (simp add: reorder.simps(1))
  finally show ?thesis
    using flag_Parse_flags [OF assms(1)] apply_flags_values [OF assms(1)] by (simp add: parsePush_def)
qed

subsection \<open>Archives\<close>

text \<open>The files of a directory as \<open>fs.WalkDir\<close> visits them: their names and contents.\<close>

definition regular_files :: "walk_entry list \<Rightarrow> (string \<times> string) list" where
  "regular_files es =
     List.map_filter (\<lambda>e. if we_Name e = ''.'' \<or> we_IsDir e then None
       else (case we_Open e of Inr f \<Rightarrow> Some (we_Name e, op_Data f) | Inl _ \<Rightarrow> None)) es"

lemma walk_file_None:
  assumes "walk_file e = (None, z)"
  shows "z = (if we_Name e = ''.'' \<or> we_IsDir e then []
    else (case we_Open e of Inr f \<Rightarrow> [(we_Name e, op_Data f)] | Inl _ \<Rightarrow> []))"
  using assms by (auto simp: walk_file_def split: option.splits sum.splits file_mode.splits if_split_asm prod.splits)

lemma walk_files_None: "walk_files es written = (None, zs) \<Longrightarrow> zs = written @ regular_files es"
proof (induction es arbitrary: written)
  case (Cons e es)
  from Cons.prems obtain z where z: "walk_file e = (None, z)" "walk_files es (written @ z) = (None, zs)"
    by (auto split: prod.splits option.splits)
  from Cons.IH [OF z(2)] walk_file_None [OF z(1)] show ?case
    by (auto simp: regular_files_def List.map_filter_simps split: sum.splits)
qed (simp add: regular_files_def List.map_filter_simps)

lemma Archive_cases:
  obtains (failed) err where "Archive af dir tmps = (Inl err, tmps)"
  | (given_up) err path zs where "af_CreateTemp af = Inr path" and "Archive af dir tmps = (Inl err, os_Remove af path (tmps(path \<mapsto> zs)))"
  | (packed) path where "af_CreateTemp af = Inr path" and "regular_files (af_Walk af dir) \<noteq> []"
      and "Archive af dir tmps = (Inr path, tmps(path \<mapsto> regular_files (af_Walk af dir)))"
proof (cases "af_Stat af dir = Inr True \<and> af_OpenRoot af dir = None \<and> (\<exists>path. af_CreateTemp af = Inr path)")
  case False
  then have "\<exists>err. Archive af dir tmps = (Inl err, tmps)"
    by (auto simp: Archive_def split: sum.split option.split)
  then show ?thesis using failed by blast
next
  case True
  then obtain path where path: "af_CreateTemp af = Inr path" by blast
  obtain walkErr zs where walked: "walk_files (af_Walk af dir) [] = (walkErr, zs)" by fastforce
  have archive: "Archive af dir tmps = (case archive_error af dir walkErr (length zs) of
      Some e \<Rightarrow> (Inl e, os_Remove af path (tmps(path \<mapsto> zs))) | None \<Rightarrow> (Inr path, tmps(path \<mapsto> zs)))"
    using True path walked by (simp add: Archive_def Let_def split: option.split)
  show ?thesis
  proof (cases "archive_error af dir walkErr (length zs)")
    case (Some e)
    with archive path show ?thesis by (intro given_up) simp_all
  next
    case None
    then have "walkErr = None" "zs \<noteq> []" by (auto simp: archive_error_def split: option.splits if_split_asm)
    with walk_files_None [of "af_Walk af dir" "[]" zs] walked archive path None show ?thesis by (intro packed) simp_all
  qed
qed

lemma os_Remove_cases:
  "os_Remove af path (tmps(path \<mapsto> zs)) = tmps(path := None) \<or>
   (\<exists>err. af_RemoveErr af path = Some err) \<and> os_Remove af path (tmps(path \<mapsto> zs)) = tmps(path \<mapsto> zs)"
  by (simp add: os_Remove_def split: option.split)

subsection \<open>Runs\<close>

text \<open>Nothing is left, or the one file whose removal failed.\<close>

definition cleaned :: "archive_fs \<Rightarrow> temps \<Rightarrow> temps \<Rightarrow> bool" where
  "cleaned af tmps tmps' \<longleftrightarrow> tmps' = tmps \<or>
     (\<exists>path err left. af_CreateTemp af = Inr path \<and> af_RemoveErr af path = Some err \<and> tmps' = tmps(path \<mapsto> left))"

lemma removed_cleaned:
  assumes "af_CreateTemp af = Inr path" and "tmps path = None"
  shows "cleaned af tmps (os_Remove af path (tmps(path \<mapsto> zs)))"
  using assms os_Remove_cases [of af path tmps zs] by (auto simp: cleaned_def fun_upd_idem)

lemma publish_cleans:
  assumes "\<And>path. af_CreateTemp (ce_fs ce) = Inr path \<Longrightarrow> tmps path = None"
  shows "cleaned (ce_fs ce) tmps (snd (publish ce out name resolved url token dir tmps))"
  using removed_cleaned assms
  by (cases rule: Archive_cases [of "ce_fs ce" dir tmps]) (simp_all add: publish_def, simp add: cleaned_def)

text \<open>C25: however a run of the client ends, whether the arguments are wrong, reading or packing the
  directory fails, the server refuses the package or accepts it, no temporary archive is left: the
  temporary files are those from before, unless the removal of the archive itself failed, and then
  that one file is all that was added.\<close>

theorem run_leaves_no_archive:
  assumes "\<And>path. af_CreateTemp (ce_fs ce) = Inr path \<Longrightarrow> tmps path = None"
  shows "snd (run ce args tmps) = tmps \<or>
    (\<exists>path err left. af_CreateTemp (ce_fs ce) = Inr path \<and> af_RemoveErr (ce_fs ce) path = Some err \<and>
       snd (run ce args tmps) = tmps(path \<mapsto> left))"
proof -
  have "cleaned (ce_fs ce) tmps (snd (run ce args tmps))"
    using publish_cleans [OF assms] by (simp add: run_def Let_def cleaned_def split: sum.split option.split prod.split)
  then show ?thesis by (simp add: cleaned_def)
qed

lemma Push_None:
  assumes "Push tr tmps opts = None"
  obtains resp where "ps_StatusCode resp = 201"
    and "tr_Do tr (post_packages tr (po_URL opts) (po_Token opts) (writeMultipart tr tmps opts)) = Inr resp"
  using assms that by (auto simp: Push_def Let_def push_result_def split: option.splits sum.splits prod.splits if_split_asm)

text \<open>The form of a package.\<close>

definition package_form :: "string \<Rightarrow> string \<Rightarrow> (string \<times> string) list \<Rightarrow> form_part list" where
  "package_form name version zs =
     [FieldPart ''name'' name, FieldPart ''version'' version, FilePart ''file'' ''package.zip'' ''application/zip'' zs]"

lemma publish_success:
  assumes "rr_Status (fst (publish ce out name resolved url token dir tmps)) = 0"
  obtains resp bd where "ps_StatusCode resp = 201" and "regular_files (af_Walk (ce_fs ce) dir) \<noteq> []"
    and "tr_Do (ce_transport ce) (post_packages (ce_transport ce) url token bd) = Inr resp"
    and "bd = Inr (package_form name resolved (regular_files (af_Walk (ce_fs ce) dir))) \<or>
      (\<exists>n err. tr_PartErr (ce_transport ce) n = Some err \<and> bd = Inl (WritePartFailed err))"
proof (cases rule: Archive_cases [of "ce_fs ce" dir tmps])
  case (packed path)
  let ?opts = "\<lparr>po_URL = url, po_Token = token, po_Name = name, po_Version = resolved, po_ArchivePath = path\<rparr>"
  let ?tmps = "tmps(path \<mapsto> regular_files (af_Walk (ce_fs ce) dir))"
  have "Push (ce_transport ce) ?tmps ?opts = None"
    using assms packed by (auto simp: publish_def fail_with_def split: option.splits)
  then obtain resp where r: "ps_StatusCode resp = 201"
      "tr_Do (ce_transport ce) (post_packages (ce_transport ce) url token (writeMultipart (ce_transport ce) ?tmps ?opts)) = Inr resp"
    by (rule Push_None) simp
  have "writeMultipart (ce_transport ce) ?tmps ?opts = Inr (package_form name resolved (regular_files (af_Walk (ce_fs ce) dir))) \<or>
      (\<exists>n err. tr_PartErr (ce_transport ce) n = Some err \<and> writeMultipart (ce_transport ce) ?tmps ?opts = Inl (WritePartFailed err))"
    by (auto simp: writeMultipart_def package_form_def split: option.split)
  with r packed(2) show thesis by (intro that)
qed (use assms in \<open>simp_all add: publish_def fail_with_def\<close>)

text \<open>C24: when \<open>push\<close> exits with status 0, the server has answered 201 to one POST to the
  \<open>/packages\<close> of the URL, authorized with the token; each of the two is the value of its flag, or of
  its environment variable \<open>GIMME_URL\<close> or \<open>GIMME_TOKEN\<close> when the flag has none, and neither is empty.
  The form of the request held the name, the resolved version and an archive of exactly the files of
  the directory, of which there is at least one, unless writing a part to the connection failed.\<close>

theorem run_success:
  assumes "rr_Status (fst (run ce args tmps)) = 0" and "args \<noteq> [''version'']"
  shows "\<exists>a dir resolved source resp bd. parsePush (tl args) = Inr (a, dir) \<and>
    (let url = (if pa_url a = '''' then ce_Getenv ce ''GIMME_URL'' else pa_url a);
         token = (if pa_token a = '''' then ce_Getenv ce ''GIMME_TOKEN'' else pa_token a);
         content = regular_files (af_Walk (ce_fs ce) dir)
     in '''' \<notin> {pa_name a, url, token} \<and>
       ResolveVersion (ce_ReadFile ce) (ce_json_version ce) (pa_version a)
         \<lparr>vs_WorkingDir = projr (ce_Getwd ce), vs_LookupEnv = Some (ce_Getenv ce), vs_RunGit = Some (ce_RunGit ce)\<rparr> = Inr (resolved, source) \<and>
       tr_Do (ce_transport ce)
         \<lparr>pr_Method = ''POST'', pr_URL = TrimRight url (CHR ''/'') @ ''/packages'',
          pr_Header = [(''Authorization'', ''Bearer '' @ token),
            (''Content-Type'', ''multipart/form-data; boundary='' @ tr_Boundary (ce_transport ce))], pr_Body = bd\<rparr> = Inr resp \<and>
       ps_StatusCode resp = 201 \<and> content \<noteq> [] \<and>
       (bd = Inr [FieldPart ''name'' (pa_name a), FieldPart ''version'' resolved, FilePart ''file'' ''package.zip'' ''application/zip'' content] \<or>
        (\<exists>n err. tr_PartErr (ce_transport ce) n = Some err \<and> bd = Inl (WritePartFailed err))))"
proof -
  from assms obtain a dir wd resolved source where parsed: "parsePush (tl args) = Inr (a, dir)"
    and wd: "ce_Getwd ce = Inr wd"
    and missing: "missing_option (pa_name a) (if pa_url a = '''' then ce_Getenv ce ''GIMME_URL'' else pa_url a)
        (if pa_token a = '''' then ce_Getenv ce ''GIMME_TOKEN'' else pa_token a) = None"
    and version: "ResolveVersion (ce_ReadFile ce) (ce_json_version ce) (pa_version a)
        \<lparr>vs_WorkingDir = wd, vs_LookupEnv = Some (ce_Getenv ce), vs_RunGit = Some (ce_RunGit ce)\<rparr> = Inr (resolved, source)"
    and status: "rr_Status (fst (publish ce [''version '' @ resolved @ '' (from '' @ source @ '')''] (pa_name a) resolved
        (if pa_url a = '''' then ce_Getenv ce ''GIMME_URL'' else pa_url a)
        (if pa_token a = '''' then ce_Getenv ce ''GIMME_TOKEN'' else pa_token a) dir tmps)) = 0"
    unfolding run_def Let_def
    by (auto simp: usage_error_def fail_with_def split: if_split_asm sum.splits option.splits prod.splits)
  define url where "url = (if pa_url a = '''' then ce_Getenv ce ''GIMME_URL'' else pa_url a)"
  define token where "token = (if pa_token a = '''' then ce_Getenv ce ''GIMME_TOKEN'' else pa_token a)"
  have given: "'''' \<notin> {pa_name a, url, token}"
    using missing unfolding url_def [symmetric] token_def [symmetric] by (auto simp: missing_option_def split: if_split_asm)
  have version': "ResolveVersion (ce_ReadFile ce) (ce_json_version ce) (pa_version a)
        \<lparr>vs_WorkingDir = projr (ce_Getwd ce), vs_LookupEnv = Some (ce_Getenv ce), vs_RunGit = Some (ce_RunGit ce)\<rparr> = Inr (resolved, source)"
    using version wd by simp
  from publish_success [OF status [folded url_def token_def]] obtain resp bd where
    "ps_StatusCode resp = 201" "regular_files (af_Walk (ce_fs ce) dir) \<noteq> []"
    "tr_Do (ce_transport ce) (post_packages (ce_transport ce) url token bd) = Inr resp"
    "bd = Inr (package_form (pa_name a) resolved (regular_files (af_Walk (ce_fs ce) dir))) \<or>
      (\<exists>n err. tr_PartErr (ce_transport ce) n = Some err \<and> bd = Inl (WritePartFailed err))" by metis
  with parsed given version' show ?thesis
    by (intro exI [of _ a] exI [of _ dir] exI [of _ resolved] exI [of _ source] exI [of _ resp] exI [of _ bd])
      (simp only: Let_def url_def [symmetric] token_def [symmetric] package_form_def post_packages_def simp_thms)
qed

subsection \<open>A run\<close>

definition ref_dir :: "walk_entry list" where
  "ref_dir = [\<lparr>we_Name = ''.'', we_Err = None, we_IsDir = True, we_Open = Inl (External ''is a directory'')\<rparr>,
     \<lparr>we_Name = ''a.js'', we_Err = None, we_IsDir = False,
      we_Open = Inr \<lparr>op_Stat = Inr RegularMode, op_HeaderErr = None, op_Data = ''abc'', op_CopyErr = None, op_CloseErr = None\<rparr>\<rparr>]"

definition ref_cli :: cli_env where
  "ref_cli = \<lparr>ce_Getenv = (\<lambda>v. if v = ''GIMME_TOKEN'' then ''gim_1'' else ''''), ce_Getwd = Inr ''/w'', ce_RunGit = Inr [CHR ''v'', CHR ''2'', CHR 0x0A],
     ce_ReadFile = (\<lambda>_. Inl (External ''not found'')), ce_json_version = (\<lambda>_. Inl (External ''not json'')),
     ce_fs = \<lparr>af_Stat = (\<lambda>_. Inr True), af_OpenRoot = (\<lambda>_. None), af_CreateTemp = Inr ''/tmp/x.zip'', af_Walk = (\<lambda>_. ref_dir),
       af_ZipClose = None, af_TempClose = None, af_RemoveErr = (\<lambda>_. None)\<rparr>,
     ce_transport = \<lparr>tr_NewRequest = (\<lambda>_. None), tr_Do = (\<lambda>_. Inr \<lparr>ps_StatusCode = 201, ps_Status = ''201 Created'', ps_Body = '''', ps_BodyErr = None\<rparr>),
       tr_PartErr = (\<lambda>_. None), tr_Boundary = ''b'', tr_json_error = (\<lambda>_. Inl (External ''not json''))\<rparr>,
     ce_version = ''dev''\<rparr>"

definition ref_args :: "string list" where
  "ref_args = [''push'', ''--name'', ''lib'', ''dist'', ''--url=https://cdn'']"

theorem run_leaves_no_archive_witness: "snd (run ref_cli ref_args Map.empty) = Map.empty"
  using run_leaves_no_archive [of ref_cli Map.empty ref_args] by (simp add: ref_cli_def)

theorem run_success_witness:
  "\<exists>source resp. ResolveVersion (ce_ReadFile ref_cli) (ce_json_version ref_cli) ''''
       \<lparr>vs_WorkingDir = ''/w'', vs_LookupEnv = Some (ce_Getenv ref_cli), vs_RunGit = Some (ce_RunGit ref_cli)\<rparr> = Inr (''2'', source) \<and>
     tr_Do (ce_transport ref_cli)
       \<lparr>pr_Method = ''POST'', pr_URL = ''https://cdn/packages'',
        pr_Header = [(''Authorization'', ''Bearer gim_1''), (''Content-Type'', ''multipart/form-data; boundary=b'')],
        pr_Body = Inr [FieldPart ''name'' ''lib'', FieldPart ''version'' ''2'', FilePart ''file'' ''package.zip'' ''application/zip'' [(''a.js'', ''abc'')]]\<rparr> = Inr resp \<and>
     ps_StatusCode resp = 201"
proof -
  have s: "rr_Status (fst (run ref_cli ref_args Map.empty)) = 0" by code_simp
  have n: "ref_args \<noteq> [''version'']" by (simp add: ref_args_def)
  have args: "case parsePush (tl ref_args) of Inl _ \<Rightarrow> False
    | Inr (a, dir) \<Rightarrow> pa_name a = ''lib'' \<and> pa_version a = '''' \<and> pa_url a = ''https://cdn'' \<and> pa_token a = '''' \<and> dir = ''dist''" by code_simp
  have version: "case ResolveVersion (ce_ReadFile ref_cli) (ce_json_version ref_cli) ''''
       \<lparr>vs_WorkingDir = ''/w'', vs_LookupEnv = Some (ce_Getenv ref_cli), vs_RunGit = Some (ce_RunGit ref_cli)\<rparr> of
       Inl _ \<Rightarrow> False | Inr (v, _) \<Rightarrow> v = ''2''" by code_simp
  have env: "ce_Getwd ref_cli = Inr ''/w''" "ce_Getenv ref_cli ''GIMME_TOKEN'' = ''gim_1''" "tr_Boundary (ce_transport ref_cli) = ''b''"
    "tr_PartErr (ce_transport ref_cli) n = None" "af_Walk (ce_fs ref_cli) d = ref_dir" for n d by (simp_all add: ref_cli_def)
  have "regular_files ref_dir = [(''a.js'', ''abc'')]" by code_simp
  moreover have "TrimRight ''https://cdn'' (CHR ''/'') @ ''/packages'' = ''https://cdn/packages''" by code_simp
  ultimately show ?thesis using run_success [OF s n] args version by (auto simp: env Let_def split: sum.splits)
qed

end
