(* ===== verification/Spec2Isabelle.thy ===== *)
theory Spec2Isabelle
  imports Gimme_Interleave Gimme_FileSpec Gimme_RedisStore Gimme_AppSpec Gimme_PublishSpec
begin

text \<open>
  Gimme, a self-hosted CDN for front-end packages: a verification development for its Go code.

  \<^bold>\<open>The program.\<close> A client uploads a ZIP archive as a package with a version
  (POST /packages). The archive becomes a set of object keys
  (internal/content/archive-keys.go), the files are stored in an S3 bucket with their content type,
  a SHA-384 integrity token and precompressed variants, and are then served under
  /gimme/package@version/file, where the version may be partial or \<open>latest\<close>. A
  cache in Redis remembers which object such an alias leads to, and a deletion drops the entries
  of every alias of the deleted version. Uploads and deletions need an access token. Tokens are
  kept in an encrypted file, in Redis or in PostgreSQL, and are issued and revoked by an
  administrator who logs in with a password or over OIDC. A configuration decides which of these
  parts the server is started with. A command line client packs a directory and uploads it.

  \<^bold>\<open>How the model is made.\<close> A Go function is a HOL function with the state it
  changes as its last argument, returned updated; every error return is a branch. Strings are
  byte strings. The libraries the sources call are arguments (records of functions), and what is
  assumed of them is a locale with a concrete instance of it interpreted in the same or a
  neighbouring theory, so that no set of assumptions is empty. Interfaces of the program are
  records too; their contracts are locales that the program's own implementations are
  interpretations or sublocales of.

  \<^bold>\<open>Theories and sources.\<close>
  \<^item> Gimme_Prelude, Gimme_GoLib, Gimme_Errors: shared facts; the functions of Go's standard
    library the sources use; internal/errors, with one constructor for each message.
  \<^item> Gimme_Archive: internal/content/archive-keys.go. Which keys an archive gives, which
    archives are refused, and that every key stays below the folder of the package.
  \<^item> Gimme_Compression: compression.go, integrity.go and pkg/file-utils.
  \<^item> Gimme_Storage: internal/storage/objectstorage-manager.go over an S3 client. The locales
    \<open>s3_service\<close> and \<open>s3_reliable\<close> are what S3 documents;
    \<open>object_storage\<close> and \<open>reliable_storage\<close> are the contract of the
    manager, given by sublocales. Gimme_StorageRef is an in-memory S3.
  \<^item> Gimme_Cache: internal/cache over Redis commands, with the contract
    \<open>cache_manager\<close>; the SCAN loop of DeleteByPrefix.
  \<^item> Gimme_Versions, Gimme_Content: internal/content/content-service.go. The goroutines of
    an upload are steps that a schedule interleaves (\<open>group_step\<close>,
    \<open>run_group\<close>). Gimme_SemverRef and Gimme_Ref are concrete instances.
  \<^item> Gimme_Upload, Gimme_UploadSpec: what CreatePackage leaves in the storage for every
    schedule. Gimme_Serve: resolution, download, deletion, and the coherence of the cache over
    every sequence of operations (\<open>served\<close>). Gimme_Listing: the paging of GetFiles.
  \<^item> Gimme_Interleave: the same operations cut into steps (\<open>steps_are_operations\<close>
    shows that the steps of one request are its operation), and pools of requests that run at
    the same time (\<open>in_parallel\<close>), whatever their names are. The JSON of a cache entry
    keeps ASCII paths only, so what is proved of other names is weaker.
  \<^item> Gimme_Tokens: token-store.go and auth-manager.go, with the contracts
    \<open>token_store\<close> and \<open>complete_token_store\<close> of a store and the
    inductive \<open>token_reach\<close> of the operations on it. Gimme_FileStore with
    Gimme_FileSpec, Gimme_RedisStore, and Gimme_PGStore are the three stores, each shown to meet
    the contract. Gimme_TokenRef is an encoding of entries. JSON keeps the strings of an entry
    only when they are valid UTF-8 (\<open>text_safe\<close>), which the laws of the codecs ask for.
    The removal of the temporary token file may fail; the index of identifiers in Redis is a set
    with its own contract (\<open>keeps_index\<close>).
  \<^item> Gimme_Negotiation, Gimme_Http: api/content-negotiation.go, api/conditional-requests.go,
    and requests, responses and URL escaping.
  \<^item> Gimme_Api, Gimme_ApiSpec: api/package-controller.go, admin-controller.go,
    health-controller.go, templates.go and internal/archive_validator; \<open>handle\<close> is
    the routing with its middleware. Gimme_ApiRef is an application for the examples.
  \<^item> Gimme_Config, Gimme_ConfigSpec: configs/config.go over viper.
  \<^item> Gimme_OIDC, Gimme_OIDCSpec: internal/auth/oidc-provider.go, basic-auth-provider.go.
    The inductive \<open>oidc_log\<close> records every callback that set a session cookie, whatever
    its request was; that such a callback passed all its checks is proved.
  \<^item> Gimme_App, Gimme_AppSpec: internal/application, internal/persistence and
    internal/storage/objectstorage-client.go: what a configuration starts and in which order it is
    stopped. Gimme_Metrics: internal/metrics.
  \<^item> Gimme_Publish, Gimme_PublishSpec: cmd/gimme-cli and internal/publish. The temporary
    directory is part of the state, written while the archive is packed; \<open>os_Remove\<close> may
    fail, and its error is dropped as in the code.

  \<^bold>\<open>What the properties show.\<close>
  \<^item> Uploads: an upload that fails leaves no new object unless the answer says so, one that
    succeeds has stored every file and variant, an existing package is not changed, keys are
    confined to the package, and the limits on entries and sizes hold exactly.
  \<^item> Serving: an uploaded file is served back with its content, aliases resolve to the
    highest stored version, a deletion removes one version only, and afterwards no cache entry
    leads to it, also with other requests in between.
  \<^item> Requests in parallel: a download only ever fetches the file it was asked for; and two
    orders of steps go wrong for every such pair of requests, a path cached after the deletion of
    its version and a rollback that deletes the files of another upload.
  \<^item> Listings: the first page is exact, later pages may show compressed copies again; a miss
    under an alias is remembered until its cache entry is gone.
  \<^item> Tokens: a created token is accepted, a revoked one never again; what the
    file store reports as saved survives a restart, and a failed save leaves at most its temporary
    file; the Redis and PostgreSQL stores refine the abstract set of entries.
  \<^item> HTTP: only a valid token changes the storage and, with OIDC, only a session changes the
    tokens; caching follows the documentation, except that one kind of error carries no
    Cache-Control; an entity tag without a comma is recognised; the choice of an encoding follows
    RFC 9110; on a reliable storage every listing is answered within its limit.
  \<^item> Configuration and start: which configurations are accepted, what an accepted one
    guarantees, which sizes are read exactly, and that the started server is wired as it says.
  \<^item> Client: a success means that the server accepted the directory's files, at the URL and
    with the token of the flags or the environment; the temporary archive is removed unless its
    removal fails.

  \<^bold>\<open>Bounds and fuel.\<close>
  \<^item> The fuel of \<open>scan_loop\<close> is the context of the request: the number of
    SCAN calls after which it is cancelled, which the code reports as an error. What is proved of
    DeleteByPrefix holds for every value of it.
  \<^item> The loop of GetFiles is \<open>partial_function (option)\<close>, as nothing in the code
    bounds it; on a reliable storage it is proved to return.
  \<^item> Archive sizes are 64-bit words, and the sum of \<open>limits_loop\<close> is shown to be
    exact or saturated, so that a declared size cannot wrap around a limit. Configured sizes are
    converted to 64 bits with wrap-around (\<open>wrap64\<close>). A size is read through the
    rounding of a float with 53 bits.
  \<^item> Times are integers (nanoseconds); a clock is an argument of each operation.
  \<^item> An operation of a store that the sources run under a mutex is one step.

  \<^bold>\<open>Not modelled.\<close> The help texts and buckets of the metrics, the text of the HTML
  templates, log lines, the listening, the signals and the timers of the server (cmd/server/main.go
  only calls Run), the end of the Redis connection of the cache. The bodies of minio-go, go-redis,
  pgx, viper, gin, the JWT and OIDC libraries, AES-GCM, HKDF, SHA-2, brotli, gzip, Unicode
  normalisation and the ignore matcher are arguments.
\<close>

end
